(* ===== verification/Argent_Prelude.thy ===== *)
theory Argent_Prelude
  imports Main "HOL-Library.List_Lexorder" "HOL-Library.Char_ord" "HOL-Library.Product_Lexorder"
begin

text \<open>
  What every component of the development shares: the outcome of a fallible Rust
  function (a value, an \<open>Err\<close>, or a panic), loops that return early, and the two
  ordered containers of the Rust standard library the sources use. A \<open>BTreeMap\<close> is an
  association list kept in key order, so that iterating over it is iterating over the
  list; a \<open>BTreeSet\<close> is a set, iterated through \<open>sorted_list_of_set\<close>. A \<open>String\<close> is
  a list of bytes (\<^typ>\<open>string\<close>) under the lexicographic order, which is Rust's order on
  \<open>str\<close>; a \<open>usize\<close> that only counts or indexes is a \<^typ>\<open>nat\<close>.
\<close>

named_theorems outcome_simps \<open>rewriting of outcomes and early-return loops\<close>
named_theorems btree_simps \<open>lookups in ordered maps\<close>

section \<open>Outcomes of Rust functions\<close>

text \<open>
  \<open>Ok\<close> and \<open>Err\<close> are the constructors of Rust's \<open>Result\<close>; \<open>Panic\<close> is a failed
  \<open>assert!\<close>, \<open>expect\<close> or index, which ends the computation.
\<close>

datatype ('e, 'a) outcome = Ok 'a | Err 'e | Panic

fun and_then :: "('e, 'a) outcome \<Rightarrow> ('a \<Rightarrow> ('e, 'b) outcome) \<Rightarrow> ('e, 'b) outcome" where
  "and_then (Ok x) f = f x"
| "and_then (Err e) f = Err e"
| "and_then Panic f = Panic"

definition ensure :: "bool \<Rightarrow> 'e \<Rightarrow> ('e, unit) outcome" where
  "ensure b e = (if b then Ok () else Err e)"

definition ok_or :: "'a option \<Rightarrow> 'e \<Rightarrow> ('e, 'a) outcome" where
  "ok_or v e = (case v of None \<Rightarrow> Err e | Some x \<Rightarrow> Ok x)"

definition expect :: "'a option \<Rightarrow> ('e, 'a) outcome" where
  "expect v = (case v of None \<Rightarrow> Panic | Some x \<Rightarrow> Ok x)"

fun map_err :: "('e \<Rightarrow> 'f) \<Rightarrow> ('e, 'a) outcome \<Rightarrow> ('f, 'a) outcome" where
  "map_err h (Ok x) = Ok x"
| "map_err h (Err e) = Err (h e)"
| "map_err h Panic = Panic"

lemma and_then_cong [fundef_cong]:
  "m = m' \<Longrightarrow> (\<And>x. m' = Ok x \<Longrightarrow> f x = g x) \<Longrightarrow> and_then m f = and_then m' g"
  by (cases m') auto

lemma and_then_Ok_iff [outcome_simps]:
  "and_then m f = Ok y \<longleftrightarrow> (\<exists>x. m = Ok x \<and> f x = Ok y)"
  by (cases m) auto

lemma and_then_Err_iff [outcome_simps]:
  "and_then m f = Err e \<longleftrightarrow> m = Err e \<or> (\<exists>x. m = Ok x \<and> f x = Err e)"
  by (cases m) auto

lemma and_then_Panic_iff [outcome_simps]:
  "and_then m f = Panic \<longleftrightarrow> m = Panic \<or> (\<exists>x. m = Ok x \<and> f x = Panic)"
  by (cases m) auto

lemma ensure_iff [simp, outcome_simps]:
  "ensure b e = Ok u \<longleftrightarrow> b"
  "ensure b e = Err e' \<longleftrightarrow> \<not> b \<and> e' = e"
  "ensure b e \<noteq> Panic"
  by (auto simp: ensure_def)

lemma ok_or_iff [simp, outcome_simps]:
  "ok_or v e = Ok x \<longleftrightarrow> v = Some x"
  "ok_or v e = Err e' \<longleftrightarrow> v = None \<and> e' = e"
  "ok_or v e \<noteq> Panic"
  by (auto simp: ok_or_def split: option.splits)

lemma expect_iff [simp, outcome_simps]:
  "expect v = Ok x \<longleftrightarrow> v = Some x"
  "expect v \<noteq> Err e"
  "expect v = Panic \<longleftrightarrow> v = None"
  by (auto simp: expect_def split: option.splits)

lemma ok_or_simps [simp]:
  "ok_or (Some x) e = Ok x" "ok_or None e = Err e" "expect (Some x) = Ok x" "expect None = Panic"
  by (simp_all add: ok_or_def expect_def)

lemma map_err_iff [simp, outcome_simps]:
  "map_err h m = Ok x \<longleftrightarrow> m = Ok x"
  "map_err h m = Err e' \<longleftrightarrow> (\<exists>e. m = Err e \<and> e' = h e)"
  "map_err h m = Panic \<longleftrightarrow> m = Panic"
  by (cases m; auto)+

text \<open>A guard that returns an error.\<close>

lemma guard_Ok_iff: "(if b then Err e else m) = Ok x \<longleftrightarrow> \<not> b \<and> m = Ok x"
  by simp

lemma guard_Panic_iff: "(if b then Err e else m) = Panic \<longleftrightarrow> \<not> b \<and> m = Panic"
  by simp

section \<open>Loops with an early return\<close>

text \<open>
  \<open>try_each\<close> is a \<open>for\<close> loop whose body may return an error, \<open>try_fold\<close> one that also
  updates a state, and \<open>try_map\<close> is \<open>map(..).collect::<Result<Vec<_>, _>>()\<close>.
\<close>

fun try_each :: "('a \<Rightarrow> ('e, unit) outcome) \<Rightarrow> 'a list \<Rightarrow> ('e, unit) outcome" where
  "try_each f [] = Ok ()"
| "try_each f (x # xs) = and_then (f x) (\<lambda>_. try_each f xs)"

fun try_fold :: "('s \<Rightarrow> 'a \<Rightarrow> ('e, 's) outcome) \<Rightarrow> 's \<Rightarrow> 'a list \<Rightarrow> ('e, 's) outcome" where
  "try_fold f s [] = Ok s"
| "try_fold f s (x # xs) = and_then (f s x) (\<lambda>s'. try_fold f s' xs)"

fun try_map :: "('a \<Rightarrow> ('e, 'b) outcome) \<Rightarrow> 'a list \<Rightarrow> ('e, 'b list) outcome" where
  "try_map f [] = Ok []"
| "try_map f (x # xs) = and_then (f x) (\<lambda>y. and_then (try_map f xs) (\<lambda>ys. Ok (y # ys)))"

lemma try_each_Ok_iff [outcome_simps]:
  "try_each f xs = Ok u \<longleftrightarrow> (\<forall>x \<in> set xs. f x = Ok ())"
  by (induction xs) (auto simp: outcome_simps)

lemma try_each_Err_elem:
  "try_each f xs = Err e \<Longrightarrow> \<exists>x \<in> set xs. f x = Err e"
  by (induction xs) (auto simp: outcome_simps)

lemma try_each_not_Panic:
  "(\<And>x. x \<in> set xs \<Longrightarrow> f x \<noteq> Panic) \<Longrightarrow> try_each f xs \<noteq> Panic"
  by (induction xs) (auto simp: outcome_simps)

lemma try_fold_append [outcome_simps]:
  "try_fold f s (xs @ ys) = and_then (try_fold f s xs) (\<lambda>s'. try_fold f s' ys)"
proof (induction xs arbitrary: s)
  case (Cons x xs)
  then show ?case by (cases "f s x") auto
qed simp

lemma try_fold_Ok_invariant:
  assumes "try_fold f s xs = Ok s'" and "P s"
    and "\<And>s x s'. x \<in> set xs \<Longrightarrow> P s \<Longrightarrow> f s x = Ok s' \<Longrightarrow> P s'"
  shows "P s'"
  using assms by (induction xs arbitrary: s) (auto simp: outcome_simps)

lemma try_fold_not_Panic:
  "(\<And>s x. x \<in> set xs \<Longrightarrow> f s x \<noteq> Panic) \<Longrightarrow> try_fold f s xs \<noteq> Panic"
  by (induction xs arbitrary: s) (auto simp: outcome_simps)

lemma try_fold_Ok_each:
  "try_fold f s xs = Ok s' \<Longrightarrow> x \<in> set xs \<Longrightarrow> \<exists>t t'. f t x = Ok t'"
  by (induction xs arbitrary: s) (auto simp: outcome_simps)

text \<open>
  The rule for a loop that must not fail: \<open>I\<close> relates the elements visited so far to the
  state, and every visit succeeds and keeps it.
\<close>

lemma try_fold_total:
  assumes "I [] s"
    and "\<And>ys x zs s. xs = ys @ x # zs \<Longrightarrow> I ys s \<Longrightarrow> \<exists>s'. f s x = Ok s' \<and> I (ys @ [x]) s'"
  shows "\<exists>s'. try_fold f s xs = Ok s' \<and> I xs s'"
  using assms
proof (induction xs arbitrary: s rule: rev_induct)
  case (snoc x xs)
  have "\<exists>s'. try_fold f s xs = Ok s' \<and> I xs s'"
  proof (rule snoc.IH)
    show "I [] s" by fact
    fix ys y zs t
    assume "xs = ys @ y # zs" and "I ys t"
    then show "\<exists>s'. f t y = Ok s' \<and> I (ys @ [y]) s'"
      by (intro snoc.prems(2) [of ys y "zs @ [x]"]) auto
  qed
  then obtain t where "try_fold f s xs = Ok t" "I xs t" by blast
  moreover from snoc.prems(2) [of xs x "[]" t] this
  obtain u where "f t x = Ok u" "I (xs @ [x]) u" by auto
  ultimately show ?case by (simp add: try_fold_append)
qed simp

text \<open>A loop that succeeds exactly when every element passes a test.\<close>

lemma try_fold_decides:
  assumes "I [] s"
    and "\<And>ys x zs s. xs = ys @ x # zs \<Longrightarrow> I ys s \<Longrightarrow>
      if Q x then \<exists>s'. f s x = Ok s' \<and> I (ys @ [x]) s' else f s x = Err e"
  shows "if \<forall>x \<in> set xs. Q x then \<exists>s'. try_fold f s xs = Ok s' \<and> I xs s' else try_fold f s xs = Err e"
  using assms
proof (induction xs arbitrary: s rule: rev_induct)
  case (snoc x xs)
  have IH: "if \<forall>x \<in> set xs. Q x then \<exists>s'. try_fold f s xs = Ok s' \<and> I xs s' else try_fold f s xs = Err e"
  proof (rule snoc.IH)
    show "I [] s" by fact
    fix ys y zs t
    assume "xs = ys @ y # zs" and "I ys t"
    then show "if Q y then \<exists>s'. f t y = Ok s' \<and> I (ys @ [y]) s' else f t y = Err e"
      by (intro snoc.prems(2) [of ys y "zs @ [x]"]) auto
  qed
  show ?case
  proof (cases "\<forall>x \<in> set xs. Q x")
    case True
    with IH obtain t where t: "try_fold f s xs = Ok t" "I xs t" by auto
    with snoc.prems(2) [of xs x "[]" t] True show ?thesis by (auto simp: try_fold_append)
  next
    case False
    with IH have "try_fold f s xs = Err e" by simp
    moreover have "\<not> (\<forall>y \<in> set (xs @ [x]). Q y)" using False by simp
    ultimately show ?thesis by (simp only: try_fold_append and_then.simps if_False)
  qed
qed simp

text \<open>
  The same by position, for a loop that keeps an index: \<open>I j\<close> holds before the element at
  \<open>j\<close> is visited, and \<open>Q j\<close> says whether it is accepted.
\<close>

lemma try_fold_nth:
  assumes "I 0 s"
    and "\<And>j s. j < length xs \<Longrightarrow> I j s \<Longrightarrow>
      if Q j then \<exists>s'. f s (xs ! j) = Ok s' \<and> I (Suc j) s' else \<exists>e. f s (xs ! j) = Err e"
  shows "if \<forall>j < length xs. Q j then \<exists>s'. try_fold f s xs = Ok s' \<and> I (length xs) s'
    else \<exists>e. try_fold f s xs = Err e"
  using assms
proof (induction xs arbitrary: s I Q)
  case (Cons x xs)
  show ?case
  proof (cases "Q 0")
    case True
    with Cons.prems(1) Cons.prems(2) [of 0 s] obtain t where t: "f s x = Ok t" "I (Suc 0) t" by auto
    have "if \<forall>j < length xs. Q (Suc j) then \<exists>s'. try_fold f t xs = Ok s' \<and> I (Suc (length xs)) s'
        else \<exists>e. try_fold f t xs = Err e"
    proof (rule Cons.IH [of "\<lambda>j. I (Suc j)" t])
      show "if Q (Suc j) then \<exists>s'. f u (xs ! j) = Ok s' \<and> I (Suc (Suc j)) s'
          else \<exists>e. f u (xs ! j) = Err e" if "j < length xs" "I (Suc j) u" for j u
        using Cons.prems(2) [of "Suc j" u] that by (cases "Q (Suc j)") auto
    qed (rule t(2))
    with t(1) True show ?thesis by (auto simp: All_less_Suc2 split: if_splits)
  next
    case False
    with Cons.prems(1) Cons.prems(2) [of 0 s] obtain e where "f s x = Err e" by auto
    with False show ?thesis by auto
  qed
qed simp

text \<open>The rule for a loop that may stop with an error of a known kind, but never panics.\<close>

lemma try_fold_safe:
  assumes "I [] s"
    and "\<And>ys x zs s. xs = ys @ x # zs \<Longrightarrow> I ys s \<Longrightarrow>
      (\<exists>s'. f s x = Ok s' \<and> I (ys @ [x]) s') \<or> (\<exists>e. f s x = Err e \<and> E e)"
  shows "(\<exists>s'. try_fold f s xs = Ok s' \<and> I xs s') \<or> (\<exists>e. try_fold f s xs = Err e \<and> E e)"
  using assms
proof (induction xs arbitrary: s rule: rev_induct)
  case (snoc x xs)
  have "(\<exists>s'. try_fold f s xs = Ok s' \<and> I xs s') \<or> (\<exists>e. try_fold f s xs = Err e \<and> E e)"
  proof (rule snoc.IH)
    show "I [] s" by fact
    fix ys y zs t
    assume "xs = ys @ y # zs" and "I ys t"
    then show "(\<exists>s'. f t y = Ok s' \<and> I (ys @ [y]) s') \<or> (\<exists>e. f t y = Err e \<and> E e)"
      by (intro snoc.prems(2) [of ys y "zs @ [x]"]) auto
  qed
  then show ?case
  proof (elim disjE exE conjE)
    fix t assume t: "try_fold f s xs = Ok t" "I xs t"
    from snoc.prems(2) [of xs x "[]" t] t show ?thesis by (auto simp: try_fold_append)
  qed (simp add: try_fold_append)
qed simp

lemma distinct_take_iff: "distinct xs \<longleftrightarrow> (\<forall>j < length xs. xs ! j \<notin> set (take j xs))"
proof (induction xs rule: rev_induct)
  case (snoc x xs)
  then show ?case by (auto simp: nth_append All_less_Suc)
qed simp

lemma try_map_total:
  "(\<And>x. x \<in> set xs \<Longrightarrow> f x = Ok (g x)) \<Longrightarrow> try_map f xs = Ok (map g xs)"
  by (induction xs) auto

lemma try_fold_cong [fundef_cong]:
  assumes "s = s'" "xs = ys" "\<And>s x. x \<in> set ys \<Longrightarrow> f s x = g s x"
  shows "try_fold f s xs = try_fold g s' ys"
proof -
  have "try_fold f t ys = try_fold g t ys" for t
    using assms(3) by (induction ys arbitrary: t) (auto intro!: and_then_cong)
  then show ?thesis using assms(1,2) by simp
qed

lemma try_map_Ok_iff [outcome_simps]:
  "try_map f xs = Ok ys \<longleftrightarrow> list_all2 (\<lambda>x y. f x = Ok y) xs ys"
  by (induction xs arbitrary: ys) (auto simp: outcome_simps list_all2_Cons1)

lemma try_map_not_Panic:
  "(\<And>x. x \<in> set xs \<Longrightarrow> f x \<noteq> Panic) \<Longrightarrow> try_map f xs \<noteq> Panic"
  by (induction xs) (auto simp: outcome_simps)

section \<open>Ordered maps\<close>

type_synonym ('k, 'v) btree = "('k \<times> 'v) list"

text \<open>The contract of an ordered map that the sources rely on.\<close>

locale ordered_map =
  fixes get :: "'m \<Rightarrow> 'k::linorder \<Rightarrow> 'v option"
    and put :: "'k \<Rightarrow> 'v \<Rightarrow> 'm \<Rightarrow> 'm"
    and keys :: "'m \<Rightarrow> 'k list"
    and none :: 'm
  assumes get_none: "get none k = None"
    and get_put: "get (put k v m) = (get m)(k \<mapsto> v)"
    and keys_get: "k \<in> set (keys m) \<longleftrightarrow> get m k \<noteq> None"
    and keys_none: "keys none = []"
    and keys_put_sorted: "sorted_wrt (<) (keys m) \<Longrightarrow> sorted_wrt (<) (keys (put k v m))"
begin

text \<open>Filling a map from a list of pairs: the last pair of a key wins.\<close>

lemma get_fold_put:
  "get (fold (\<lambda>(k, v). put k v) kvs m) = get m ++ map_of (rev kvs)"
  by (induction kvs arbitrary: m) (auto simp: get_put map_add_def fun_eq_iff split: option.splits)

lemma get_filled: "get (fold (\<lambda>(k, v). put k v) kvs none) k = map_of (rev kvs) k"
  by (simp add: get_fold_put get_none map_add_def split: option.splits)

lemma get_filled_distinct:
  "distinct (map fst kvs) \<Longrightarrow> get (fold (\<lambda>(k, v). put k v) kvs none) k = map_of kvs k"
  by (metis get_filled distinct_rev map_of_inject_set map_of_eqI rev_map set_rev)

lemma filled_sorted: "sorted_wrt (<) (keys (fold (\<lambda>(k, v). put k v) kvs none))"
proof -
  have "sorted_wrt (<) (keys m) \<Longrightarrow> sorted_wrt (<) (keys (fold (\<lambda>(k, v). put k v) kvs m))" for m
    by (induction kvs arbitrary: m) (auto simp: keys_put_sorted)
  then show ?thesis by (simp add: keys_none)
qed

end

text \<open>\<open>BTreeMap::insert\<close>: the entry of a key already present is replaced in place.\<close>

fun bm_insert :: "'k::linorder \<Rightarrow> 'v \<Rightarrow> ('k, 'v) btree \<Rightarrow> ('k, 'v) btree" where
  "bm_insert k v [] = [(k, v)]"
| "bm_insert k v ((k', v') # m) =
     (if k < k' then (k, v) # (k', v') # m
      else if k = k' then (k, v) # m
      else (k', v') # bm_insert k v m)"

abbreviation bm_keys :: "('k, 'v) btree \<Rightarrow> 'k list" where
  "bm_keys m \<equiv> map fst m"

lemma map_of_bm_insert [simp, btree_simps]:
  "map_of (bm_insert k v m) = (map_of m)(k \<mapsto> v)"
  by (induction m) (auto simp: fun_eq_iff)

lemma set_keys_bm_insert [simp, btree_simps]:
  "fst ` set (bm_insert k v m) = insert k (fst ` set m)"
proof (induction m)
  case (Cons kv m)
  then show ?case by (cases kv) (simp add: insert_commute)
qed simp

lemma bm_insert_sorted [simp, intro]:
  "sorted_wrt (<) (bm_keys m) \<Longrightarrow> sorted_wrt (<) (bm_keys (bm_insert k v m))"
proof (induction m)
  case (Cons kv m)
  have "set (map fst (bm_insert k v m)) = insert k (fst ` set m)" by simp
  with Cons show ?case by (cases kv) auto
qed simp

interpretation bm: ordered_map map_of bm_insert "map fst" "[]"
  by unfold_locales (auto simp: map_of_eq_None_iff)

lemma sorted_keys_distinct:
  "sorted_wrt (<) (bm_keys (m :: ('k::linorder, 'v) btree)) \<Longrightarrow> distinct (bm_keys m)"
  by (simp add: strict_sorted_iff)

text \<open>A map in key order is determined by its lookups.\<close>

lemma btree_eqI:
  fixes m m' :: "('k::linorder, 'v) btree"
  assumes "sorted_wrt (<) (bm_keys m)" "sorted_wrt (<) (bm_keys m')" "map_of m = map_of m'"
  shows "m = m'"
proof -
  have d: "distinct (bm_keys m)" "distinct (bm_keys m')" using assms(1,2) by (auto intro: sorted_keys_distinct)
  have s: "set m = set m'" using map_of_inject_set [OF d] assms(3) by simp
  then have "set (bm_keys m) = set (bm_keys m')" by simp
  then have k: "bm_keys m = bm_keys m'"
    using assms(1,2) by (intro sorted_distinct_set_unique) (simp_all add: strict_sorted_iff)
  show ?thesis
  proof (rule nth_equalityI)
    show len: "length m = length m'" using arg_cong [OF k, of length] by simp
    fix i assume i: "i < length m"
    then have "m ! i \<in> set m'" using s nth_mem by blast
    then have "map_of m' (fst (m ! i)) = Some (snd (m ! i))" using d(2) by simp
    moreover have "map_of m' (fst (m' ! i)) = Some (snd (m' ! i))" using d(2) i len by simp
    moreover have "fst (m ! i) = fst (m' ! i)" using k i len by (metis nth_map)
    ultimately show "m ! i = m' ! i" by (simp add: prod_eq_iff)
  qed
qed

section \<open>Lists and sets\<close>

lemma sorted_list_of_set_rev_mem [simp]:
  "finite A \<Longrightarrow> set (rev (sorted_list_of_set A)) = A"
  by simp

lemma finite_set_sorted_list [simp]: "finite (set (sorted_list_of_set A))"
  by simp

lemma closed_rtrancl_Image:
  assumes "a \<in> S" "r `` S \<subseteq> S" "S \<subseteq> r\<^sup>* `` {a}"
  shows "S = r\<^sup>* `` {a}"
proof -
  have "r\<^sup>* `` S = S" using assms(2) by (rule Image_closed_trancl)
  then show ?thesis using assms(1,3) by blast
qed

lemma find_SomeD: "find P xs = Some x \<Longrightarrow> x \<in> set xs \<and> P x"
  by (induction xs) (auto split: if_splits)

lemma find_NoneD: "find P xs = None \<Longrightarrow> x \<in> set xs \<Longrightarrow> \<not> P x"
  by (auto simp: find_None_iff)

lemma nth_in_concat: "i < length xss \<Longrightarrow> x \<in> set (xss ! i) \<Longrightarrow> x \<in> set (concat xss)"
  by auto

end
