(* ===== verification/Route_Graph.thy ===== *)
theory Route_Graph
  imports Argent_Prelude
begin

text \<open>
  The routing graph of \<^verbatim>\<open>src/routing/graph.rs\<close>: the graph itself and the operations
  that build it, \<open>components\<close> (weak emit components of a domain and their inbound gates)
  and \<open>needs\<close> (the templates every actor needs). Both searches are stated as the loops the
  source has, with their explicit stacks; a stack is a list whose head is the top, so
  \<open>Vec::push\<close> is \<open>Cons\<close> and extending a stack by an ascending sequence prepends its
  reversal. The lemmas show that \<open>needs\<close> computes reachability whatever order the actors
  are resolved in, and that \<open>components\<close> returns the classes of weak connectivity.
\<close>

section \<open>The graph and its construction\<close>

record route_graph =
  rg_actors :: "string set"
  rg_emits :: "(string, string set) btree"
  rg_consumes :: "(string, string set) btree"

definition empty_graph :: route_graph where
  "empty_graph = \<lparr>rg_actors = {}, rg_emits = [], rg_consumes = []\<rparr>"

definition entry_or_default :: "('k, 'a set) btree \<Rightarrow> 'k \<Rightarrow> 'a set" where
  "entry_or_default m k = (case map_of m k of None \<Rightarrow> {} | Some s \<Rightarrow> s)"

abbreviation emits_of :: "route_graph \<Rightarrow> string \<Rightarrow> string set" where
  "emits_of g \<equiv> entry_or_default (rg_emits g)"

abbreviation consumes_of :: "route_graph \<Rightarrow> string \<Rightarrow> string set" where
  "consumes_of g \<equiv> entry_or_default (rg_consumes g)"

definition add_actor :: "route_graph \<Rightarrow> string \<Rightarrow> route_graph" where
  "add_actor g a = g\<lparr>rg_actors := insert a (rg_actors g)\<rparr>"

definition add_emit :: "route_graph \<Rightarrow> string \<Rightarrow> string \<Rightarrow> route_graph" where
  "add_emit g source target =
     g\<lparr>rg_actors := insert target (insert source (rg_actors g)),
       rg_emits := bm_insert source (insert target (emits_of g source)) (rg_emits g)\<rparr>"

definition add_consume :: "route_graph \<Rightarrow> string \<Rightarrow> string \<Rightarrow> route_graph" where
  "add_consume g source target =
     g\<lparr>rg_actors := insert target (insert source (rg_actors g)),
       rg_consumes := bm_insert source (insert target (consumes_of g source)) (rg_consumes g)\<rparr>"

definition clique_edges :: "string set \<Rightarrow> string \<Rightarrow> route_graph \<Rightarrow> route_graph" where
  "clique_edges actor_subset source g =
     g\<lparr>rg_emits := bm_insert source (emits_of g source \<union> {t \<in> actor_subset. t \<noteq> source}) (rg_emits g)\<rparr>"

definition add_emit_clique :: "route_graph \<Rightarrow> string set \<Rightarrow> ('e, route_graph) outcome" where
  "add_emit_clique g actor_subset =
     (if \<not> actor_subset \<subseteq> rg_actors g then Panic
      else Ok (fold (clique_edges actor_subset) (sorted_list_of_set actor_subset) g))"

definition direct_consumes :: "route_graph \<Rightarrow> string \<Rightarrow> string set option" where
  "direct_consumes g source = map_of (rg_consumes g) source"

section \<open>Components\<close>

record component =
  comp_members :: "string set"
  comp_gates :: "string set"

text \<open>
  The first pass visits one target inside the domain: a self edge is skipped, an edge from
  outside the domain is kept for the gates, any other edge links both ends.
\<close>

fun note_target ::
  "string set \<Rightarrow> string \<Rightarrow> (string, string set) btree \<times> string list \<Rightarrow> string
     \<Rightarrow> ('e, (string, string set) btree \<times> string list) outcome" where
  "note_target domain source (neighbors, gates) target =
     (if source = target then Ok (neighbors, gates)
      else if source \<notin> domain then Ok (neighbors, gates @ [target])
      else and_then (expect (map_of neighbors source)) (\<lambda>ns.
        let neighbors1 = bm_insert source (insert target ns) neighbors in
        and_then (expect (map_of neighbors1 target)) (\<lambda>nt.
          Ok (bm_insert target (insert source nt) neighbors1, gates))))"

definition note_source ::
  "string set \<Rightarrow> (string, string set) btree \<times> string list \<Rightarrow> string \<times> string set
     \<Rightarrow> ('e, (string, string set) btree \<times> string list) outcome" where
  "note_source domain st e =
     try_fold (note_target domain (fst e)) st (sorted_list_of_set (snd e \<inter> domain))"

definition adjacency ::
  "route_graph \<Rightarrow> string set \<Rightarrow> ('e, (string, string set) btree \<times> string list) outcome" where
  "adjacency g domain =
     try_fold (note_source domain) (map (\<lambda>a. (a, {})) (sorted_list_of_set domain), []) (rg_emits g)"

text \<open>
  The second pass searches one component: an actor gets its component's index when it is
  pushed, so no actor enters the stack twice.
\<close>

fun claim_neighbor ::
  "nat \<Rightarrow> string \<Rightarrow> (string, nat) btree \<times> string list \<Rightarrow> (string, nat) btree \<times> string list" where
  "claim_neighbor component_index neighbor (component_by_actor, pending) =
     (if map_of component_by_actor neighbor = None
      then (bm_insert neighbor component_index component_by_actor, neighbor # pending)
      else (component_by_actor, pending))"

definition adjacent_actors :: "(string, string set) btree \<Rightarrow> string set" where
  "adjacent_actors neighbors = (\<Union>e \<in> set neighbors. set (sorted_list_of_set (snd e)))"

lemma finite_adjacent_actors [simp]: "finite (adjacent_actors neighbors)"
  by (simp add: adjacent_actors_def)

lemma claim_neighbors_measure:
  assumes "finite U" "set ns \<subseteq> U" "fold (claim_neighbor i) ns (c, p) = (c', p')"
  shows "card (U - fst ` set c') + length p' = card (U - fst ` set c) + length p"
  using assms(2,3)
proof (induction ns arbitrary: c p)
  case (Cons n ns)
  show ?case
  proof (cases "map_of c n")
    case None
    then have n: "n \<in> U - fst ` set c"
      using Cons.prems(1) by (simp add: map_of_eq_None_iff)
    then have "card (U - fst ` set c) = Suc (card (U - insert n (fst ` set c)))"
      using assms(1) by (metis Diff_insert card_Suc_Diff1 finite_Diff)
    with None Cons show ?thesis by simp
  next
    case (Some j)
    with Cons show ?thesis by simp
  qed
qed simp

function comp_search ::
  "(string, string set) btree \<Rightarrow> nat \<Rightarrow> (string, nat) btree \<Rightarrow> string list \<Rightarrow> string set
     \<Rightarrow> ('e, (string, nat) btree \<times> string set) outcome" where
  "comp_search neighbors component_index component_by_actor [] members =
     Ok (component_by_actor, members)"
| "comp_search neighbors component_index component_by_actor (actor # pending) members =
     (case map_of neighbors actor of
        None \<Rightarrow> Panic
      | Some ns \<Rightarrow>
          (case fold (claim_neighbor component_index) (sorted_list_of_set ns) (component_by_actor, pending) of
             (component_by_actor', pending') \<Rightarrow>
               comp_search neighbors component_index component_by_actor' pending' (insert actor members)))"
  by pat_completeness auto
termination
proof (relation "measure (\<lambda>(nb, i, c, p, m). card (adjacent_actors nb - fst ` set c) + length p)")
  fix nb :: "(string, string set) btree" and i :: nat and c :: "(string, nat) btree"
    and a :: string and p :: "string list" and m :: "string set" and ns :: "string set" and c' p'
  assume some: "map_of nb a = Some ns"
    and eq: "(c', p') = fold (claim_neighbor i) (sorted_list_of_set ns) (c, p)"
  have "set (sorted_list_of_set ns) \<subseteq> adjacent_actors nb"
    using some by (auto simp: adjacent_actors_def dest!: map_of_SomeD)
  from claim_neighbors_measure [OF finite_adjacent_actors this eq [symmetric]]
  show "((nb, i, c', p', insert a m), nb, i, c, a # p, m)
    \<in> measure (\<lambda>(nb, i, c, p, m). card (adjacent_actors nb - fst ` set c) + length p)"
    by simp
qed simp

definition component_step ::
  "(string, string set) btree \<Rightarrow> component list \<times> (string, nat) btree \<Rightarrow> string
     \<Rightarrow> ('e, component list \<times> (string, nat) btree) outcome" where
  "component_step neighbors st actor =
     (case st of (components, component_by_actor) \<Rightarrow>
        if map_of component_by_actor actor \<noteq> None then Ok (components, component_by_actor)
        else
          let component_index = length components in
          and_then
            (comp_search neighbors component_index
               (bm_insert actor component_index component_by_actor) [actor] {})
            (\<lambda>(component_by_actor', members).
               Ok (components @ [\<lparr>comp_members = members, comp_gates = {}\<rparr>], component_by_actor')))"

definition record_gate ::
  "(string, nat) btree \<Rightarrow> component list \<Rightarrow> string \<Rightarrow> ('e, component list) outcome" where
  "record_gate component_by_actor components target =
     and_then (expect (map_of component_by_actor target)) (\<lambda>i.
       if i < length components
       then Ok (components[i := (components ! i)\<lparr>comp_gates := insert target (comp_gates (components ! i))\<rparr>])
       else Panic)"

definition components :: "route_graph \<Rightarrow> string set \<Rightarrow> ('e, component list) outcome" where
  "components g domain =
     (if \<not> domain \<subseteq> rg_actors g then Panic
      else and_then (adjacency g domain) (\<lambda>(neighbors, gates).
        and_then (try_fold (component_step neighbors) ([], []) (sorted_list_of_set domain))
          (\<lambda>(components, component_by_actor).
             try_fold (record_gate component_by_actor) components gates)))"

section \<open>Needs\<close>

text \<open>
  The search for one source. A target below the source was resolved by an earlier iteration
  and contributes its whole closure; any other target contributes its consumes and its own
  emits are pushed.
\<close>

definition edge_ends :: "(string, string set) btree \<Rightarrow> string set" where
  "edge_ends m = fst ` set m \<union> (\<Union>e \<in> set m. set (sorted_list_of_set (snd e)))"

lemma finite_edge_ends [simp]: "finite (edge_ends m)"
  by (simp add: edge_ends_def)

function needs_search ::
  "route_graph \<Rightarrow> (string, string set) btree \<Rightarrow> string \<Rightarrow> string list \<Rightarrow> string set \<Rightarrow> string set
     \<Rightarrow> ('e, string set) outcome" where
  "needs_search g reachable src [] expanded src_reachable = Ok src_reachable"
| "needs_search g reachable src (dst # stack) expanded src_reachable =
     (if dst \<in> expanded
      then needs_search g reachable src stack expanded (insert dst src_reachable)
      else if dst < src
      then (case map_of reachable dst of
              None \<Rightarrow> Panic
            | Some dst_reachable \<Rightarrow>
                needs_search g reachable src stack (insert dst expanded)
                  (insert dst src_reachable \<union> dst_reachable))
      else needs_search g reachable src (rev (sorted_list_of_set (emits_of g dst)) @ stack)
             (insert dst expanded) (insert dst src_reachable \<union> consumes_of g dst))"
  by pat_completeness auto
termination
proof (relation "measures [\<lambda>(g, r, s, st, ex, acc). card (edge_ends (rg_emits g) - ex), \<lambda>(g, r, s, st, ex, acc). length st]")
  have shrink: "card (U - insert d ex) \<le> card (U - ex)"
    if "finite U" for U ex :: "string set" and d
    using that by (intro card_mono) auto
  have strict: "card (U - insert d ex) < card (U - ex)"
    if "finite U" "d \<in> U" "d \<notin> ex" for U ex :: "string set" and d
    using that by (intro psubset_card_mono) auto
  fix g r and src dst :: string and stack ex acc
  {
    fix dr
    show "((g, r, src, stack, insert dst ex, insert dst acc \<union> dr), g, r, src, dst # stack, ex, acc)
      \<in> measures [\<lambda>(g, r, s, st, ex, acc). card (edge_ends (rg_emits g) - ex), \<lambda>(g, r, s, st, ex, acc). length st]"
      using shrink [OF finite_edge_ends, of "rg_emits g" dst ex] by (auto simp: le_less)
  next
    assume new: "dst \<notin> ex"
    show "((g, r, src, rev (sorted_list_of_set (emits_of g dst)) @ stack, insert dst ex,
        insert dst acc \<union> consumes_of g dst), g, r, src, dst # stack, ex, acc)
      \<in> measures [\<lambda>(g, r, s, st, ex, acc). card (edge_ends (rg_emits g) - ex), \<lambda>(g, r, s, st, ex, acc). length st]"
    proof (cases "dst \<in> edge_ends (rg_emits g)")
      case True
      with strict [OF finite_edge_ends True new] show ?thesis by simp
    next
      case False
      then have "emits_of g dst = {}"
        by (force simp: edge_ends_def entry_or_default_def map_of_eq_None_iff split: option.splits
            dest!: map_of_SomeD)
      then show ?thesis
        using shrink [OF finite_edge_ends, of "rg_emits g" dst ex] by (auto simp: le_less)
    qed
  }
qed auto

definition needs_step ::
  "route_graph \<Rightarrow> (string, string set) btree \<Rightarrow> string \<Rightarrow> ('e, (string, string set) btree) outcome" where
  "needs_step g reachable src =
     and_then
       (needs_search g reachable src (rev (sorted_list_of_set (emits_of g src))) {} (consumes_of g src))
       (\<lambda>src_reachable. Ok (bm_insert src src_reachable reachable))"

definition needs :: "route_graph \<Rightarrow> ('e, (string, string set) btree) outcome" where
  "needs g = try_fold (needs_step g) [] (sorted_list_of_set (rg_actors g))"


section \<open>Well-formed graphs\<close>

text \<open>
  What the building operations keep: ordered maps have ascending keys, and every source and
  target of an edge is an actor.
\<close>

definition edges_wf :: "string set \<Rightarrow> (string, string set) btree \<Rightarrow> bool" where
  "edges_wf actors m \<longleftrightarrow>
     sorted_wrt (<) (bm_keys m) \<and> (\<forall>s T. map_of m s = Some T \<longrightarrow> s \<in> actors \<and> T \<subseteq> actors)"

definition graph_wf :: "route_graph \<Rightarrow> bool" where
  "graph_wf g \<longleftrightarrow> finite (rg_actors g) \<and> edges_wf (rg_actors g) (rg_emits g)
     \<and> edges_wf (rg_actors g) (rg_consumes g)"

definition emit_rel :: "route_graph \<Rightarrow> (string \<times> string) set" where
  "emit_rel g = {(s, t). t \<in> emits_of g s}"

lemma emit_rel_iff [simp]: "(s, t) \<in> emit_rel g \<longleftrightarrow> t \<in> emits_of g s"
  by (simp add: emit_rel_def)

lemma edges_wf_empty [simp]: "edges_wf A []"
  by (simp add: edges_wf_def)

lemma edges_wf_mono: "edges_wf A m \<Longrightarrow> A \<subseteq> B \<Longrightarrow> edges_wf B m"
  unfolding edges_wf_def by blast

lemma edges_wf_insert:
  "edges_wf A m \<Longrightarrow> s \<in> A \<Longrightarrow> T \<subseteq> A \<Longrightarrow> edges_wf A (bm_insert s T m)"
  unfolding edges_wf_def by (auto split: if_splits)

lemma entry_subset: "edges_wf A m \<Longrightarrow> entry_or_default m s \<subseteq> A"
  unfolding edges_wf_def entry_or_default_def by (auto split: option.splits)

lemma entry_source: "edges_wf A m \<Longrightarrow> t \<in> entry_or_default m s \<Longrightarrow> s \<in> A \<and> t \<in> A"
  unfolding edges_wf_def entry_or_default_def by (auto split: option.splits)

lemma entry_bm_insert [simp]:
  "entry_or_default (bm_insert k T m) s = (if s = k then T else entry_or_default m s)"
  by (simp add: entry_or_default_def)

lemma entry_empty [simp]: "entry_or_default [] s = {}"
  by (simp add: entry_or_default_def)

lemma finite_entry: "graph_wf g \<Longrightarrow> finite (emits_of g s) \<and> finite (consumes_of g s)"
  unfolding graph_wf_def by (meson entry_subset finite_subset)

lemma graph_wf_finite [simp]: "graph_wf g \<Longrightarrow> finite (rg_actors g)"
  by (simp add: graph_wf_def)

lemma empty_graph_wf [simp]: "graph_wf empty_graph"
  by (simp add: graph_wf_def empty_graph_def)

lemma add_actor_wf: "graph_wf g \<Longrightarrow> graph_wf (add_actor g a)"
  unfolding graph_wf_def add_actor_def by (auto elim: edges_wf_mono)

lemma add_emit_wf:
  assumes "graph_wf g"
  shows "graph_wf (add_emit g s t)"
proof -
  let ?A = "insert t (insert s (rg_actors g))"
  have "edges_wf ?A (rg_emits g)" "edges_wf ?A (rg_consumes g)"
    using assms unfolding graph_wf_def by (auto elim: edges_wf_mono)
  moreover from this have "edges_wf ?A (bm_insert s (insert t (emits_of g s)) (rg_emits g))"
    using entry_subset by (intro edges_wf_insert) fastforce+
  ultimately show ?thesis
    using assms by (simp add: graph_wf_def add_emit_def)
qed

lemma add_consume_wf:
  assumes "graph_wf g"
  shows "graph_wf (add_consume g s t)"
proof -
  let ?A = "insert t (insert s (rg_actors g))"
  have "edges_wf ?A (rg_emits g)" "edges_wf ?A (rg_consumes g)"
    using assms unfolding graph_wf_def by (auto elim: edges_wf_mono)
  moreover from this have "edges_wf ?A (bm_insert s (insert t (consumes_of g s)) (rg_consumes g))"
    using entry_subset by (intro edges_wf_insert) fastforce+
  ultimately show ?thesis
    using assms by (simp add: graph_wf_def add_consume_def)
qed

lemma clique_edges_simps [simp]:
  "rg_actors (clique_edges C s g) = rg_actors g"
  "rg_consumes (clique_edges C s g) = rg_consumes g"
  "emits_of (clique_edges C s g) a = emits_of g a \<union> (if a = s then C - {s} else {})"
  by (auto simp: clique_edges_def)

lemma clique_edges_wf:
  "graph_wf g \<Longrightarrow> C \<subseteq> rg_actors g \<Longrightarrow> s \<in> C \<Longrightarrow> graph_wf (clique_edges C s g)"
  unfolding graph_wf_def clique_edges_def
  by (auto intro!: edges_wf_insert dest: entry_subset)

lemma fold_clique_edges:
  assumes "graph_wf g" "C \<subseteq> rg_actors g" "set ss \<subseteq> C"
  shows "graph_wf (fold (clique_edges C) ss g)
    \<and> rg_actors (fold (clique_edges C) ss g) = rg_actors g
    \<and> rg_consumes (fold (clique_edges C) ss g) = rg_consumes g
    \<and> (\<forall>a. emits_of (fold (clique_edges C) ss g) a
          = emits_of g a \<union> (if a \<in> set ss then C - {a} else {}))"
  using assms
proof (induction ss arbitrary: g)
  case (Cons s ss)
  from Cons.prems have "graph_wf (clique_edges C s g)" by (auto intro: clique_edges_wf)
  from Cons.IH [OF this] Cons.prems show ?case by auto
qed simp

text \<open>The clique of a subset adds exactly the edges between its distinct members.\<close>

lemma add_emit_clique_spec:
  assumes "graph_wf g" "C \<subseteq> rg_actors g"
  obtains g' where "add_emit_clique g C = Ok g'" "graph_wf g'" "rg_actors g' = rg_actors g"
    "rg_consumes g' = rg_consumes g"
    "\<And>a. emits_of g' a = emits_of g a \<union> (if a \<in> C then C - {a} else {})"
proof -
  have "finite C" using assms by (meson graph_wf_finite finite_subset)
  with fold_clique_edges [OF assms, of "sorted_list_of_set C"] assms(2) that
  show ?thesis by (auto simp: add_emit_clique_def)
qed

section \<open>\<open>needs\<close> computes reachability\<close>

text \<open>
  The specification does not mention an order: the direct consumes of the source, every
  actor at the end of a non-empty emit path, and the direct consumes of those actors.
\<close>

definition emit_reach :: "route_graph \<Rightarrow> string \<Rightarrow> string set" where
  "emit_reach g a = (emit_rel g)\<^sup>+ `` {a}"

definition needs_spec :: "route_graph \<Rightarrow> string \<Rightarrow> string set" where
  "needs_spec g a = consumes_of g a \<union> emit_reach g a \<union> (\<Union>d \<in> emit_reach g a. consumes_of g d)"

lemma emit_reach_step: "t \<in> emits_of g s \<Longrightarrow> t \<in> emit_reach g s"
  by (simp add: emit_reach_def r_into_trancl')

lemma emit_reach_trans: "b \<in> emit_reach g a \<Longrightarrow> c \<in> emit_reach g b \<Longrightarrow> c \<in> emit_reach g a"
  unfolding emit_reach_def by auto

lemma emit_reach_into: "b \<in> emit_reach g a \<Longrightarrow> c \<in> emits_of g b \<Longrightarrow> c \<in> emit_reach g a"
  by (blast intro: emit_reach_step emit_reach_trans)

lemma needs_spec_reach: "b \<in> emit_reach g a \<Longrightarrow> needs_spec g b \<subseteq> needs_spec g a"
  unfolding needs_spec_def by (blast dest: emit_reach_trans)

lemma emit_reach_needs: "b \<in> emit_reach g a \<Longrightarrow> b \<in> needs_spec g a"
  by (simp add: needs_spec_def)

lemma emit_target_needs:
  "t \<in> emits_of g s \<Longrightarrow> insert t (needs_spec g t) \<subseteq> needs_spec g s"
  using needs_spec_reach emit_reach_needs emit_reach_step by blast

lemma consumes_needs: "consumes_of g a \<subseteq> needs_spec g a"
  by (auto simp: needs_spec_def)

lemma emit_reach_actors: "graph_wf g \<Longrightarrow> emit_reach g a \<subseteq> rg_actors g"
proof
  fix d assume "graph_wf g" and "d \<in> emit_reach g a"
  then obtain c where "d \<in> emits_of g c"
    unfolding emit_reach_def by (auto elim: tranclE)
  with \<open>graph_wf g\<close> show "d \<in> rg_actors g"
    unfolding graph_wf_def using entry_subset by blast
qed

lemma needs_spec_actors:
  assumes "graph_wf g"
  shows "needs_spec g a \<subseteq> rg_actors g"
  using assms emit_reach_actors [OF assms] entry_subset [of "rg_actors g" "rg_consumes g"]
  unfolding needs_spec_def graph_wf_def by blast

text \<open>
  The invariant of the search: the expanded actors below the source have given their whole
  closure, the others their consumes, and their targets are expanded or on the stack.
\<close>

definition settled ::
  "route_graph \<Rightarrow> string \<Rightarrow> string set \<Rightarrow> string set \<Rightarrow> string \<Rightarrow> bool" where
  "settled g src frontier acc e \<longleftrightarrow>
     (if e < src then needs_spec g e \<subseteq> acc
      else consumes_of g e \<subseteq> acc \<and> emits_of g e \<subseteq> frontier)"

lemma settled_mono:
  "settled g src F acc e \<Longrightarrow> F \<subseteq> F' \<Longrightarrow> acc \<subseteq> acc' \<Longrightarrow> settled g src F' acc' e"
  by (auto simp: settled_def split: if_splits)

definition search_inv ::
  "route_graph \<Rightarrow> string \<Rightarrow> string list \<Rightarrow> string set \<Rightarrow> string set \<Rightarrow> bool" where
  "search_inv g src stack expanded acc \<longleftrightarrow>
     set stack \<subseteq> emit_reach g src \<and> expanded \<subseteq> emit_reach g src \<and> acc \<subseteq> needs_spec g src
     \<and> expanded \<subseteq> acc \<and> consumes_of g src \<subseteq> acc \<and> emits_of g src \<subseteq> set stack \<union> expanded
     \<and> (\<forall>e \<in> expanded. settled g src (set stack \<union> expanded) acc e)"

lemma search_inv_initial:
  assumes "graph_wf g"
  shows "search_inv g src (rev (sorted_list_of_set (emits_of g src))) {} (consumes_of g src)"
  using finite_entry [OF assms] by (auto simp: search_inv_def emit_reach_step needs_spec_def)

lemma search_inv_skip:
  assumes "search_inv g src (dst # stack) ex acc" "dst \<in> ex"
  shows "search_inv g src stack ex (insert dst acc)"
proof -
  have "insert dst acc = acc" "set (dst # stack) \<union> ex = set stack \<union> ex"
    using assms by (auto simp: search_inv_def)
  with assms show ?thesis unfolding search_inv_def by simp
qed

lemma search_inv_resolved:
  assumes "search_inv g src (dst # stack) ex acc" "dst < src"
  shows "search_inv g src stack (insert dst ex) (insert dst acc \<union> needs_spec g dst)"
proof -
  let ?F = "set stack \<union> insert dst ex" and ?acc = "insert dst acc \<union> needs_spec g dst"
  from assms(1) have r: "dst \<in> emit_reach g src" by (simp add: search_inv_def)
  then have "insert dst (needs_spec g dst) \<subseteq> needs_spec g src"
    using needs_spec_reach emit_reach_needs by blast
  moreover have "settled g src ?F ?acc dst"
    using assms(2) by (auto simp: settled_def)
  moreover have "settled g src ?F ?acc e" if "e \<in> ex" for e
    by (rule settled_mono [of g src "set (dst # stack) \<union> ex" acc])
      (use assms(1) that in \<open>auto simp: search_inv_def\<close>)
  ultimately show ?thesis
    using assms(1) r by (auto simp: search_inv_def)
qed

lemma search_inv_expand:
  assumes "graph_wf g" "search_inv g src (dst # stack) ex acc" "\<not> dst < src"
  shows "search_inv g src (rev (sorted_list_of_set (emits_of g dst)) @ stack) (insert dst ex)
    (insert dst acc \<union> consumes_of g dst)"
proof -
  let ?F = "emits_of g dst \<union> set stack \<union> insert dst ex" and ?acc = "insert dst acc \<union> consumes_of g dst"
  from assms(2) have r: "dst \<in> emit_reach g src" by (simp add: search_inv_def)
  then have "consumes_of g dst \<subseteq> needs_spec g src" "dst \<in> needs_spec g src"
    by (auto simp: needs_spec_def)
  moreover have "set (rev (sorted_list_of_set (emits_of g dst))) = emits_of g dst"
    using finite_entry [OF assms(1)] by simp
  moreover have "emits_of g dst \<subseteq> emit_reach g src"
    using r emit_reach_into by blast
  moreover have "settled g src ?F ?acc dst"
    using assms(3) by (auto simp: settled_def)
  moreover have "settled g src ?F ?acc e" if "e \<in> ex" for e
    by (rule settled_mono [of g src "set (dst # stack) \<union> ex" acc])
      (use assms(2) that in \<open>auto simp: search_inv_def\<close>)
  ultimately show ?thesis
    using assms(2) r by (auto simp: search_inv_def)
qed

lemma search_inv_final:
  assumes "search_inv g src [] ex acc"
  shows "acc = needs_spec g src"
proof -
  have cover: "d \<in> ex \<or> (\<exists>e \<in> ex. e < src \<and> d \<in> emit_reach g e)" if "d \<in> emit_reach g src" for d
  proof -
    from that have "(src, d) \<in> (emit_rel g)\<^sup>+" by (simp add: emit_reach_def)
    then show ?thesis
    proof (induction rule: trancl_induct)
      case (base d)
      with assms show ?case by (auto simp: search_inv_def)
    next
      case (step d d')
      then have "d' \<in> emits_of g d" by simp
      with step.IH assms show ?case
        unfolding search_inv_def settled_def
        by (metis UnE emit_reach_into emit_reach_step empty_iff list.set(1) subsetD)
    qed
  qed
  have "d \<in> acc \<and> consumes_of g d \<subseteq> acc" if "d \<in> emit_reach g src" for d
  proof -
    have e: "settled g src ex acc e" if "e \<in> ex" for e
      using assms that by (simp add: search_inv_def)
    have below: "needs_spec g d \<subseteq> acc \<and> d \<in> acc" if "e \<in> ex" "e < src" "d \<in> emit_reach g e" for e
      using e [OF that(1)] that needs_spec_reach emit_reach_needs
      by (simp add: settled_def) blast
    show ?thesis
    proof (cases "d \<in> ex")
      case True
      then have "d \<in> acc" using assms by (auto simp: search_inv_def)
      moreover have "consumes_of g d \<subseteq> acc"
        using e [OF True] consumes_needs [of g d] by (auto simp: settled_def split: if_splits)
      ultimately show ?thesis ..
    next
      case False
      with cover [OF that] below consumes_needs show ?thesis by blast
    qed
  qed
  with assms show ?thesis
    unfolding search_inv_def needs_spec_def by blast
qed

lemma needs_search_correct:
  assumes "graph_wf g"
    and "\<And>a. a \<in> rg_actors g \<Longrightarrow> a < src \<Longrightarrow> map_of reachable a = Some (needs_spec g a)"
    and "search_inv g src stack expanded acc"
  shows "needs_search g reachable src stack expanded acc = (Ok (needs_spec g src) :: ('e, _) outcome)"
  using assms
proof (induction g reachable src stack expanded acc rule: needs_search.induct)
  case (1 g reachable src expanded acc)
  then show ?case by (simp add: search_inv_final)
next
  case (2 g reachable src dst stack expanded acc)
  consider "dst \<in> expanded" | "dst \<notin> expanded" "dst < src" | "dst \<notin> expanded" "\<not> dst < src"
    by blast
  then show ?case
  proof cases
    case 1
    with 2 show ?thesis by (simp add: search_inv_skip)
  next
    case 2
    from "2.prems" have "dst \<in> rg_actors g"
      using emit_reach_actors by (auto simp: search_inv_def)
    with 2 "2.prems"(2) have "map_of reachable dst = Some (needs_spec g dst)" by simp
    with 2 have "needs_search g reachable src (dst # stack) expanded acc =
        needs_search g reachable src stack (insert dst expanded) (insert dst acc \<union> needs_spec g dst)"
      by simp
    also have "\<dots> = (Ok (needs_spec g src) :: ('e, _) outcome)"
      by (rule "2.IH"(2) [OF 2 \<open>map_of reachable dst = _\<close> "2.prems"(1)])
        (use "2.prems" 2 in \<open>auto intro: search_inv_resolved simp del: Un_insert_left\<close>)
    finally show ?thesis .
  next
    case 3
    then have "needs_search g reachable src (dst # stack) expanded acc =
        needs_search g reachable src (rev (sorted_list_of_set (emits_of g dst)) @ stack)
          (insert dst expanded) (insert dst acc \<union> consumes_of g dst)"
      by simp
    also have "\<dots> = (Ok (needs_spec g src) :: ('e, _) outcome)"
      by (rule "2.IH"(3) [OF 3 "2.prems"(1)])
        (use "2.prems" 3 in \<open>auto intro: search_inv_expand simp del: Un_insert_left\<close>)
    finally show ?thesis .
  qed
qed

lemma needs_loop_correct:
  assumes "graph_wf g" "sorted_wrt (<) (done @ todo)" "set (done @ todo) = rg_actors g"
    and "\<And>a. map_of reachable a = (if a \<in> set done then Some (needs_spec g a) else None)"
  shows "\<exists>m. try_fold (needs_step g) reachable todo = (Ok m :: ('e, _) outcome)
    \<and> (\<forall>a. map_of m a = (if a \<in> rg_actors g then Some (needs_spec g a) else None))"
  using assms(2-)
proof (induction todo arbitrary: "done" reachable)
  case Nil
  then show ?case by simp
next
  case (Cons src todo)
  have lower: "map_of reachable a = Some (needs_spec g a)" if "a \<in> rg_actors g" "a < src" for a
  proof -
    have "a \<in> set done"
      using Cons.prems(1,2) that by (auto simp: sorted_wrt_append dest: order.asym)
    then show ?thesis using Cons.prems(3) by simp
  qed
  have "needs_step g reachable src
      = (Ok (bm_insert src (needs_spec g src) reachable) :: ('e, _) outcome)"
    using needs_search_correct [OF assms(1) lower search_inv_initial [OF assms(1), of src], where 'e = 'e]
    by (simp add: needs_step_def)
  moreover have "\<exists>m. try_fold (needs_step g) (bm_insert src (needs_spec g src) reachable) todo
      = (Ok m :: ('e, _) outcome)
    \<and> (\<forall>a. map_of m a = (if a \<in> rg_actors g then Some (needs_spec g a) else None))"
    using Cons.prems by (intro Cons.IH [of "done @ [src]"]) auto
  ultimately show ?case by simp
qed

lemma needs_exact:
  assumes "graph_wf g"
  obtains m where "needs g = (Ok m :: ('e, _) outcome)"
    "\<And>a. map_of m a = (if a \<in> rg_actors g then Some (needs_spec g a) else None)"
proof -
  have "\<exists>m. try_fold (needs_step g) [] (sorted_list_of_set (rg_actors g)) = (Ok m :: ('e, _) outcome)
    \<and> (\<forall>a. map_of m a = (if a \<in> rg_actors g then Some (needs_spec g a) else None))"
    using assms by (intro needs_loop_correct [of g "[]"]) auto
  then show ?thesis using that by (auto simp: needs_def)
qed


section \<open>\<open>components\<close> returns the weak components\<close>

definition weak_rel :: "route_graph \<Rightarrow> string set \<Rightarrow> (string \<times> string) set" where
  "weak_rel g domain =
     {(a, b). a \<in> domain \<and> b \<in> domain \<and> a \<noteq> b \<and> (b \<in> emits_of g a \<or> a \<in> emits_of g b)}"

definition weak_class :: "route_graph \<Rightarrow> string set \<Rightarrow> string \<Rightarrow> string set" where
  "weak_class g domain a = (weak_rel g domain)\<^sup>* `` {a}"

lemma weak_rel_sym: "sym (weak_rel g domain)"
  by (auto simp: weak_rel_def sym_def)

lemma weak_class_refl [simp]: "a \<in> weak_class g domain a"
  by (simp add: weak_class_def)

lemma weak_class_domain: "a \<in> domain \<Longrightarrow> weak_class g domain a \<subseteq> domain"
  unfolding weak_class_def by (auto elim: rtranclE simp: weak_rel_def)

lemma weak_class_eq: "b \<in> weak_class g domain a \<Longrightarrow> weak_class g domain b = weak_class g domain a"
  unfolding weak_class_def using sym_rtrancl [OF weak_rel_sym, of g domain]
  by (auto simp: sym_def intro: rtrancl_trans)

lemma weak_class_edge:
  "(a, b) \<in> weak_rel g domain \<Longrightarrow> a \<in> weak_class g domain c \<longleftrightarrow> b \<in> weak_class g domain c"
  unfolding weak_class_def using weak_rel_sym [of g domain]
  by (auto simp: sym_def intro: rtrancl_into_rtrancl)

text \<open>The first pass: the links and gates of the edges visited so far.\<close>

definition linked :: "(string \<times> string) set \<Rightarrow> string set \<Rightarrow> string \<Rightarrow> string set" where
  "linked P domain a = {b \<in> domain. b \<noteq> a \<and> ((a, b) \<in> P \<or> (b, a) \<in> P)}"

definition adjacency_inv ::
  "string set \<Rightarrow> (string \<times> string) set \<Rightarrow> (string, string set) btree \<times> string list \<Rightarrow> bool" where
  "adjacency_inv domain P st \<longleftrightarrow>
     (\<forall>a. map_of (fst st) a = (if a \<in> domain then Some (linked P domain a) else None))
     \<and> set (snd st) = {t \<in> domain. \<exists>s. s \<notin> domain \<and> (s, t) \<in> P}"

lemma note_target_inv:
  assumes inv: "adjacency_inv domain P st" and t: "target \<in> domain"
  shows "\<exists>st'. note_target domain source st target = (Ok st' :: ('e, _) outcome)
    \<and> adjacency_inv domain (insert (source, target) P) st'"
proof -
  obtain nb gs where st: "st = (nb, gs)" by fastforce
  let ?P = "insert (source, target) P"
  consider "source = target" | "source \<noteq> target" "source \<notin> domain"
    | "source \<noteq> target" "source \<in> domain" by blast
  then show ?thesis
  proof cases
    case 1
    then have "linked ?P domain a = linked P domain a" for a by (auto simp: linked_def)
    with 1 inv t st show ?thesis by (auto simp: adjacency_inv_def)
  next
    case 2
    then have "linked ?P domain a = linked P domain a" if "a \<in> domain" for a
      using that by (auto simp: linked_def)
    with 2 inv t st show ?thesis by (auto simp: adjacency_inv_def)
  next
    case 3
    let ?nb = "bm_insert target (insert source (linked P domain target))
      (bm_insert source (insert target (linked P domain source)) nb)"
    have "note_target domain source st target = (Ok (?nb, gs) :: ('e, _) outcome)"
      using 3 inv t st by (simp add: adjacency_inv_def expect_def)
    moreover have "adjacency_inv domain ?P (?nb, gs)"
      using 3 inv t st unfolding adjacency_inv_def by (auto simp: linked_def)
    ultimately show ?thesis by blast
  qed
qed

lemma note_source_inv:
  assumes "adjacency_inv domain P st" "finite domain"
  shows "\<exists>st'. note_source domain st (s, T) = (Ok st' :: ('e, _) outcome)
    \<and> adjacency_inv domain (P \<union> {s} \<times> (T \<inter> domain)) st'"
proof -
  let ?ts = "sorted_list_of_set (T \<inter> domain)"
  have ts: "set ?ts = T \<inter> domain" using assms(2) by simp
  have "\<exists>st'. try_fold (note_target domain s) st ?ts = (Ok st' :: ('e, _) outcome)
    \<and> adjacency_inv domain (P \<union> {s} \<times> set ?ts) st'"
  proof (rule try_fold_total [where I = "\<lambda>ys st. adjacency_inv domain (P \<union> {s} \<times> set ys) st"])
    fix ys x zs and t :: "(string, string set) btree \<times> string list"
    assume split: "?ts = ys @ x # zs" and inv: "adjacency_inv domain (P \<union> {s} \<times> set ys) t"
    from split ts have "x \<in> domain" by (metis Int_iff in_set_conv_decomp)
    moreover have "insert (s, x) (P \<union> {s} \<times> set ys) = P \<union> {s} \<times> set (ys @ [x])" by auto
    ultimately show "\<exists>s'. note_target domain s t x = (Ok s' :: ('e, _) outcome)
      \<and> adjacency_inv domain (P \<union> {s} \<times> set (ys @ [x])) s'"
      using note_target_inv [OF inv, of x s, where 'e = 'e] by simp
  qed (use assms(1) in simp)
  then show ?thesis unfolding ts by (simp add: note_source_def)
qed

definition edge_pairs :: "(string, string set) btree \<Rightarrow> string set \<Rightarrow> (string \<times> string) set" where
  "edge_pairs m domain = (\<Union>(s, T) \<in> set m. {s} \<times> (T \<inter> domain))"

lemma edge_pairs_iff:
  "sorted_wrt (<) (bm_keys m) \<Longrightarrow> (s, t) \<in> edge_pairs m domain \<longleftrightarrow> t \<in> entry_or_default m s \<and> t \<in> domain"
  using map_of_is_SomeI [OF sorted_keys_distinct, of m s]
  by (auto simp: edge_pairs_def entry_or_default_def split: option.splits dest: map_of_SomeD)

lemma linked_weak_rel:
  assumes "graph_wf g" "a \<in> domain"
  shows "linked (edge_pairs (rg_emits g) domain) domain a = weak_rel g domain `` {a}"
  using assms edge_pairs_iff [of "rg_emits g"]
  by (auto simp: linked_def weak_rel_def graph_wf_def edges_wf_def)

lemma adjacency_exact:
  assumes wf: "graph_wf g" and domain: "domain \<subseteq> rg_actors g"
  obtains nb gs where "adjacency g domain = (Ok (nb, gs) :: ('e, _) outcome)"
    "\<And>a. map_of nb a = (if a \<in> domain then Some (weak_rel g domain `` {a}) else None)"
    "set gs = {t \<in> domain. \<exists>s. s \<notin> domain \<and> t \<in> emits_of g s}"
proof -
  have fin: "finite domain" using assms by (meson graph_wf_finite finite_subset)
  let ?st = "(map (\<lambda>a. (a, {})) (sorted_list_of_set domain), []) :: (string, string set) btree \<times> string list"
  have "map_of (map (\<lambda>a. (a, {} :: string set)) xs) a = (if a \<in> set xs then Some {} else None)"
    for xs and a :: string by (induction xs) auto
  then have start: "adjacency_inv domain {} ?st"
    using fin by (simp add: adjacency_inv_def linked_def)
  have "\<exists>st. adjacency g domain = (Ok st :: ('e, _) outcome)
    \<and> adjacency_inv domain (edge_pairs (rg_emits g) domain) st"
    unfolding adjacency_def
  proof (rule try_fold_total [where I = "\<lambda>ys st. adjacency_inv domain (edge_pairs ys domain) st"])
    fix ys zs st and x :: "string \<times> string set"
    assume "adjacency_inv domain (edge_pairs ys domain) st"
    from note_source_inv [OF this fin, of "fst x" "snd x", where 'e = 'e]
    show "\<exists>st'. note_source domain st x = (Ok st' :: ('e, _) outcome)
      \<and> adjacency_inv domain (edge_pairs (ys @ [x]) domain) st'"
      by (cases x) (simp add: edge_pairs_def Un_commute)
  qed (use start in \<open>simp add: edge_pairs_def\<close>)
  then obtain nb gs where "adjacency g domain = (Ok (nb, gs) :: ('e, _) outcome)"
    "adjacency_inv domain (edge_pairs (rg_emits g) domain) (nb, gs)" by fastforce
  moreover have "sorted_wrt (<) (bm_keys (rg_emits g))"
    using wf by (simp add: graph_wf_def edges_wf_def)
  ultimately show ?thesis
    using linked_weak_rel [OF wf] by (intro that) (auto simp: adjacency_inv_def edge_pairs_iff)
qed

text \<open>The second pass: one component.\<close>

lemma fold_claim_neighbor:
  assumes "fold (claim_neighbor i) ns (c, p) = (c', p')"
  shows "map_of c' = (\<lambda>x. if x \<in> set ns \<and> map_of c x = None then Some i else map_of c x)
    \<and> set p' = set p \<union> {x \<in> set ns. map_of c x = None}"
  using assms
proof (induction ns arbitrary: c p)
  case (Cons n ns)
  show ?case
  proof (cases "map_of c n")
    case None
    with Cons.IH [of "bm_insert n i c" "n # p"] Cons.prems show ?thesis
      by (auto simp: fun_eq_iff)
  next
    case (Some j)
    with Cons.IH [of c p] Cons.prems show ?thesis by (auto simp: fun_eq_iff)
  qed
qed simp

text \<open>
  The invariant of one search from \<open>start\<close>, where \<open>c0\<close> assigned the earlier components:
  the actors reached so far are exactly those assigned since, all of them lie in the class,
  and the neighbors of a member have been reached.
\<close>

definition comp_inv ::
  "route_graph \<Rightarrow> string set \<Rightarrow> string \<Rightarrow> nat \<Rightarrow> (string, nat) btree \<Rightarrow> (string, nat) btree
     \<Rightarrow> string list \<Rightarrow> string set \<Rightarrow> bool" where
  "comp_inv g domain start i c0 c pending members \<longleftrightarrow>
     map_of c = (\<lambda>x. if x \<in> members \<union> set pending then Some i else map_of c0 x)
     \<and> start \<in> members \<union> set pending \<and> members \<union> set pending \<subseteq> weak_class g domain start
     \<and> weak_rel g domain `` members \<subseteq> members \<union> set pending"

lemma comp_search_class:
  assumes "\<And>a. map_of nb a = (if a \<in> domain then Some (weak_rel g domain `` {a}) else None)"
    and "finite domain" "start \<in> domain"
    and "\<And>x. x \<in> weak_class g domain start \<Longrightarrow> map_of c0 x = None"
    and "comp_inv g domain start i c0 c pending members"
  shows "\<exists>c'. comp_search nb i c pending members = (Ok (c', weak_class g domain start) :: ('e, _) outcome)
    \<and> map_of c' = (\<lambda>x. if x \<in> weak_class g domain start then Some i else map_of c0 x)"
  using assms
proof (induction nb i c pending members rule: comp_search.induct)
  case (1 nb i c members)
  then have "members = weak_class g domain start"
    unfolding comp_inv_def weak_class_def by (intro closed_rtrancl_Image) auto
  with 1 show ?case by (simp add: comp_inv_def)
next
  case (2 nb i c a pending members)
  let ?W = "weak_rel g domain `` {a}"
  have a: "a \<in> weak_class g domain start" using "2.prems"(5) by (simp add: comp_inv_def)
  then have "a \<in> domain" using weak_class_domain [OF "2.prems"(3)] by blast
  then have nb: "map_of nb a = Some ?W" using "2.prems"(1) by simp
  have finW: "finite ?W"
    using "2.prems"(2) by (rule finite_subset [rotated]) (auto simp: weak_rel_def)
  have W: "?W \<subseteq> weak_class g domain start"
    using a weak_class_edge by blast
  obtain c' p' where f: "fold (claim_neighbor i) (sorted_list_of_set ?W) (c, pending) = (c', p')"
    by fastforce
  have "comp_inv g domain start i c0 c' p' (insert a members)"
    using fold_claim_neighbor [OF f] finW W "2.prems"(4,5) unfolding comp_inv_def
    by (auto simp: fun_eq_iff)
  from "2.IH" [OF nb f [symmetric] "2.prems"(1-4) this]
  show ?case using nb f by simp
qed

text \<open>
  The invariant of the loop over the domain: the components found so far are classes with
  ascending least members among the actors visited, each actor of a component carries its
  index, and every actor visited has one.
\<close>

definition components_inv ::
  "route_graph \<Rightarrow> string set \<Rightarrow> string list \<Rightarrow> component list \<times> (string, nat) btree \<Rightarrow> bool" where
  "components_inv g domain visited st \<longleftrightarrow>
     (\<forall>c \<in> set (fst st). comp_gates c = {}
        \<and> (\<exists>a \<in> set visited. comp_members c = weak_class g domain a \<and> Min (comp_members c) = a))
     \<and> sorted_wrt (\<lambda>c d. Min (comp_members c) < Min (comp_members d)) (fst st)
     \<and> (\<forall>x i. map_of (snd st) x = Some i \<longleftrightarrow> i < length (fst st) \<and> x \<in> comp_members (fst st ! i))
     \<and> (\<forall>x \<in> set visited. map_of (snd st) x \<noteq> None)"

lemma components_inv_closed:
  assumes "components_inv g domain visited st" "map_of (snd st) y \<noteq> None" "x \<in> weak_class g domain y"
  shows "map_of (snd st) x \<noteq> None"
proof -
  from assms(1,2) obtain i where i: "i < length (fst st)" "y \<in> comp_members (fst st ! i)"
    unfolding components_inv_def by blast
  moreover from assms(1) i(1) obtain a where "comp_members (fst st ! i) = weak_class g domain a"
    unfolding components_inv_def using nth_mem by blast
  ultimately have "x \<in> comp_members (fst st ! i)"
    using assms(3) weak_class_eq by blast
  with assms(1) i(1) show ?thesis unfolding components_inv_def by blast
qed

lemma component_step_inv:
  assumes nb: "\<And>a. map_of nb a = (if a \<in> domain then Some (weak_rel g domain `` {a}) else None)"
    and fin: "finite domain" and split: "sorted_list_of_set domain = visited @ a # rest"
    and inv: "components_inv g domain visited st"
  shows "\<exists>st'. component_step nb st a = (Ok st' :: ('e, _) outcome)
    \<and> components_inv g domain (visited @ [a]) st'"
proof (cases "map_of (snd st) a")
  case (Some i)
  with inv show ?thesis
    by (cases st) (fastforce simp: component_step_def components_inv_def)
next
  case None
  obtain comps c where st: "st = (comps, c)" by fastforce
  have dom: "set (visited @ a # rest) = domain" using fin split by (metis set_sorted_list_of_set)
  then have a: "a \<in> domain" by auto
  have fresh: "map_of c x = None" if "x \<in> weak_class g domain a" for x
  proof (rule ccontr)
    assume "map_of c x \<noteq> None"
    then have "map_of (snd st) a \<noteq> None"
      using components_inv_closed [OF inv, of x a] weak_class_eq [OF that] st by auto
    with None show False by simp
  qed
  have "comp_inv g domain a (length comps) c (bm_insert a (length comps) c) [a] {}"
    by (auto simp: comp_inv_def)
  from comp_search_class [OF nb fin a fresh this, where 'e = 'e]
  obtain c' where c': "comp_search nb (length comps) (bm_insert a (length comps) c) [a] {}
      = (Ok (c', weak_class g domain a) :: ('e, _) outcome)"
    "map_of c' = (\<lambda>x. if x \<in> weak_class g domain a then Some (length comps) else map_of c x)"
    by blast
  have "Min (weak_class g domain a) = a"
  proof (rule Min_eqI)
    show "finite (weak_class g domain a)"
      using weak_class_domain [OF a] fin by (rule finite_subset)
    fix y assume y: "y \<in> weak_class g domain a"
    have "y \<notin> set visited" using fresh [OF y] inv st by (auto simp: components_inv_def)
    with y weak_class_domain [OF a] dom have "y \<in> set (a # rest)" by auto
    moreover have "sorted (visited @ a # rest)" using split by (metis sorted_sorted_list_of_set)
    ultimately show "a \<le> y" by (auto simp: sorted_append)
  qed simp
  moreover have "v < a" if "v \<in> set visited" for v
  proof -
    have "sorted_wrt (<) (visited @ a # rest)"
      using split by (metis strict_sorted_list_of_set)
    with that show ?thesis by (simp add: sorted_wrt_append)
  qed
  moreover have old: "\<exists>v \<in> set visited. comp_members d = weak_class g domain v \<and> Min (comp_members d) = v
      \<and> comp_gates d = {}" if "d \<in> set comps" for d
    using inv st that unfolding components_inv_def by auto
  moreover have "map_of c' x = Some i \<longleftrightarrow> i < Suc (length comps) \<and> x \<in> comp_members
      ((comps @ [\<lparr>comp_members = weak_class g domain a, comp_gates = {}\<rparr>]) ! i)" for x i
  proof -
    have idx: "map_of c x = Some i \<longleftrightarrow> i < length comps \<and> x \<in> comp_members (comps ! i)"
      using inv st by (simp add: components_inv_def)
    show ?thesis
      using idx fresh [of x] c'(2) by (auto simp: nth_append less_Suc_eq)
  qed
  moreover have "\<forall>x \<in> set (visited @ [a]). map_of c' x \<noteq> None"
    using inv st c'(2) by (auto simp: components_inv_def)
  moreover have "sorted_wrt (\<lambda>c d. Min (comp_members c) < Min (comp_members d)) comps"
    using inv st by (simp add: components_inv_def)
  ultimately have "components_inv g domain (visited @ [a])
      (comps @ [\<lparr>comp_members = weak_class g domain a, comp_gates = {}\<rparr>], c')"
    unfolding components_inv_def by (auto simp: sorted_wrt_append)
  with None st c'(1) show ?thesis by (simp add: component_step_def)
qed

lemma component_loop:
  assumes "\<And>a. map_of nb a = (if a \<in> domain then Some (weak_rel g domain `` {a}) else None)"
    and "finite domain"
  obtains comps c where
    "try_fold (component_step nb) ([], []) (sorted_list_of_set domain) = (Ok (comps, c) :: ('e, _) outcome)"
    "components_inv g domain (sorted_list_of_set domain) (comps, c)"
proof -
  have "\<exists>st. try_fold (component_step nb) ([], []) (sorted_list_of_set domain) = (Ok st :: ('e, _) outcome)
    \<and> components_inv g domain (sorted_list_of_set domain) st"
  proof (rule try_fold_total [where I = "components_inv g domain"])
    fix ys x zs st
    assume "sorted_list_of_set domain = ys @ x # zs" "components_inv g domain ys st"
    then show "\<exists>st'. component_step nb st x = (Ok st' :: ('e, _) outcome)
        \<and> components_inv g domain (ys @ [x]) st'"
      by (rule component_step_inv [OF assms])
  qed (simp add: components_inv_def)
  then show ?thesis using that by auto
qed

text \<open>The third pass: a gate is added to the component of its actor.\<close>

definition gates_inv ::
  "component list \<Rightarrow> string list \<Rightarrow> component list \<Rightarrow> bool" where
  "gates_inv comps visited comps' \<longleftrightarrow>
     length comps' = length comps
     \<and> (\<forall>i < length comps. comp_members (comps' ! i) = comp_members (comps ! i)
          \<and> comp_gates (comps' ! i) = set visited \<inter> comp_members (comps ! i))"

lemma gate_loop:
  assumes inv: "components_inv g domain visited (comps, c)"
    and gs: "\<And>t. t \<in> set gs \<Longrightarrow> map_of c t \<noteq> None"
  obtains comps' where "try_fold (record_gate c) comps gs = (Ok comps' :: ('e, _) outcome)"
    "gates_inv comps gs comps'"
proof -
  have idx: "map_of c t = Some i \<longleftrightarrow> i < length comps \<and> t \<in> comp_members (comps ! i)" for t i
    using inv by (auto simp: components_inv_def)
  have "\<exists>comps'. try_fold (record_gate c) comps gs = (Ok comps' :: ('e, _) outcome) \<and> gates_inv comps gs comps'"
  proof (rule try_fold_total [where I = "gates_inv comps"])
    show "gates_inv comps [] comps"
      using inv by (auto simp: gates_inv_def components_inv_def)
  next
    fix ys t zs cs
    assume "gs = ys @ t # zs" and cs: "gates_inv comps ys cs"
    with gs obtain i where t: "map_of c t = Some i" by fastforce
    have i: "i < length cs" using t cs unfolding idx gates_inv_def by simp
    have unique: "t \<in> comp_members (comps ! j) \<longleftrightarrow> j = i" if "j < length comps" for j
      using t that idx [of t i] idx [of t j] by auto
    let ?cs = "cs[i := (cs ! i)\<lparr>comp_gates := insert t (comp_gates (cs ! i))\<rparr>]"
    have "gates_inv comps (ys @ [t]) ?cs"
      using cs i unique by (auto simp: gates_inv_def nth_list_update)
    with t i show "\<exists>s'. record_gate c cs t = (Ok s' :: ('e, _) outcome) \<and> gates_inv comps (ys @ [t]) s'"
      by (simp add: record_gate_def expect_def)
  qed
  then show ?thesis using that by blast
qed

text \<open>
  What \<open>components\<close> promises: it never fails inside the graph, the components are the classes
  of weak connectivity in the order of their least actors, every domain actor is in exactly
  one of them, and the gates of a component are its members with an incoming emit from
  outside it.
\<close>

definition components_spec :: "route_graph \<Rightarrow> string set \<Rightarrow> component list \<Rightarrow> bool" where
  "components_spec g domain cs \<longleftrightarrow>
     (\<forall>c \<in> set cs. \<exists>a \<in> domain. comp_members c = weak_class g domain a)
     \<and> (\<forall>a \<in> domain. \<exists>!i. i < length cs \<and> a \<in> comp_members (cs ! i))
     \<and> sorted_wrt (\<lambda>c d. Min (comp_members c) < Min (comp_members d)) cs
     \<and> (\<forall>c \<in> set cs. comp_gates c = {t \<in> comp_members c. \<exists>s. s \<notin> comp_members c \<and> t \<in> emits_of g s})"

lemma components_exact:
  assumes wf: "graph_wf g" and domain: "domain \<subseteq> rg_actors g"
  obtains cs where "components g domain = (Ok cs :: ('e, _) outcome)" "components_spec g domain cs"
proof -
  have fin: "finite domain" using assms by (meson graph_wf_finite finite_subset)
  obtain nb gs where adj: "adjacency g domain = (Ok (nb, gs) :: ('e, _) outcome)"
    and nb: "\<And>a. map_of nb a = (if a \<in> domain then Some (weak_rel g domain `` {a}) else None)"
    and gs: "set gs = {t \<in> domain. \<exists>s. s \<notin> domain \<and> t \<in> emits_of g s}"
    using adjacency_exact [OF assms] by blast
  obtain comps c where loop: "try_fold (component_step nb) ([], []) (sorted_list_of_set domain)
      = (Ok (comps, c) :: ('e, _) outcome)"
    and inv: "components_inv g domain (sorted_list_of_set domain) (comps, c)"
    using component_loop [OF nb fin] by blast
  have idx: "map_of c t = Some i \<longleftrightarrow> i < length comps \<and> t \<in> comp_members (comps ! i)" for t i
    using inv by (auto simp: components_inv_def)
  have total: "map_of c t \<noteq> None" if "t \<in> domain" for t
    using inv that fin by (auto simp: components_inv_def)
  obtain cs where final: "try_fold (record_gate c) comps gs = (Ok cs :: ('e, _) outcome)"
    and gates: "gates_inv comps gs cs"
    using gate_loop [OF inv] total gs by blast
  have "components g domain = (Ok cs :: ('e, _) outcome)"
    using domain adj loop final by (simp add: components_def)
  moreover have "components_spec g domain cs"
    unfolding components_spec_def
  proof (intro conjI ballI)
    have len: "length cs = length comps"
      and mem: "\<And>i. i < length comps \<Longrightarrow> comp_members (cs ! i) = comp_members (comps ! i)"
      using gates by (auto simp: gates_inv_def)
    have maps: "map comp_members cs = map comp_members comps"
      using len mem by (simp add: list_eq_iff_nth_eq)
    have cls: "\<exists>a \<in> domain. comp_members (comps ! i) = weak_class g domain a" if "i < length comps" for i
      using inv that fin nth_mem unfolding components_inv_def by fastforce
    {
      fix a assume "a \<in> domain"
      then obtain i where "map_of c a = Some i" using total by auto
      then show "\<exists>!i. i < length cs \<and> a \<in> comp_members (cs ! i)"
        using idx mem len by (metis option.inject)
    next
      fix k assume "k \<in> set cs"
      then obtain i where i: "i < length cs" "k = cs ! i" by (auto simp: in_set_conv_nth)
      with cls mem len show "\<exists>a \<in> domain. comp_members k = weak_class g domain a" by auto
      then obtain a where a: "a \<in> domain" "comp_members k = weak_class g domain a" by blast
      have "comp_gates k = set gs \<inter> comp_members k"
        using gates i len by (simp add: gates_inv_def)
      also have "\<dots> = {t \<in> comp_members k. \<exists>s. s \<notin> comp_members k \<and> t \<in> emits_of g s}"
        (is "?L = ?R")
      proof
        show "?L \<subseteq> ?R" using a weak_class_domain [OF a(1)] gs by auto
        show "?R \<subseteq> ?L"
        proof
          fix t assume "t \<in> ?R"
          then obtain s where t: "t \<in> comp_members k" "s \<notin> comp_members k" "t \<in> emits_of g s" by blast
          then have "t \<in> domain" using a weak_class_domain [OF a(1)] by auto
          moreover have "s \<notin> domain"
            using t a \<open>t \<in> domain\<close> weak_class_edge [of s t g domain a] by (auto simp: weak_rel_def)
          ultimately show "t \<in> ?L" using t gs by auto
        qed
      qed
      finally show "comp_gates k = {t \<in> comp_members k. \<exists>s. s \<notin> comp_members k \<and> t \<in> emits_of g s}" .
    next
      have "sorted_wrt (\<lambda>A B. Min A < Min B) (map comp_members comps)"
        using inv by (simp add: components_inv_def sorted_wrt_map)
      then show "sorted_wrt (\<lambda>c d. Min (comp_members c) < Min (comp_members d)) cs"
        unfolding maps [symmetric] by (simp add: sorted_wrt_map)
    }
  qed
  ultimately show ?thesis by (rule that)
qed

section \<open>What a planner may rely on\<close>

text \<open>
  The contract between the graph and commitment planning: an actor needs what it consumes,
  every emit target and everything that target needs.
\<close>

locale needs_contract =
  fixes emits consumes need :: "'g \<Rightarrow> string \<Rightarrow> string set"
  assumes need_target: "t \<in> emits g s \<Longrightarrow> insert t (need g t) \<subseteq> need g s"
    and need_consumed: "consumes g a \<subseteq> need g a"
begin

definition mutual :: "'g \<Rightarrow> string set \<Rightarrow> bool" where
  "mutual g C \<longleftrightarrow> (\<forall>a \<in> C. \<forall>b \<in> C. a \<noteq> b \<longrightarrow> b \<in> emits g a)"

lemma mutual_equal_needs: "mutual g C \<Longrightarrow> a \<in> C \<Longrightarrow> b \<in> C \<Longrightarrow> need g a = need g b"
  unfolding mutual_def using need_target by (metis insert_subset subset_antisym)

lemma mutual_consumes:
  "mutual g C \<Longrightarrow> a \<in> C \<Longrightarrow> b \<in> C \<Longrightarrow> consumes g b \<subseteq> need g a"
  using mutual_equal_needs [of g C a b] need_consumed by blast

text \<open>A source needs the whole cohort of each of its targets, and what the cohort consumes.\<close>

lemma target_cohort_needed:
  assumes "mutual g C" "t \<in> C" "t \<in> emits g s"
  shows "C \<union> (\<Union>c \<in> C. consumes g c) \<subseteq> need g s"
proof -
  have t: "insert t (need g t) \<subseteq> need g s" using assms(3) by (rule need_target)
  have "c \<in> need g s" if "c \<in> C" for c
  proof (cases "c = t")
    case False
    with assms that have "c \<in> emits g t" by (auto simp: mutual_def)
    with need_target t show ?thesis by blast
  qed (use t in simp)
  moreover have "(\<Union>c \<in> C. consumes g c) \<subseteq> need g t"
    using mutual_consumes [OF assms(1,2)] by blast
  ultimately show ?thesis using t by blast
qed

end

interpretation graph_needs: needs_contract emits_of consumes_of needs_spec
  by unfold_locales (auto dest: emit_target_needs consumes_needs [THEN subsetD])

section \<open>Properties\<close>

text \<open>
  C5: \<open>needs\<close> terminates without failing on every well-formed graph, cyclic ones included,
  and its map holds for every actor exactly its direct consumes, the actors its emits reach
  and what those consume. The memoised depth-first search thus agrees with a specification
  that mentions neither order nor sharing.
\<close>

theorem needs_correct:
  assumes "graph_wf g"
  shows "\<exists>m. needs g = (Ok m :: ('e, _) outcome)
    \<and> (\<forall>a. map_of m a = (if a \<in> rg_actors g then Some (needs_spec g a) else None))"
  using needs_exact [OF assms] by metis

text \<open>
  C6: \<open>components\<close> partitions its domain into the weak components of the emit edges inside
  it, in ascending order of their least members, and the gates of a component are its
  members with an incoming emit edge from outside the component.
\<close>

theorem components_correct:
  assumes "graph_wf g" "domain \<subseteq> rg_actors g"
  shows "\<exists>cs. components g domain = (Ok cs :: ('e, _) outcome)
    \<and> (\<forall>a \<in> domain. \<exists>!i. i < length cs \<and> a \<in> comp_members (cs ! i))
    \<and> (\<forall>c \<in> set cs. \<exists>a \<in> domain. comp_members c = (weak_rel g domain)\<^sup>* `` {a})
    \<and> (\<forall>c \<in> set cs. comp_gates c = {t \<in> comp_members c. \<exists>s. s \<notin> comp_members c \<and> t \<in> emits_of g s})
    \<and> sorted_wrt (\<lambda>c d. Min (comp_members c) < Min (comp_members d)) cs"
proof -
  obtain cs where cs: "components g domain = (Ok cs :: ('e, _) outcome)" "components_spec g domain cs"
    by (rule components_exact [OF assms])
  then show ?thesis
    by (intro exI [of _ cs] conjI) (simp_all add: components_spec_def weak_class_def)
qed

text \<open>
  \<open>add_emit_clique\<close> panics exactly when a member is not an actor; otherwise it adds the
  edges between distinct members, keeps everything else, and leaves a well-formed graph.
\<close>

theorem add_emit_clique_correct:
  assumes "graph_wf g"
  shows "if C \<subseteq> rg_actors g
    then \<exists>g'. add_emit_clique g C = (Ok g' :: ('e, _) outcome) \<and> graph_wf g'
      \<and> rg_actors g' = rg_actors g \<and> rg_consumes g' = rg_consumes g
      \<and> (\<forall>a b. b \<in> emits_of g' a \<longleftrightarrow> b \<in> emits_of g a \<or> (a \<in> C \<and> b \<in> C \<and> a \<noteq> b))
    else add_emit_clique g C = (Panic :: ('e, _) outcome)"
proof (cases "C \<subseteq> rg_actors g")
  case True
  obtain g' where "add_emit_clique g C = (Ok g' :: ('e, _) outcome)" "graph_wf g'"
    "rg_actors g' = rg_actors g" "rg_consumes g' = rg_consumes g"
    "\<And>a. emits_of g' a = emits_of g a \<union> (if a \<in> C then C - {a} else {})"
    by (rule add_emit_clique_spec [OF assms True]) blast
  with True show ?thesis by auto
qed (simp add: add_emit_clique_def)

text \<open>The three actors form a cycle that also consumes an actor outside it.\<close>

definition demo_cycle :: route_graph where
  "demo_cycle = add_consume (add_emit (add_emit (add_emit empty_graph ''A'' ''B'') ''B'' ''C'') ''C'' ''A'')
     ''C'' ''D''"

lemma demo_cycle_wf: "graph_wf demo_cycle"
  by (simp add: demo_cycle_def add_emit_wf add_consume_wf)

lemma demo_cycle_actors: "rg_actors demo_cycle = {''A'', ''B'', ''C'', ''D''}"
  by (auto simp: demo_cycle_def add_consume_def add_emit_def empty_graph_def)

lemma needs_correct_witness:
  "needs demo_cycle = (Ok [(''A'', {''A'', ''B'', ''C'', ''D''}), (''B'', {''A'', ''B'', ''C'', ''D''}),
      (''C'', {''A'', ''B'', ''C'', ''D''}), (''D'', {})] :: (unit, _) outcome)
    \<and> needs_spec demo_cycle ''A'' = {''A'', ''B'', ''C'', ''D''}"
proof -
  have run: "needs demo_cycle = (Ok [(''A'', {''A'', ''B'', ''C'', ''D''}), (''B'', {''A'', ''B'', ''C'', ''D''}),
      (''C'', {''A'', ''B'', ''C'', ''D''}), (''D'', {})] :: (unit, _) outcome)"
    by code_simp
  obtain m where m: "needs demo_cycle = (Ok m :: (unit, _) outcome)"
    "\<forall>a. map_of m a = (if a \<in> rg_actors demo_cycle then Some (needs_spec demo_cycle a) else None)"
    using needs_correct [OF demo_cycle_wf, where ?'e = unit] by blast
  have "map_of m ''A'' = Some (needs_spec demo_cycle ''A'')"
    using m(2) by (simp add: demo_cycle_actors)
  moreover have "map_of m ''A'' = Some {''A'', ''B'', ''C'', ''D''}" using m(1) run by auto
  ultimately show ?thesis using run by simp
qed

lemma components_correct_witness:
  "\<exists>cs. components demo_cycle {''A'', ''B'', ''D''} = (Ok cs :: (unit, _) outcome) \<and> length cs = 2
    \<and> (\<exists>!i. i < length cs \<and> ''A'' \<in> comp_members (cs ! i))"
proof -
  have run: "components demo_cycle {''A'', ''B'', ''D''} =
    (Ok [\<lparr>comp_members = {''A'', ''B''}, comp_gates = {''A''}\<rparr>, \<lparr>comp_members = {''D''}, comp_gates = {}\<rparr>]
      :: (unit, _) outcome)"
    by code_simp
  have "{''A'', ''B'', ''D''} \<subseteq> rg_actors demo_cycle"
    by (simp add: demo_cycle_actors)
  from components_correct [OF demo_cycle_wf this, where ?'e = unit]
  obtain cs where cs: "components demo_cycle {''A'', ''B'', ''D''} = (Ok cs :: (unit, _) outcome)"
    "\<forall>a \<in> {''A'', ''B'', ''D''}. \<exists>!i. i < length cs \<and> a \<in> comp_members (cs ! i)"
    by (elim exE conjE) (rule that)
  have "length cs = 2" using cs(1) run by auto
  then show ?thesis using cs by blast
qed

lemma add_emit_clique_correct_witness:
  "\<exists>g'. add_emit_clique demo_cycle {''A'', ''D''} = (Ok g' :: (unit, _) outcome) \<and> ''D'' \<in> emits_of g' ''A''"
  using add_emit_clique_correct [OF demo_cycle_wf, of "{''A'', ''D''}", where ?'e = unit]
  by (auto simp: demo_cycle_actors)

end
