(* ===== verification/Commitment_Forest.thy ===== *)
theory Commitment_Forest
  imports Argent_Prelude "HOL-Library.Sublist"
begin

text \<open>
  The commitment forest of \<^verbatim>\<open>src/routing/commitment.rs\<close>: nodes, paths and cuts, the
  validity check, opening and packing one branch, and the transition from one cut to
  another. A \<open>NodePath\<close> is never empty in the source (its field is private and its
  constructor asserts it), so the datatype keeps the root index apart from the rest. A
  function that returns \<open>Option\<close> and may also panic is an outcome whose error is \<open>()\<close>.
  The lemmas show that the adjacent-pair validity check is the pairwise condition, that
  open and pack are inverse to each other, and that a transition exists exactly when every
  target node can be derived from the source cut, by operations that can be carried out in
  the order they are listed.
\<close>

section \<open>Nodes and paths\<close>

datatype commitment_node = Leaf string | Branch "commitment_node list"

record commit_forest =
  roots :: "commitment_node list"

datatype node_path = NodePath nat "nat list"

fun path_indices :: "node_path \<Rightarrow> nat list" where
  "path_indices (NodePath root path) = root # path"

definition node_path_new :: "nat list \<Rightarrow> ('e, node_path) outcome" where
  "node_path_new indices = (case indices of [] \<Rightarrow> Panic | root # path \<Rightarrow> Ok (NodePath root path))"

definition root_path :: "nat \<Rightarrow> node_path" where
  "root_path root = NodePath root []"

fun child :: "node_path \<Rightarrow> nat \<Rightarrow> node_path" where
  "child (NodePath root path) i = NodePath root (path @ [i])"

fun split_root :: "node_path \<Rightarrow> nat \<times> nat list" where
  "split_root (NodePath root path) = (root, path)"

definition starts_with :: "node_path \<Rightarrow> node_path \<Rightarrow> bool" where
  "starts_with p q \<longleftrightarrow> prefix (path_indices q) (path_indices p)"

lemma path_indices_inject [simp]: "path_indices p = path_indices q \<longleftrightarrow> p = q"
  by (cases p; cases q) simp

lemma path_indices_nonempty [simp]: "path_indices p \<noteq> []"
  by (cases p) simp

lemma path_indices_child [simp]: "path_indices (child p i) = path_indices p @ [i]"
  by (cases p) simp

lemma child_inject [simp]: "child p i = child q j \<longleftrightarrow> p = q \<and> i = j"
  by (cases p; cases q) auto

lemma child_neq [simp]: "child p i \<noteq> p" "p \<noteq> child p i"
  by (cases p; simp)+

lemma starts_with_refl [simp]: "starts_with p p"
  by (simp add: starts_with_def)

lemma starts_with_child [simp]: "starts_with (child p i) p"
  by (simp add: starts_with_def)

lemma starts_with_trans: "starts_with p q \<Longrightarrow> starts_with q r \<Longrightarrow> starts_with p r"
  unfolding starts_with_def by (meson prefix_order.trans)

lemma starts_with_antisym: "starts_with p q \<Longrightarrow> starts_with q p \<Longrightarrow> p = q"
  unfolding starts_with_def by (metis path_indices_inject prefix_order.antisym)

lemma starts_with_child_iff: "starts_with (child p i) q \<longleftrightarrow> q = child p i \<or> starts_with p q"
  unfolding starts_with_def by (metis path_indices_child path_indices_inject prefix_snoc)

text \<open>Paths are ordered as the derived \<open>Ord\<close> does, lexicographically by their indices.\<close>

instantiation node_path :: linorder
begin

definition less_eq_node_path :: "node_path \<Rightarrow> node_path \<Rightarrow> bool" where
  "less_eq_node_path p q \<longleftrightarrow> path_indices p \<le> path_indices q"

definition less_node_path :: "node_path \<Rightarrow> node_path \<Rightarrow> bool" where
  "less_node_path p q \<longleftrightarrow> path_indices p < path_indices q"

instance
proof
  fix p q r :: node_path
  show "p < q \<longleftrightarrow> p \<le> q \<and> \<not> q \<le> p"
    by (auto simp: less_node_path_def less_eq_node_path_def less_le_not_le)
  show "p \<le> p" by (simp add: less_eq_node_path_def)
  show "p \<le> q \<Longrightarrow> q \<le> r \<Longrightarrow> p \<le> r" by (auto simp: less_eq_node_path_def)
  show "p \<le> q \<Longrightarrow> q \<le> p \<Longrightarrow> p = q"
    by (metis less_eq_node_path_def order.antisym path_indices_inject)
  show "p \<le> q \<or> q \<le> p" by (auto simp: less_eq_node_path_def)
qed

end

lemma prefix_between:
  fixes xs ys zs :: "nat list"
  shows "prefix xs zs \<Longrightarrow> xs \<le> ys \<Longrightarrow> ys \<le> zs \<Longrightarrow> prefix xs ys"
proof (induction xs arbitrary: ys zs)
  case (Cons x xs)
  then show ?case by (cases ys; cases zs) auto
qed simp

lemma starts_with_between: "starts_with r p \<Longrightarrow> p \<le> q \<Longrightarrow> q \<le> r \<Longrightarrow> starts_with q p"
  unfolding starts_with_def less_eq_node_path_def by (rule prefix_between)

lemma starts_with_less:
  assumes "starts_with q p" "p \<noteq> q"
  shows "p < q"
proof -
  have "xs \<le> xs @ zs" for xs zs :: "nat list"
    by (induction xs) auto
  then have "prefix xs ys \<Longrightarrow> xs \<le> ys" for xs ys :: "nat list"
    by (auto elim!: prefixE)
  then show ?thesis
    using assms unfolding starts_with_def less_node_path_def
    by (metis order.order_iff_strict path_indices_inject)
qed

section \<open>Cuts\<close>

type_synonym cut = "node_path set"

fun node_at :: "commitment_node \<Rightarrow> nat list \<Rightarrow> commitment_node option" where
  "node_at n [] = Some n"
| "node_at (Leaf a) (i # path) = None"
| "node_at (Branch children) (i # path) =
     (if i < length children then node_at (children ! i) path else None)"

definition node :: "commit_forest \<Rightarrow> node_path \<Rightarrow> commitment_node option" where
  "node f p =
     (case split_root p of (root, path) \<Rightarrow>
        if root < length (roots f) then node_at (roots f ! root) path else None)"

definition root_cut :: "commit_forest \<Rightarrow> cut" where
  "root_cut f = root_path ` {0..<length (roots f)}"

fun valid_cut_loop :: "commit_forest \<Rightarrow> node_path option \<Rightarrow> node_path list \<Rightarrow> bool" where
  "valid_cut_loop f previous [] = True"
| "valid_cut_loop f previous (path # paths) =
     (if node f path = None then False
      else if (case previous of None \<Rightarrow> False | Some q \<Rightarrow> starts_with path q) then False
      else valid_cut_loop f (Some path) paths)"

definition is_valid_cut :: "commit_forest \<Rightarrow> cut \<Rightarrow> bool" where
  "is_valid_cut f selected = valid_cut_loop f None (sorted_list_of_set selected)"

definition branch_children :: "commit_forest \<Rightarrow> node_path \<Rightarrow> commitment_node list option" where
  "branch_children f p = (case node f p of Some (Branch children) \<Rightarrow> Some children | _ \<Rightarrow> None)"

definition child_paths :: "node_path \<Rightarrow> nat \<Rightarrow> node_path list" where
  "child_paths p n = map (child p) [0..<n]"

definition open_branch :: "commit_forest \<Rightarrow> cut \<Rightarrow> node_path \<Rightarrow> cut option" where
  "open_branch f selected branch =
     (if \<not> is_valid_cut f selected \<or> branch \<notin> selected then None
      else case branch_children f branch of
             None \<Rightarrow> None
           | Some children \<Rightarrow>
               if children = [] then None
               else Some ((selected - {branch}) \<union> set (child_paths branch (length children))))"

definition pack_branch :: "commit_forest \<Rightarrow> cut \<Rightarrow> node_path \<Rightarrow> cut option" where
  "pack_branch f selected branch =
     (if \<not> is_valid_cut f selected then None
      else case branch_children f branch of
             None \<Rightarrow> None
           | Some children \<Rightarrow>
               if children = [] then None
               else if list_ex (\<lambda>c. c \<notin> selected) (child_paths branch (length children)) then None
               else Some (insert branch (selected - set (child_paths branch (length children)))))"

section \<open>Transitions between cuts\<close>

text \<open>A loop over \<open>all\<close>, which stops at the first \<open>false\<close> and keeps what was collected.\<close>

fun all_collect :: "('a \<Rightarrow> 's \<Rightarrow> bool \<times> 's) \<Rightarrow> 'a list \<Rightarrow> 's \<Rightarrow> bool \<times> 's" where
  "all_collect f [] s = (True, s)"
| "all_collect f (x # xs) s =
     (case f x s of (b, s') \<Rightarrow> if b then all_collect f xs s' else (False, s'))"

lemma all_collect_cong [fundef_cong]:
  assumes "xs = ys" "s = t" "\<And>x s. x \<in> set ys \<Longrightarrow> f x s = g x s"
  shows "all_collect f xs s = all_collect g ys t"
proof -
  have "all_collect f ys s = all_collect g ys s"
    using assms(3) by (induction ys arbitrary: s) (auto split: prod.splits)
  then show ?thesis using assms(1,2) by simp
qed

lemma node_at_append:
  "node_at n (xs @ ys) = Option.bind (node_at n xs) (\<lambda>m. node_at m ys)"
  by (induction n xs rule: node_at.induct) auto

lemma node_append:
  "path_indices p = path_indices q @ xs \<Longrightarrow> node f p = Option.bind (node f q) (\<lambda>m. node_at m xs)"
  by (cases p; cases q) (auto simp: node_def node_at_append)

lemma node_child:
  "node f (child p i) = (case branch_children f p of
     None \<Rightarrow> None | Some children \<Rightarrow> if i < length children then Some (children ! i) else None)"
  by (cases p)
    (auto simp: node_def branch_children_def node_at_append bind_eq_None_conv
      split: option.splits commitment_node.splits)

lemma branch_children_iff: "branch_children f p = Some cs \<longleftrightarrow> node f p = Some (Branch cs)"
  by (auto simp: branch_children_def split: option.splits commitment_node.splits)

function collect_pack_paths ::
  "commit_forest \<Rightarrow> cut \<Rightarrow> node_path \<Rightarrow> cut \<Rightarrow> bool \<times> cut" where
  "collect_pack_paths f source path branches_to_pack =
     (if path \<in> source then (True, branches_to_pack)
      else case branch_children f path of
             None \<Rightarrow> (False, branches_to_pack)
           | Some children \<Rightarrow>
               if children = [] then (False, branches_to_pack)
               else case all_collect (collect_pack_paths f source)
                           (child_paths path (length children)) branches_to_pack of
                      (ok, packed) \<Rightarrow> if \<not> ok then (False, packed) else (True, insert path packed))"
  by pat_completeness auto
termination
proof (relation "measure (\<lambda>(f, source, path, _). case node f path of None \<Rightarrow> 0 | Some n \<Rightarrow> size n)")
  fix f source path children c and s t :: cut
  assume cs: "branch_children f path = Some children" and c: "c \<in> set (child_paths path (length children))"
  then obtain i where i: "c = child path i" "i < length children"
    by (auto simp: child_paths_def)
  have "size (children ! i) < size (Branch children)"
    using i(2) size_list_estimation' [OF nth_mem, of i children "size (children ! i)" size]
    by (simp add: less_Suc_eq_le)
  with cs i show "((f, source, c, s), f, source, path, t)
      \<in> measure (\<lambda>(f, source, path, _). case node f path of None \<Rightarrow> 0 | Some n \<Rightarrow> size n)"
    by (simp add: node_child) (simp add: branch_children_iff)
qed simp

declare collect_pack_paths.simps [simp del]

definition open_depth ::
  "commit_forest \<Rightarrow> node_path \<Rightarrow> cut \<Rightarrow> nat \<Rightarrow> (unit, cut) outcome" where
  "open_depth f target_path branches_to_open depth =
     and_then (node_path_new (take depth (path_indices target_path))) (\<lambda>branch_path.
       case node f branch_path of
         Some (Branch _) \<Rightarrow> Ok (insert branch_path branches_to_open)
       | _ \<Rightarrow> Err ())"

fun transition_step ::
  "commit_forest \<Rightarrow> cut \<Rightarrow> commitment_node list \<times> cut \<times> cut \<Rightarrow> node_path
     \<Rightarrow> (unit, commitment_node list \<times> cut \<times> cut) outcome" where
  "transition_step f source (retained, branches_to_open, branches_to_pack) target_path =
     (if target_path \<in> source
      then and_then (ok_or (node f target_path) ())
             (\<lambda>n. Ok (retained @ [n], branches_to_open, branches_to_pack))
      else case find (starts_with target_path) (sorted_list_of_set source) of
             Some source_ancestor \<Rightarrow>
               and_then
                 (try_fold (open_depth f target_path) branches_to_open
                    [length (path_indices source_ancestor)..<length (path_indices target_path)])
                 (\<lambda>opened. Ok (retained, opened, branches_to_pack))
           | None \<Rightarrow>
               (case collect_pack_paths f source target_path branches_to_pack of
                  (ok, packed) \<Rightarrow>
                    if ok then Ok (retained, branches_to_open, packed) else Err ()))"

definition parent_first :: "cut \<Rightarrow> node_path list" where
  "parent_first paths = sort_key (\<lambda>p. (length (path_indices p), p)) (sorted_list_of_set paths)"

definition child_first :: "cut \<Rightarrow> node_path list" where
  "child_first paths = sort_key (\<lambda>p. (- int (length (path_indices p)), p)) (sorted_list_of_set paths)"

text \<open>The paths of a transition, then the nodes they select, as the caller gets them.\<close>

definition transition_paths ::
  "commit_forest \<Rightarrow> cut \<Rightarrow> cut
     \<Rightarrow> (unit, commitment_node list \<times> node_path list \<times> node_path list) outcome" where
  "transition_paths f source target =
     and_then (try_fold (transition_step f source) ([], {}, {}) (sorted_list_of_set target))
       (\<lambda>(retained, branches_to_open, branches_to_pack).
          Ok (retained, parent_first branches_to_open, child_first branches_to_pack))"

record transition_ops =
  retained :: "commitment_node list"
  branches_to_open :: "commitment_node list"
  branches_to_pack :: "commitment_node list"

definition transition :: "commit_forest \<Rightarrow> cut \<Rightarrow> cut \<Rightarrow> (unit, transition_ops) outcome" where
  "transition f source target =
     and_then (transition_paths f source target) (\<lambda>(kept, to_open, to_pack).
       and_then (try_map (\<lambda>p. expect (node f p)) to_open) (\<lambda>opens.
         and_then (try_map (\<lambda>p. expect (node f p)) to_pack) (\<lambda>packs.
           Ok \<lparr>retained = kept, branches_to_open = opens, branches_to_pack = packs\<rparr>)))"

section \<open>Valid cuts\<close>

text \<open>
  What the check means: every path selects a node and no selected node is an ancestor of
  another one.
\<close>

definition antichain :: "cut \<Rightarrow> bool" where
  "antichain C \<longleftrightarrow> (\<forall>p \<in> C. \<forall>q \<in> C. starts_with q p \<longrightarrow> p = q)"

definition valid_cut :: "commit_forest \<Rightarrow> cut \<Rightarrow> bool" where
  "valid_cut f C \<longleftrightarrow> (\<forall>p \<in> C. node f p \<noteq> None) \<and> antichain C"

lemma antichain_insert_below:
  assumes "\<And>q. q \<in> C \<Longrightarrow> p < q"
  shows "antichain (insert p C) \<longleftrightarrow> antichain C \<and> (\<forall>q \<in> C. \<not> starts_with q p)"
  using assms starts_with_less unfolding antichain_def by (metis insert_iff order.asym)

lemma valid_cut_loop_iff:
  assumes "sorted_wrt (<) (p # ps)"
  shows "valid_cut_loop f (Some p) ps \<longleftrightarrow> (\<forall>q \<in> set ps. node f q \<noteq> None) \<and> antichain (set (p # ps))"
  using assms
proof (induction ps arbitrary: p)
  case Nil
  then show ?case by (simp add: antichain_def)
next
  case (Cons q qs)
  have le: "p < q" "\<And>r. r \<in> set qs \<Longrightarrow> q < r" using Cons.prems by auto
  have "starts_with q p" if "r \<in> set qs" "starts_with r p" for r
    using starts_with_between [OF that(2), of q] le that(1) by (simp add: order.strict_implies_order)
  then have "antichain (set (p # q # qs)) \<longleftrightarrow> antichain (set (q # qs)) \<and> \<not> starts_with q p"
    using antichain_insert_below [of "set (q # qs)" p] Cons.prems by auto
  with Cons show ?case by auto
qed

lemma is_valid_cut_iff:
  assumes "finite C"
  shows "is_valid_cut f C \<longleftrightarrow> valid_cut f C"
proof (cases "sorted_list_of_set C")
  case Nil
  with assms show ?thesis by (simp add: is_valid_cut_def valid_cut_def antichain_def)
next
  case (Cons p ps)
  have "sorted_wrt (<) (p # ps)" using Cons by (metis strict_sorted_list_of_set)
  moreover have "set (p # ps) = C" using Cons assms by (metis set_sorted_list_of_set)
  ultimately show ?thesis
    using valid_cut_loop_iff [of p ps f] Cons by (auto simp: is_valid_cut_def valid_cut_def)
qed

lemma valid_cut_node: "valid_cut f C \<Longrightarrow> p \<in> C \<Longrightarrow> \<exists>n. node f p = Some n"
  by (auto simp: valid_cut_def)

lemma valid_cut_antichain: "valid_cut f C \<Longrightarrow> p \<in> C \<Longrightarrow> q \<in> C \<Longrightarrow> starts_with q p \<Longrightarrow> p = q"
  by (auto simp: valid_cut_def antichain_def)

lemma valid_cut_subset: "valid_cut f C \<Longrightarrow> D \<subseteq> C \<Longrightarrow> valid_cut f D"
  unfolding valid_cut_def antichain_def by blast

lemma root_cut_valid: "valid_cut f (root_cut f)"
  by (auto simp: valid_cut_def antichain_def root_cut_def root_path_def node_def starts_with_def)

lemma finite_root_cut [simp]: "finite (root_cut f)"
  by (simp add: root_cut_def)

section \<open>Opening and packing one branch\<close>

lemma set_child_paths [simp]: "set (child_paths b n) = child b ` {0..<n}"
  by (simp add: child_paths_def)

lemma open_branch_iff:
  assumes "finite C"
  shows "open_branch f C b = Some D \<longleftrightarrow>
    valid_cut f C \<and> b \<in> C \<and> (\<exists>cs. node f b = Some (Branch cs) \<and> cs \<noteq> []
      \<and> D = (C - {b}) \<union> child b ` {0..<length cs})"
  using assms
  by (auto simp: open_branch_def is_valid_cut_iff branch_children_iff [symmetric] split: option.splits)

lemma pack_branch_iff:
  assumes "finite C"
  shows "pack_branch f C b = Some D \<longleftrightarrow>
    valid_cut f C \<and> (\<exists>cs. node f b = Some (Branch cs) \<and> cs \<noteq> []
      \<and> child b ` {0..<length cs} \<subseteq> C \<and> D = insert b (C - child b ` {0..<length cs}))"
  using assms
  by (auto simp: pack_branch_def is_valid_cut_iff branch_children_iff [symmetric] list_ex_iff
      split: option.splits)

text \<open>A path above or below a child of a branch is above, below or inside the branch.\<close>

lemma open_valid:
  assumes C: "valid_cut f C" "b \<in> C" and b: "node f b = Some (Branch cs)"
  shows "valid_cut f ((C - {b}) \<union> child b ` {0..<length cs})"
proof -
  have "p = q" if p: "p \<in> (C - {b}) \<union> child b ` {0..<length cs}"
    and q: "q \<in> (C - {b}) \<union> child b ` {0..<length cs}" and qp: "starts_with q p" for p q
  proof -
    consider "p \<in> C - {b}" "q \<in> C - {b}" | i where "p \<in> C - {b}" "q = child b i"
      | i where "p = child b i" "q \<in> C - {b}" | i j where "p = child b i" "q = child b j"
      using p q by (elim UnE imageE) blast+
    then show ?thesis
    proof cases
      case 1
      then show ?thesis using valid_cut_antichain [OF C(1), of p q] qp by blast
    next
      case 2
      with qp have "p = child b i \<or> starts_with b p" by (simp add: starts_with_child_iff)
      with 2 C show ?thesis using valid_cut_antichain [OF C(1), of p b] by blast
    next
      case 3
      with qp have "starts_with q b" using starts_with_child starts_with_trans by blast
      with 3 C show ?thesis using valid_cut_antichain [OF C(1), of b q] by blast
    next
      case 4
      with qp show ?thesis
        by (metis child_neq(1) starts_with_antisym starts_with_child starts_with_child_iff)
    qed
  qed
  moreover have "node f p \<noteq> None" if "p \<in> (C - {b}) \<union> child b ` {0..<length cs}" for p
    using that C b by (auto simp: valid_cut_def node_child branch_children_iff [symmetric])
  ultimately show ?thesis unfolding valid_cut_def antichain_def by blast
qed

lemma pack_valid:
  assumes C: "valid_cut f C" and b: "node f b = Some (Branch cs)" "cs \<noteq> []"
    and sub: "child b ` {0..<length cs} \<subseteq> C"
  shows "valid_cut f (insert b (C - child b ` {0..<length cs}))" and "b \<notin> C"
proof -
  have c0: "child b 0 \<in> C" using sub b(2) by force
  then show "b \<notin> C"
    using valid_cut_antichain [OF C, of b "child b 0"] by fastforce
  have below: False if q: "q \<in> C - child b ` {0..<length cs}" and qb: "starts_with q b" for q
  proof -
    obtain n where n: "node f q = Some n" using valid_cut_node [OF C, of q] q by blast
    have "q \<noteq> b" using q \<open>b \<notin> C\<close> by blast
    with qb obtain i js where qis: "path_indices q = path_indices b @ i # js"
      unfolding starts_with_def by (metis append_Nil2 list.exhaust path_indices_inject prefixE)
    then have qi: "starts_with q (child b i)" by (simp add: starts_with_def)
    have "i < length cs"
    proof -
      have "node f q = Option.bind (node f b) (\<lambda>m. node_at m (i # js))"
        using qis by (rule node_append)
      with n b(1) show ?thesis by (auto split: if_splits)
    qed
    then have "child b i \<in> C" using sub by auto
    then have "child b i = q" using valid_cut_antichain [OF C _ _ qi] q by blast
    with q \<open>i < length cs\<close> show False by auto
  qed
  have above: False if p: "p \<in> C" and bp: "starts_with b p" for p
  proof -
    have "p = child b 0"
      using valid_cut_antichain [OF C p c0] starts_with_trans [OF starts_with_child bp] by blast
    with bp show False by (metis child_neq(1) starts_with_antisym starts_with_child)
  qed
  have "antichain (insert b (C - child b ` {0..<length cs}))"
    unfolding antichain_def
  proof (intro ballI impI)
    fix p q
    assume "p \<in> insert b (C - child b ` {0..<length cs})" "q \<in> insert b (C - child b ` {0..<length cs})"
      and "starts_with q p"
    then show "p = q"
      using below [of q] above [of p] valid_cut_antichain [OF C, of p q] by auto
  qed
  with C b(1) show "valid_cut f (insert b (C - child b ` {0..<length cs}))"
    by (auto simp: valid_cut_def)
qed

lemma pack_open:
  assumes "finite C" "open_branch f C b = Some D"
  shows "pack_branch f D b = Some C"
proof -
  obtain cs where C: "valid_cut f C" "b \<in> C" and cs: "node f b = Some (Branch cs)" "cs \<noteq> []"
    and D: "D = (C - {b}) \<union> child b ` {0..<length cs}"
    using assms(2) unfolding open_branch_iff [OF assms(1)] by (elim conjE exE) (rule that)
  have "child b i \<notin> C" for i
    using valid_cut_antichain [OF C(1,2), of "child b i"] by fastforce
  then have eq: "C = insert b (D - child b ` {0..<length cs})" using D C(2) by auto
  have "finite D" using assms(1) D by simp
  moreover have "valid_cut f D" using open_valid [OF C cs(1)] D by simp
  moreover have "child b ` {0..<length cs} \<subseteq> D" using D by blast
  ultimately show ?thesis
    using cs eq by (subst pack_branch_iff) blast+
qed

lemma open_pack:
  assumes "finite C" "pack_branch f C b = Some D"
  shows "open_branch f D b = Some C"
proof -
  obtain cs where C: "valid_cut f C" and cs: "node f b = Some (Branch cs)" "cs \<noteq> []"
    and sub: "child b ` {0..<length cs} \<subseteq> C" and D: "D = insert b (C - child b ` {0..<length cs})"
    using assms(2) unfolding pack_branch_iff [OF assms(1)] by (elim conjE exE) (rule that)
  note pv = pack_valid [OF C cs sub]
  have eq: "C = (D - {b}) \<union> child b ` {0..<length cs}" using D sub pv(2) by auto
  have "finite D" using assms(1) D by simp
  moreover have "valid_cut f D" "b \<in> D" using pv(1) D by simp_all
  ultimately show ?thesis
    using cs eq by (subst open_branch_iff) blast+
qed

section \<open>Transitions\<close>

text \<open>
  The closure a transition has to stay in: a node is derivable from a cut when it is
  selected by it, is a child of a derivable branch (which is opened), or is a non-empty
  branch all of whose children are derivable (which is packed).
\<close>

inductive derivable :: "commit_forest \<Rightarrow> cut \<Rightarrow> node_path \<Rightarrow> bool" for f S where
  selected: "p \<in> S \<Longrightarrow> derivable f S p"
| opened: "derivable f S b \<Longrightarrow> node f b = Some (Branch cs) \<Longrightarrow> i < length cs \<Longrightarrow> derivable f S (child b i)"
| packed: "node f b = Some (Branch cs) \<Longrightarrow> cs \<noteq> [] \<Longrightarrow> (\<And>i. i < length cs \<Longrightarrow> derivable f S (child b i))
    \<Longrightarrow> derivable f S b"

text \<open>The nodes the pack search accepts, whatever it has collected before.\<close>

inductive packable :: "commit_forest \<Rightarrow> cut \<Rightarrow> node_path \<Rightarrow> bool" for f S where
  selected: "p \<in> S \<Longrightarrow> packable f S p"
| packed: "node f b = Some (Branch cs) \<Longrightarrow> cs \<noteq> [] \<Longrightarrow> (\<And>i. i < length cs \<Longrightarrow> packable f S (child b i))
    \<Longrightarrow> packable f S b"

inductive_cases packableE: "packable f S p"

lemma packable_derivable: "packable f S p \<Longrightarrow> derivable f S p"
  by (induction rule: packable.induct) (auto intro: derivable.intros)

text \<open>A set of branches is closed when every child of a member is selected or a member.\<close>

definition pack_closed :: "commit_forest \<Rightarrow> cut \<Rightarrow> cut \<Rightarrow> bool" where
  "pack_closed f S B \<longleftrightarrow> (\<forall>b \<in> B. \<exists>cs. node f b = Some (Branch cs) \<and> cs \<noteq> []
     \<and> child b ` {0..<length cs} \<subseteq> S \<union> B)"

lemma pack_closed_insert:
  "pack_closed f S B \<Longrightarrow> node f b = Some (Branch cs) \<Longrightarrow> cs \<noteq> []
     \<Longrightarrow> child b ` {0..<length cs} \<subseteq> S \<union> B \<Longrightarrow> pack_closed f S (insert b B)"
  unfolding pack_closed_def by (metis (no_types, lifting) Un_insert_right insert_iff subset_insertI2)

lemma all_collect_packs:
  assumes "\<And>x s. x \<in> set xs \<Longrightarrow> finite s \<Longrightarrow> pack_closed f S s \<Longrightarrow> (case g x s of (ok, s') \<Rightarrow>
      (ok \<longleftrightarrow> P x) \<and> s \<subseteq> s' \<and> finite s' \<and> pack_closed f S s' \<and> (ok \<longrightarrow> x \<in> S \<union> s'))"
    and "finite s" "pack_closed f S s"
  shows "case all_collect g xs s of (ok, s') \<Rightarrow>
      (ok \<longleftrightarrow> (\<forall>x \<in> set xs. P x)) \<and> s \<subseteq> s' \<and> finite s' \<and> pack_closed f S s'
      \<and> (ok \<longrightarrow> set xs \<subseteq> S \<union> s')"
  using assms
proof (induction xs arbitrary: s)
  case (Cons x xs)
  obtain ok s1 where g: "g x s = (ok, s1)" by fastforce
  from Cons.prems(1) [of x s] Cons.prems(2,3) g
  have x: "ok \<longleftrightarrow> P x" "s \<subseteq> s1" "finite s1" "pack_closed f S s1" "ok \<longrightarrow> x \<in> S \<union> s1" by auto
  obtain ok' s2 where rest: "all_collect g xs s1 = (ok', s2)" by fastforce
  have "case all_collect g xs s1 of (ok, s') \<Rightarrow>
      (ok \<longleftrightarrow> (\<forall>x \<in> set xs. P x)) \<and> s1 \<subseteq> s' \<and> finite s' \<and> pack_closed f S s'
      \<and> (ok \<longrightarrow> set xs \<subseteq> S \<union> s')"
    using Cons.prems(1) x(3,4) by (intro Cons.IH) auto
  with x g rest show ?case by (cases ok) auto
qed simp

lemma collect_pack_paths_spec:
  assumes "finite B" "pack_closed f S B"
  shows "case collect_pack_paths f S p B of (ok, B') \<Rightarrow>
      (ok \<longleftrightarrow> packable f S p) \<and> B \<subseteq> B' \<and> finite B' \<and> pack_closed f S B' \<and> (ok \<longrightarrow> p \<in> S \<union> B')"
  using assms
proof (induction f S p B rule: collect_pack_paths.induct)
  case (1 f S p B)
  show ?case
  proof (cases "p \<in> S")
    case True
    with "1.prems" show ?thesis
      by (simp add: collect_pack_paths.simps [of f S p] packable.selected)
  next
    case notin: False
    show ?thesis
    proof (cases "branch_children f p")
      case None
      with notin "1.prems" show ?thesis
        by (auto simp: collect_pack_paths.simps [of f S p] branch_children_iff [symmetric] elim!: packableE)
    next
      case (Some cs)
      then have cs: "node f p = Some (Branch cs)" by (simp add: branch_children_iff)
      have pack: "packable f S p \<longleftrightarrow> cs \<noteq> [] \<and> (\<forall>q \<in> set (child_paths p (length cs)). packable f S q)"
        using notin cs by (auto intro: packable.packed elim: packableE)
      show ?thesis
      proof (cases "cs = []")
        case True
        with notin Some "1.prems" pack show ?thesis
          by (simp add: collect_pack_paths.simps [of f S p])
      next
        case False
        obtain ok B' where all: "all_collect (collect_pack_paths f S) (child_paths p (length cs)) B = (ok, B')"
          by fastforce
        have "case all_collect (collect_pack_paths f S) (child_paths p (length cs)) B of (ok, s') \<Rightarrow>
            (ok \<longleftrightarrow> (\<forall>x \<in> set (child_paths p (length cs)). packable f S x)) \<and> B \<subseteq> s' \<and> finite s'
            \<and> pack_closed f S s' \<and> (ok \<longrightarrow> set (child_paths p (length cs)) \<subseteq> S \<union> s')"
          by (rule all_collect_packs [OF "1.IH" [OF notin Some False] "1.prems"])
        with all have B': "ok \<longleftrightarrow> (\<forall>x \<in> set (child_paths p (length cs)). packable f S x)"
          "B \<subseteq> B'" "finite B'" "pack_closed f S B'" "ok \<longrightarrow> set (child_paths p (length cs)) \<subseteq> S \<union> B'"
          by auto
        moreover from B'(4,5) have "ok \<longrightarrow> pack_closed f S (insert p B')"
          using pack_closed_insert [OF B'(4) cs False] by simp
        ultimately show ?thesis
          using notin Some False all pack
          by (auto simp: collect_pack_paths.simps [of f S p])
      qed
    qed
  qed
qed

lemma path_snoc_cases:
  obtains "p = q" | p' i where "p = child p' i" "starts_with p' q" | "\<not> starts_with p q"
proof (cases "starts_with p q \<and> p \<noteq> q")
  case True
  then obtain i js where "path_indices p = path_indices q @ i # js"
    unfolding starts_with_def by (metis append_Nil2 list.exhaust path_indices_inject prefixE)
  then have pq: "path_indices p = (path_indices q @ butlast (i # js)) @ [last (i # js)]"
    by simp
  obtain root path where "path_indices q @ butlast (i # js) = path_indices (NodePath root path)"
    by (cases q) auto
  with pq have "p = child (NodePath root path) (last (i # js))" "starts_with (NodePath root path) q"
    by (metis path_indices_child path_indices_inject) (metis \<open>_ = path_indices (NodePath _ _)\<close> prefixI starts_with_def)
  then show ?thesis by (rule that(2))
qed (use that in blast)

lemma node_parent:
  assumes "node f (child p i) \<noteq> None"
  obtains cs where "node f p = Some (Branch cs)" "i < length cs"
  using assms that by (auto simp: node_child branch_children_iff split: option.splits if_splits)

lemma derivable_below:
  assumes "derivable f S q" "starts_with p q" "node f p \<noteq> None"
  shows "derivable f S p"
  using assms(2,3)
proof (induction "length (path_indices p)" arbitrary: p)
  case 0
  then show ?case by simp
next
  case (Suc n)
  show ?case
  proof (cases rule: path_snoc_cases [of p q])
    case 1
    with assms(1) show ?thesis by simp
  next
    case (2 p' i)
    from Suc.prems(2) obtain cs where cs: "node f p' = Some (Branch cs)" "i < length cs"
      unfolding 2(1) by (rule node_parent)
    have "n = length (path_indices p')" using Suc.hyps(2) 2(1) by simp
    then have "derivable f S p'" using Suc.hyps(1) 2(2) cs(1) by simp
    from this cs show ?thesis unfolding 2(1) by (rule derivable.opened)
  next
    case 3
    with Suc.prems show ?thesis by simp
  qed
qed

lemma derivable_cases:
  "derivable f S p \<Longrightarrow> (\<exists>q \<in> S. starts_with p q) \<or> packable f S p"
proof (induction rule: derivable.induct)
  case (selected p)
  then show ?case by (blast intro: starts_with_refl)
next
  case (opened b cs i)
  from opened.IH show ?case
  proof
    assume "\<exists>q \<in> S. starts_with b q"
    then show ?case using starts_with_child starts_with_trans by blast
  next
    assume "packable f S b"
    then show ?case
      using opened.hyps by (cases rule: packable.cases) (auto intro: starts_with_child)
  qed
next
  case (packed b cs)
  show ?case
  proof (cases "\<exists>q \<in> S. starts_with b q")
    case False
    have "packable f S (child b i)" if "i < length cs" for i
      using packed.IH [OF that] False by (auto simp: starts_with_child_iff intro: packable.selected)
    with packed.hyps show ?thesis by (blast intro: packable.packed)
  qed simp
qed

text \<open>The opened branches: each is a branch, selected or a child of an opened one.\<close>

definition open_closed :: "commit_forest \<Rightarrow> cut \<Rightarrow> cut \<Rightarrow> bool" where
  "open_closed f S B \<longleftrightarrow> (\<forall>b \<in> B. (\<exists>cs. node f b = Some (Branch cs))
     \<and> (b \<in> S \<or> (\<exists>b' i. b = child b' i \<and> b' \<in> B)))"

lemma open_closed_Un: "open_closed f S A \<Longrightarrow> open_closed f S B \<Longrightarrow> open_closed f S (A \<union> B)"
  unfolding open_closed_def by blast

definition between :: "node_path \<Rightarrow> nat \<Rightarrow> cut" where
  "between p m = {q. \<exists>d. m \<le> d \<and> d < length (path_indices p) \<and> path_indices q = take d (path_indices p)}"

lemma prefix_path:
  assumes "0 < d"
  obtains q where "node_path_new (take d (path_indices p)) = (Ok q :: ('e, _) outcome)"
    "path_indices q = take d (path_indices p)"
proof -
  obtain r path where "take d (path_indices p) = r # path"
    using assms by (cases p; cases d) auto
  then show ?thesis by (intro that [of "NodePath r path"]) (auto simp: node_path_new_def)
qed

lemma node_between:
  assumes "q \<in> between p m" "node f p \<noteq> None"
  shows "\<exists>cs i. node f q = Some (Branch cs) \<and> i < length cs
    \<and> (child q i = p \<or> child q i \<in> between p m)"
proof -
  from assms(1) obtain d where d: "m \<le> d" "d < length (path_indices p)"
    and q: "path_indices q = take d (path_indices p)" by (auto simp: between_def)
  let ?i = "path_indices p ! d"
  have c: "path_indices (child q ?i) = take (Suc d) (path_indices p)"
    using d q by (simp add: take_Suc_conv_app_nth)
  have n: "node f p = Option.bind (node f (child q ?i)) (\<lambda>m. node_at m (drop (Suc d) (path_indices p)))"
  proof -
    have "path_indices p = path_indices (child q ?i) @ drop (Suc d) (path_indices p)"
      using c by (metis append_take_drop_id)
    then show ?thesis by (rule node_append)
  qed
  with assms(2) have "node f (child q ?i) \<noteq> None" by (auto simp: bind_eq_None_conv)
  then obtain cs where "node f q = Some (Branch cs)" "?i < length cs" by (rule node_parent)
  moreover have "child q ?i = p \<or> child q ?i \<in> between p m"
  proof (cases "Suc d < length (path_indices p)")
    case True
    then have "child q ?i \<in> between p m"
      unfolding between_def using c d(1) by (intro CollectI exI [of _ "Suc d"]) simp
    then show ?thesis ..
  next
    case False
    with d have "path_indices (child q ?i) = path_indices p" using c by simp
    then show ?thesis using path_indices_inject by blast
  qed
  ultimately show ?thesis by blast
qed

lemma open_depths:
  assumes "node f p \<noteq> None" "0 < m"
  shows "try_fold (open_depth f p) B [m..<length (path_indices p)] = Ok (B \<union> between p m)"
proof -
  let ?I = "\<lambda>ds s. s = B \<union> {q. \<exists>d \<in> set ds. path_indices q = take d (path_indices p)}"
  have "\<exists>s. try_fold (open_depth f p) B [m..<length (path_indices p)] = Ok s
      \<and> ?I [m..<length (path_indices p)] s"
  proof (rule try_fold_total [where I = ?I])
    fix ds d es s
    assume split: "[m..<length (path_indices p)] = ds @ d # es" and s: "?I ds s"
    from split have "d \<in> set [m..<length (path_indices p)]" by simp
    then have d: "m \<le> d" "d < length (path_indices p)" by auto
    with assms(2) have "0 < d" by simp
    from prefix_path [OF this, of p] obtain q where
      q: "node_path_new (take d (path_indices p)) = (Ok q :: (unit, _) outcome)"
      "path_indices q = take d (path_indices p)" by blast
    then have "q \<in> between p m" using d by (auto simp: between_def)
    from node_between [OF this assms(1)] obtain cs where "node f q = Some (Branch cs)" by blast
    with q(1) have "open_depth f p s d = Ok (insert q s)" by (simp add: open_depth_def)
    moreover have "{r. path_indices r = take d (path_indices p)} = {q}"
      using q(2) by (auto simp flip: path_indices_inject)
    then have "?I (ds @ [d]) (insert q s)" using s by auto
    ultimately show "\<exists>s'. open_depth f p s d = Ok s' \<and> ?I (ds @ [d]) s'" by blast
  qed simp
  moreover have "{q. \<exists>d \<in> set [m..<length (path_indices p)]. path_indices q = take d (path_indices p)}
      = between p m" by (auto simp: between_def)
  ultimately show ?thesis by simp
qed

lemma finite_between [simp]: "finite (between p m)"
proof -
  have "between p m \<subseteq> path_indices -` ((\<lambda>d. take d (path_indices p)) ` {..<length (path_indices p)})"
    by (auto simp: between_def)
  moreover have "finite (path_indices -` ((\<lambda>d. take d (path_indices p)) ` {..<length (path_indices p)}))"
    by (intro finite_vimageI) (auto simp: inj_on_def)
  ultimately show ?thesis by (rule finite_subset)
qed

lemma between_open_closed:
  assumes "node f p \<noteq> None" "a \<in> S" "starts_with p a" "p \<noteq> a"
  shows "open_closed f S (between p (length (path_indices a)))"
    and "\<exists>b \<in> between p (length (path_indices a)). \<exists>i cs. p = child b i
      \<and> node f b = Some (Branch cs) \<and> i < length cs"
proof -
  let ?m = "length (path_indices a)"
  from assms(3,4) obtain i js where pa: "path_indices p = path_indices a @ i # js"
    unfolding starts_with_def by (metis append_Nil2 list.exhaust path_indices_inject prefixE)
  show "open_closed f S (between p ?m)"
    unfolding open_closed_def
  proof
    fix b assume b: "b \<in> between p ?m"
    then obtain d where d: "?m \<le> d" "d < length (path_indices p)" "path_indices b = take d (path_indices p)"
      by (auto simp: between_def)
    have "b \<in> S \<or> (\<exists>b' i. b = child b' i \<and> b' \<in> between p ?m)"
    proof (cases "d = ?m")
      case True
      with d(3) pa have "path_indices b = path_indices a" by simp
      then have "b = a" by simp
      with assms(2) show ?thesis by blast
    next
      case False
      moreover have "0 < ?m" by simp
      ultimately have "?m \<le> d - 1" "0 < d - 1" using d(1) by linarith+
      from prefix_path [OF this(2), of p] obtain b' where b': "path_indices b' = take (d - 1) (path_indices p)"
        by blast
      then have "b' \<in> between p ?m" using d(2) \<open>?m \<le> d - 1\<close> by (auto simp: between_def)
      moreover have "path_indices (child b' (path_indices p ! (d - 1))) = path_indices b"
      proof -
        have "Suc (d - 1) = d" "d - 1 < length (path_indices p)" using \<open>0 < d - 1\<close> d(2) by simp_all
        with take_Suc_conv_app_nth [of "d - 1" "path_indices p"]
        have "take d (path_indices p) = take (d - 1) (path_indices p) @ [path_indices p ! (d - 1)]"
          by metis
        then show ?thesis using b' d(3) by (simp only: path_indices_child)
      qed
      then have "b = child b' (path_indices p ! (d - 1))" by (simp only: path_indices_inject)
      ultimately show ?thesis by blast
    qed
    with node_between [OF b assms(1)]
    show "(\<exists>cs. node f b = Some (Branch cs)) \<and> (b \<in> S \<or> (\<exists>b' i. b = child b' i \<and> b' \<in> between p ?m))"
      by blast
  qed
  have "0 < length (path_indices p) - 1" using pa by simp
  from prefix_path [OF this, of p] obtain b where
    b: "path_indices b = take (length (path_indices p) - 1) (path_indices p)" by blast
  then have bb: "b \<in> between p ?m"
    unfolding between_def using pa by (intro CollectI exI [of _ "length (path_indices p) - 1"]) simp
  from node_between [OF this assms(1)] obtain cs i where
    "node f b = Some (Branch cs)" "i < length cs" and c: "child b i = p \<or> child b i \<in> between p ?m" by blast
  moreover from c have "child b i = p"
  proof
    assume "child b i \<in> between p ?m"
    then obtain d where "d < length (path_indices p)" "path_indices (child b i) = take d (path_indices p)"
      by (auto simp: between_def)
    then have "length (path_indices (child b i)) < length (path_indices p)" by (metis length_take min_less_iff_disj)
    with b show ?thesis by simp
  qed
  ultimately show "\<exists>b \<in> between p ?m. \<exists>i cs. p = child b i \<and> node f b = Some (Branch cs) \<and> i < length cs"
    using bb by blast
qed

text \<open>
  The invariant of the loop over the target cut, and the reason a target is reached: it is
  kept, packed, or a child of an opened branch.
\<close>

definition reached :: "commit_forest \<Rightarrow> cut \<Rightarrow> cut \<Rightarrow> cut \<Rightarrow> node_path \<Rightarrow> bool" where
  "reached f S opn pck p \<longleftrightarrow> p \<in> S \<or> p \<in> pck
     \<or> (\<exists>b \<in> opn. \<exists>i cs. p = child b i \<and> node f b = Some (Branch cs) \<and> i < length cs)"

definition transition_inv ::
  "commit_forest \<Rightarrow> cut \<Rightarrow> node_path list \<Rightarrow> commitment_node list \<times> cut \<times> cut \<Rightarrow> bool" where
  "transition_inv f S visited st \<longleftrightarrow> (case st of (kept, opn, pck) \<Rightarrow>
     finite opn \<and> finite pck \<and> open_closed f S opn \<and> pack_closed f S pck
     \<and> (\<forall>p \<in> set visited. reached f S opn pck p)
     \<and> map Some kept = map (node f) (filter (\<lambda>p. p \<in> S) visited))"

lemma transition_inv_start: "transition_inv f S [] ([], {}, {})"
  by (simp add: transition_inv_def open_closed_def pack_closed_def)

lemma reached_mono:
  "reached f S A B p \<Longrightarrow> A \<subseteq> A' \<Longrightarrow> B \<subseteq> B' \<Longrightarrow> reached f S A' B' p"
  unfolding reached_def by blast

lemma transition_step_inv:
  assumes S: "finite S" and n: "node f p \<noteq> None" and inv: "transition_inv f S visited st"
  shows "if derivable f S p then \<exists>st'. transition_step f S st p = Ok st' \<and> transition_inv f S (visited @ [p]) st'
      else transition_step f S st p = Err ()"
proof -
  obtain kept opn pck where st: "st = (kept, opn, pck)" by (cases st) auto
  have st_inv: "finite opn" "finite pck" "open_closed f S opn" "pack_closed f S pck"
    "\<forall>q \<in> set visited. reached f S opn pck q" "map Some kept = map (node f) (filter (\<lambda>p. p \<in> S) visited)"
    using inv st by (auto simp: transition_inv_def)
  show ?thesis
  proof (cases "p \<in> S")
    case True
    obtain m where m: "node f p = Some m" using n by blast
    then have "transition_inv f S (visited @ [p]) (kept @ [m], opn, pck)"
      using st_inv True by (simp add: transition_inv_def) (auto simp: reached_def)
    with True m st derivable.selected [OF True] show ?thesis by (auto simp: ok_or_def)
  next
    case notin: False
    show ?thesis
    proof (cases "find (starts_with p) (sorted_list_of_set S)")
      case (Some a)
      then have a: "a \<in> S" "starts_with p a" using S by (auto dest: find_SomeD)
      with notin have ne: "p \<noteq> a" by blast
      let ?B = "between p (length (path_indices a))"
      have "transition_step f S st p = Ok (kept, opn \<union> ?B, pck)"
        using notin Some st open_depths [OF n, of "length (path_indices a)" opn] by simp
      moreover have "transition_inv f S (visited @ [p]) (kept, opn \<union> ?B, pck)"
        using st_inv notin between_open_closed [OF n a ne] open_closed_Un
        by (simp add: transition_inv_def) (auto simp: reached_def)
      ultimately show ?thesis
        using derivable_below [OF derivable.selected [OF a(1)] a(2) n] by simp
    next
      case None
      then have anc: "\<forall>q \<in> S. \<not> starts_with p q" using S by (auto dest: find_NoneD)
      obtain ok B where c: "collect_pack_paths f S p pck = (ok, B)" by fastforce
      with collect_pack_paths_spec [OF st_inv(2,4), of p]
      have B: "ok \<longleftrightarrow> packable f S p" "pck \<subseteq> B" "finite B" "pack_closed f S B" "ok \<longrightarrow> p \<in> S \<union> B"
        by auto
      have d: "derivable f S p \<longleftrightarrow> ok"
        using B(1) anc derivable_cases packable_derivable by blast
      show ?thesis
      proof (cases ok)
        case True
        then have "transition_inv f S (visited @ [p]) (kept, opn, B)"
          using st_inv B notin reached_mono [of f S opn pck _ opn B]
          by (simp add: transition_inv_def) (auto simp: reached_def)
        with notin None st c True d show ?thesis by simp
      qed (use notin None st c d in simp)
    qed
  qed
qed

lemma set_parent_first [simp]: "finite B \<Longrightarrow> set (parent_first B) = B"
  by (simp add: parent_first_def)

lemma set_child_first [simp]: "finite B \<Longrightarrow> set (child_first B) = B"
  by (simp add: child_first_def)

lemma transition_paths_decides:
  assumes "finite S" "finite T" "\<And>p. p \<in> T \<Longrightarrow> node f p \<noteq> None"
  shows "if \<forall>p \<in> T. derivable f S p
    then \<exists>kept opn pck. transition_paths f S T = Ok (kept, parent_first opn, child_first pck)
      \<and> transition_inv f S (sorted_list_of_set T) (kept, opn, pck)
    else transition_paths f S T = Err ()"
proof -
  let ?ts = "sorted_list_of_set T"
  have "if \<forall>p \<in> set ?ts. derivable f S p
    then \<exists>st. try_fold (transition_step f S) ([], {}, {}) ?ts = Ok st \<and> transition_inv f S ?ts st
    else try_fold (transition_step f S) ([], {}, {}) ?ts = Err ()"
  proof (rule try_fold_decides [where I = "transition_inv f S"])
    show "transition_inv f S [] ([], {}, {})" by (rule transition_inv_start)
  next
    fix ys p zs st
    assume split: "?ts = ys @ p # zs" and inv: "transition_inv f S ys st"
    from split assms(2) have "p \<in> T" by (metis in_set_conv_decomp set_sorted_list_of_set)
    then show "if derivable f S p then \<exists>st'. transition_step f S st p = Ok st' \<and> transition_inv f S (ys @ [p]) st'
        else transition_step f S st p = Err ()"
      by (intro transition_step_inv assms inv)
  qed
  then have loop: "if \<forall>p \<in> T. derivable f S p
    then \<exists>st. try_fold (transition_step f S) ([], {}, {}) ?ts = Ok st \<and> transition_inv f S ?ts st
    else try_fold (transition_step f S) ([], {}, {}) ?ts = Err ()"
    using assms(2) by simp
  show ?thesis
  proof (cases "\<forall>p \<in> T. derivable f S p")
    case True
    with loop obtain kept opn pck where
      "try_fold (transition_step f S) ([], {}, {}) ?ts = Ok (kept, opn, pck)"
      and inv: "transition_inv f S ?ts (kept, opn, pck)" by auto
    then have "transition_paths f S T = Ok (kept, parent_first opn, child_first pck)"
      by (simp add: transition_paths_def)
    with inv True show ?thesis by auto
  next
    case False
    with loop show ?thesis by (simp add: transition_paths_def)
  qed
qed

lemma transition_decides:
  assumes "finite S" "finite T" "\<And>p. p \<in> T \<Longrightarrow> node f p \<noteq> None"
  shows "if \<forall>p \<in> T. derivable f S p then \<exists>t. transition f S T = Ok t else transition f S T = Err ()"
proof (cases "\<forall>p \<in> T. derivable f S p")
  case True
  with transition_paths_decides [OF assms] obtain kept opn pck where
    t: "transition_paths f S T = Ok (kept, parent_first opn, child_first pck)"
    and inv: "transition_inv f S (sorted_list_of_set T) (kept, opn, pck)" by auto
  have "\<forall>b \<in> opn \<union> pck. node f b \<noteq> None" and "finite opn" "finite pck"
    using inv by (auto simp: transition_inv_def open_closed_def pack_closed_def)
  have "v \<noteq> None \<Longrightarrow> expect v = (Ok (the v) :: (unit, _) outcome)" for v :: "commitment_node option"
    by (auto simp: expect_def)
  with \<open>\<forall>b \<in> opn \<union> pck. node f b \<noteq> None\<close>
  have ok: "expect (node f b) = (Ok (the (node f b)) :: (unit, _) outcome)" if "b \<in> opn \<union> pck" for b
    using that by blast
  then have "try_map (\<lambda>p. expect (node f p)) bs = (Ok (map (\<lambda>p. the (node f p)) bs) :: (unit, _) outcome)"
    if "set bs \<subseteq> opn \<union> pck" for bs
    using that by (intro try_map_total) blast
  with t True \<open>finite opn\<close> \<open>finite pck\<close> show ?thesis by (simp add: transition_def)
next
  case False
  with transition_paths_decides [OF assms] show ?thesis by (auto simp: transition_def)
qed

text \<open>
  Carrying out a transition: opening a known branch makes its children known, packing a
  branch needs all of its children. Both stop at an operation that is not enabled.
\<close>

definition run_open :: "commit_forest \<Rightarrow> cut \<Rightarrow> node_path \<Rightarrow> (unit, cut) outcome" where
  "run_open f known b = (case branch_children f b of
     Some cs \<Rightarrow> if b \<in> known then Ok (known \<union> child b ` {0..<length cs}) else Err ()
   | None \<Rightarrow> Err ())"

definition run_pack :: "commit_forest \<Rightarrow> cut \<Rightarrow> node_path \<Rightarrow> (unit, cut) outcome" where
  "run_pack f known b = (case branch_children f b of
     Some cs \<Rightarrow> if cs \<noteq> [] \<and> child b ` {0..<length cs} \<subseteq> known then Ok (insert b known) else Err ()
   | None \<Rightarrow> Err ())"

definition run_transition :: "commit_forest \<Rightarrow> cut \<Rightarrow> node_path list \<Rightarrow> node_path list \<Rightarrow> (unit, cut) outcome" where
  "run_transition f known opens packs =
     and_then (try_fold (run_open f) known opens) (\<lambda>k. try_fold (run_pack f) k packs)"

lemma sort_key_before:
  assumes "sort_key k xs = ys @ b # zs" "a \<in> set xs" "k a < k b"
  shows "a \<in> set ys"
proof -
  have "sorted (map k (ys @ b # zs))" using assms(1) by (metis sorted_sort_key)
  moreover have "a \<in> set (ys @ b # zs)" using assms(1,2) by (metis set_sort)
  ultimately show ?thesis using assms(3) by (auto simp: sorted_append)
qed

lemma run_opens:
  assumes "finite B" "open_closed f S B"
  shows "\<exists>K. try_fold (run_open f) S (parent_first B) = Ok K \<and> S \<subseteq> K
    \<and> (\<forall>b \<in> B. \<forall>cs i. node f b = Some (Branch cs) \<longrightarrow> i < length cs \<longrightarrow> child b i \<in> K)"
proof -
  let ?I = "\<lambda>bs K. S \<subseteq> K
    \<and> (\<forall>b \<in> set bs. \<forall>cs i. node f b = Some (Branch cs) \<longrightarrow> i < length cs \<longrightarrow> child b i \<in> K)"
  have "\<exists>K. try_fold (run_open f) S (parent_first B) = Ok K \<and> ?I (parent_first B) K"
  proof (rule try_fold_total [where I = ?I])
    fix bs b rest K
    assume split: "parent_first B = bs @ b # rest" and K: "?I bs K"
    then have "b \<in> B" using assms(1) by (metis in_set_conv_decomp set_parent_first)
    with assms(2) obtain cs where cs: "node f b = Some (Branch cs)" by (auto simp: open_closed_def)
    from \<open>b \<in> B\<close> assms(2) consider "b \<in> S" | b' i where "b = child b' i" "b' \<in> B"
      unfolding open_closed_def by blast
    then have "b \<in> K"
    proof cases
      case 1
      with K show ?thesis by blast
    next
      case 2
      have "b' \<in> set bs"
        by (rule sort_key_before [OF split [unfolded parent_first_def]]) (use 2 assms(1) in auto)
      moreover from cs 2(1) obtain cs' where "node f b' = Some (Branch cs')" "i < length cs'"
        using node_parent [of f b' i] by blast
      ultimately show ?thesis using K 2(1) by blast
    qed
    with cs K show "\<exists>K'. run_open f K b = Ok K' \<and> ?I (bs @ [b]) K'"
      by (auto simp: run_open_def branch_children_def)
  qed simp
  with assms(1) show ?thesis by simp
qed

lemma run_packs:
  assumes "finite B" "pack_closed f S B" "S \<subseteq> K"
  shows "\<exists>K'. try_fold (run_pack f) K (child_first B) = Ok K' \<and> K \<subseteq> K' \<and> B \<subseteq> K'"
proof -
  let ?I = "\<lambda>bs K'. K \<subseteq> K' \<and> set bs \<subseteq> K'"
  have "\<exists>K'. try_fold (run_pack f) K (child_first B) = Ok K' \<and> ?I (child_first B) K'"
  proof (rule try_fold_total [where I = ?I])
    fix bs b rest K'
    assume split: "child_first B = bs @ b # rest" and K': "?I bs K'"
    then have "b \<in> B" using assms(1) by (metis in_set_conv_decomp set_child_first)
    with assms(2) obtain cs where cs: "node f b = Some (Branch cs)" "cs \<noteq> []"
      "child b ` {0..<length cs} \<subseteq> S \<union> B" by (auto simp: pack_closed_def)
    have "child b i \<in> K'" if "i < length cs" for i
    proof (cases "child b i \<in> S")
      case True
      with K' assms(3) show ?thesis by blast
    next
      case False
      moreover have "child b i \<in> S \<union> B" using that by (intro subsetD [OF cs(3)]) simp
      ultimately have c: "child b i \<in> B" by simp
      have "child b i \<in> set bs"
        by (rule sort_key_before [OF split [unfolded child_first_def]]) (use c assms(1) in auto)
      with K' show ?thesis by blast
    qed
    with cs K' show "\<exists>s'. run_pack f K' b = Ok s' \<and> ?I (bs @ [b]) s'"
      by (auto simp: run_pack_def branch_children_def)
  qed simp
  with assms(1) show ?thesis by simp
qed

lemma transition_runs:
  assumes "finite S" "finite T" "\<And>p. p \<in> T \<Longrightarrow> node f p \<noteq> None"
    and "transition_paths f S T = Ok (kept, opens, packs)"
  shows "\<exists>K. run_transition f S opens packs = Ok K \<and> T \<subseteq> K"
proof -
  from transition_paths_decides [OF assms(1-3)] assms(4) obtain opn pck where
    eq: "opens = parent_first opn" "packs = child_first pck"
    and inv: "transition_inv f S (sorted_list_of_set T) (kept, opn, pck)"
    by (auto split: if_splits)
  then have i: "finite opn" "finite pck" "open_closed f S opn" "pack_closed f S pck"
    "\<And>p. p \<in> T \<Longrightarrow> reached f S opn pck p"
    using assms(2) by (auto simp: transition_inv_def)
  from run_opens [OF i(1,3)] obtain K where K: "try_fold (run_open f) S opens = Ok K" "S \<subseteq> K"
    "\<And>b cs j. b \<in> opn \<Longrightarrow> node f b = Some (Branch cs) \<Longrightarrow> j < length cs \<Longrightarrow> child b j \<in> K"
    using eq by auto
  from run_packs [OF i(2,4) K(2)] obtain K' where
    K': "try_fold (run_pack f) K packs = Ok K'" "K \<subseteq> K'" "pck \<subseteq> K'"
    using eq by auto
  have "T \<subseteq> K'"
    using i(5) K K' unfolding reached_def by blast
  with K(1) K'(1) show ?thesis by (simp add: run_transition_def)
qed

section \<open>Properties\<close>

text \<open>
  C13: the linear scan of \<open>is_valid_cut\<close>, which compares each path with its predecessor only,
  decides validity: all paths name nodes, and no selected node is an ancestor of another.
\<close>

theorem is_valid_cut_correct:
  assumes "finite C"
  shows "is_valid_cut f C \<longleftrightarrow>
    (\<forall>p \<in> C. node f p \<noteq> None) \<and> (\<forall>p \<in> C. \<forall>q \<in> C. starts_with q p \<longrightarrow> p = q)"
  using is_valid_cut_iff [OF assms] by (simp add: valid_cut_def antichain_def)

text \<open>
  C12: opening and packing a branch are inverse: a cut that \<open>open_branch\<close> turns into another
  one is what \<open>pack_branch\<close> makes of that one, and the other way round.
\<close>

theorem open_pack_roundtrip:
  assumes "finite C" "finite D"
  shows "open_branch f C b = Some D \<longleftrightarrow> pack_branch f D b = Some C"
  using pack_open [OF assms(1)] open_pack [OF assms(2)] by blast

text \<open>Opening or packing a branch of a valid cut gives a valid cut.\<close>

theorem open_pack_keep_valid:
  assumes "finite C" "open_branch f C b = Some D \<or> pack_branch f C b = Some D"
  shows "is_valid_cut f D"
proof -
  from assms(2) obtain cs where cs: "valid_cut f C" "node f b = Some (Branch cs)" "cs \<noteq> []"
    and D: "(b \<in> C \<and> D = (C - {b}) \<union> child b ` {0..<length cs})
      \<or> (child b ` {0..<length cs} \<subseteq> C \<and> D = insert b (C - child b ` {0..<length cs}))"
    unfolding open_branch_iff [OF assms(1)] pack_branch_iff [OF assms(1)] by blast
  then have "valid_cut f D" using open_valid [of f C b cs] pack_valid(1) [of f C b cs] by blast
  moreover have "finite D" using D assms(1) by auto
  ultimately show ?thesis by (simp add: is_valid_cut_iff)
qed

text \<open>
  C10: \<open>transition\<close> decides derivability. It succeeds exactly when every target node can be
  obtained from the source cut by opening committed branches into their children and packing
  committed children into their branch; otherwise it returns its error and never panics.
\<close>

theorem transition_iff_derivable:
  assumes "finite S" "finite T" "\<forall>p \<in> T. node f p \<noteq> None"
  shows "if \<forall>p \<in> T. derivable f S p then \<exists>t. transition f S T = Ok t else transition f S T = Err ()"
  using transition_decides [OF assms(1,2)] assms(3) by blast

text \<open>
  C11: the lists a transition returns are executable in their order: opening the branches
  parents first and then packing children first never meets a commitment that is not there
  yet, and the target cut is available at the end.
\<close>

theorem transition_order_executes:
  assumes "finite S" "finite T" "\<forall>p \<in> T. node f p \<noteq> None"
    and "transition_paths f S T = Ok (kept, opens, packs)"
  shows "\<exists>K. run_transition f S opens packs = Ok K \<and> T \<subseteq> K"
  using transition_runs [OF assms(1,2) _ assms(4)] assms(3) by blast

definition demo_forest :: commit_forest where
  "demo_forest = \<lparr>roots = [Leaf ''A'', Branch [Leaf ''B'', Branch [Leaf ''C'', Leaf ''D'']]]\<rparr>"

lemma is_valid_cut_correct_witness:
  "is_valid_cut demo_forest {NodePath 0 [], NodePath 1 [1]} \<and> \<not> is_valid_cut demo_forest {NodePath 1 [], NodePath 1 [1]}"
proof -
  have "starts_with (NodePath 1 [1]) (NodePath 1 [])" by (simp add: starts_with_def)
  moreover have "\<not> starts_with (NodePath 1 [1]) (NodePath 0 [])" "\<not> starts_with (NodePath 0 []) (NodePath 1 [1])"
    by (simp_all add: starts_with_def)
  moreover have "node demo_forest (NodePath 0 []) \<noteq> None" "node demo_forest (NodePath 1 [1]) \<noteq> None"
    by (simp_all add: node_def demo_forest_def)
  ultimately show ?thesis by (subst (1 2) is_valid_cut_correct) auto
qed

lemma open_pack_roundtrip_witness:
  "pack_branch demo_forest {NodePath 1 [0], NodePath 1 [1, 0], NodePath 1 [1, 1]} (NodePath 1 [1])
    = Some {NodePath 1 [0], NodePath 1 [1]}"
proof -
  have "open_branch demo_forest {NodePath 1 [0], NodePath 1 [1]} (NodePath 1 [1])
      = Some {NodePath 1 [0], NodePath 1 [1, 0], NodePath 1 [1, 1]}"
    by code_simp
  then show ?thesis using open_pack_roundtrip [of "{NodePath 1 [0], NodePath 1 [1]}"] by simp
qed

lemma open_pack_keep_valid_witness:
  "is_valid_cut demo_forest {NodePath 1 [0], NodePath 1 [1, 0], NodePath 1 [1, 1]}"
proof -
  have "open_branch demo_forest {NodePath 1 [0], NodePath 1 [1]} (NodePath 1 [1])
      = Some {NodePath 1 [0], NodePath 1 [1, 0], NodePath 1 [1, 1]}"
    by code_simp
  then show ?thesis
    by (intro open_pack_keep_valid [of "{NodePath 1 [0], NodePath 1 [1]}" demo_forest "NodePath 1 [1]"]) simp_all
qed

lemma transition_iff_derivable_witness:
  "\<exists>t. transition demo_forest {NodePath 0 [], NodePath 1 [0], NodePath 1 [1, 0], NodePath 1 [1, 1]}
    {NodePath 1 []} = Ok t"
proof -
  let ?S = "{NodePath 0 [], NodePath 1 [0], NodePath 1 [1, 0], NodePath 1 [1, 1]}"
  have n1: "node demo_forest (NodePath 1 []) = Some (Branch [Leaf ''B'', Branch [Leaf ''C'', Leaf ''D'']])"
    and n11: "node demo_forest (NodePath 1 [1]) = Some (Branch [Leaf ''C'', Leaf ''D''])"
    by (simp_all add: node_def demo_forest_def)
  have "derivable demo_forest ?S (NodePath 1 [1])"
    by (rule derivable.packed [OF n11]) (auto simp: less_Suc_eq numeral_2_eq_2 intro: derivable.selected)
  then have "derivable demo_forest ?S (NodePath 1 [])"
    by (intro derivable.packed [OF n1]) (auto simp: less_Suc_eq numeral_2_eq_2 intro: derivable.selected)
  then show ?thesis
    using transition_iff_derivable [of ?S "{NodePath 1 []}" demo_forest] n1 by simp
qed

lemma transition_order_executes_witness:
  "\<exists>K. run_transition demo_forest {NodePath 1 []} [NodePath 1 [], NodePath 1 [1]] [] = Ok K
    \<and> {NodePath 1 [1, 0]} \<subseteq> K"
proof -
  have "transition_paths demo_forest {NodePath 1 []} {NodePath 1 [1, 0]}
      = Ok ([], [NodePath 1 [], NodePath 1 [1]], [])"
    by code_simp
  moreover have "node demo_forest (NodePath 1 [1, 0]) \<noteq> None" by (simp add: node_def demo_forest_def)
  ultimately show ?thesis
    using transition_order_executes [of "{NodePath 1 []}" "{NodePath 1 [1, 0]}" demo_forest] by simp
qed

end
