(* ===== verification/Commitment_Plan.thy ===== *)
theory Commitment_Plan
  imports Route_Graph Commitment_Forest "HOL-Library.Multiset"
begin

text \<open>
  Commitment planning, the second half of \<^verbatim>\<open>src/routing/commitment.rs\<close>: validation of
  families and cohorts, construction of the forest with the paths of its actors and
  families, and the cut every actor carries. Indexing a map or a list with a missing key is
  a panic, as in the source; the lemmas show that validated constraints never reach one.
  The central result is that the cut of an emit target can always be derived from the cut
  of its source.
\<close>

section \<open>Constraints and errors\<close>

type_synonym families = "string list list"
type_synonym cohorts = "string set list"

record commitment_constraints =
  con_families :: families
  con_cohorts :: cohorts

record commit_plan =
  plan_forest :: commit_forest
  plan_cuts :: "(string, cut) btree"

record commitment_locations =
  actor_paths :: "(string, node_path) btree"
  family_paths :: "(nat, node_path) btree"

datatype constraint_error =
    EmptyFamily nat
  | UnknownFamilyActor nat string
  | DuplicateFamilyActor nat string
  | OverlappingFamilyActor string
  | EmptyCohort nat
  | UnknownCohortActor nat string
  | OverlappingCohortActor string

datatype cut_transition_error =
    UnknownSourceActor string
  | UnknownTargetActor string
  | IncompatibleCuts string string

section \<open>Validation\<close>

fun family_member_step ::
  "route_graph \<Rightarrow> nat \<Rightarrow> (string, nat) btree \<times> string set \<Rightarrow> string
     \<Rightarrow> (constraint_error, (string, nat) btree \<times> string set) outcome" where
  "family_member_step g family_index (family_by_actor, members) actor =
     (if actor \<notin> rg_actors g then Err (UnknownFamilyActor family_index actor)
      else if actor \<in> members then Err (DuplicateFamilyActor family_index actor)
      else if map_of family_by_actor actor \<noteq> None then Err (OverlappingFamilyActor actor)
      else Ok (bm_insert actor family_index family_by_actor, insert actor members))"

definition family_step ::
  "route_graph \<Rightarrow> (string, nat) btree \<Rightarrow> nat \<times> string list
     \<Rightarrow> (constraint_error, (string, nat) btree) outcome" where
  "family_step g family_by_actor entry =
     (case entry of (family_index, family) \<Rightarrow>
        if family = [] then Err (EmptyFamily family_index)
        else and_then (try_fold (family_member_step g family_index) (family_by_actor, {}) family)
               (\<lambda>(family_by_actor, _). Ok family_by_actor))"

definition validate_families ::
  "route_graph \<Rightarrow> families \<Rightarrow> (constraint_error, (string, nat) btree) outcome" where
  "validate_families g families = try_fold (family_step g) [] (List.enumerate 0 families)"

definition cohort_member_step ::
  "route_graph \<Rightarrow> nat \<Rightarrow> (string, nat) btree \<Rightarrow> string
     \<Rightarrow> (constraint_error, (string, nat) btree) outcome" where
  "cohort_member_step g cohort_index cohort_by_actor actor =
     (if actor \<notin> rg_actors g then Err (UnknownCohortActor cohort_index actor)
      else if map_of cohort_by_actor actor \<noteq> None then Err (OverlappingCohortActor actor)
      else Ok (bm_insert actor cohort_index cohort_by_actor))"

definition cohort_step ::
  "route_graph \<Rightarrow> (string, nat) btree \<Rightarrow> nat \<times> string set
     \<Rightarrow> (constraint_error, (string, nat) btree) outcome" where
  "cohort_step g cohort_by_actor entry =
     (case entry of (cohort_index, cohort) \<Rightarrow>
        if cohort = {} then Err (EmptyCohort cohort_index)
        else try_fold (cohort_member_step g cohort_index) cohort_by_actor (sorted_list_of_set cohort))"

definition validate_cohorts ::
  "route_graph \<Rightarrow> cohorts \<Rightarrow> (constraint_error, (string, nat) btree) outcome" where
  "validate_cohorts g cohorts = try_fold (cohort_step g) [] (List.enumerate 0 cohorts)"

section \<open>Building the forest\<close>

definition add_leaf_paths ::
  "node_path \<Rightarrow> string list \<Rightarrow> (string, node_path) btree \<Rightarrow> (string, node_path) btree" where
  "add_leaf_paths family_path family paths =
     fold (\<lambda>(child_index, actor). bm_insert actor (child family_path child_index))
       (List.enumerate 0 family) paths"

definition build_step ::
  "families \<Rightarrow> (string, nat) btree
     \<Rightarrow> commitment_node list \<times> commitment_locations \<times> nat set \<Rightarrow> string
     \<Rightarrow> ('e, commitment_node list \<times> commitment_locations \<times> nat set) outcome" where
  "build_step families family_by_actor st actor =
     (case st of (forest_roots, locations, emitted_families) \<Rightarrow>
        (case map_of family_by_actor actor of
           None \<Rightarrow>
             Ok (forest_roots @ [Leaf actor],
                 locations\<lparr>actor_paths := bm_insert actor (root_path (length forest_roots)) (actor_paths locations)\<rparr>,
                 emitted_families)
         | Some family_index \<Rightarrow>
             if family_index \<in> emitted_families then Ok (forest_roots, locations, emitted_families)
             else if family_index < length families then
               let family_path = root_path (length forest_roots); family = families ! family_index in
               Ok (forest_roots @ [Branch (map Leaf family)],
                   \<lparr>actor_paths = add_leaf_paths family_path family (actor_paths locations),
                    family_paths = bm_insert family_index family_path (family_paths locations)\<rparr>,
                   insert family_index emitted_families)
             else Panic))"

definition build_commitment_forest ::
  "route_graph \<Rightarrow> families \<Rightarrow> (string, nat) btree
     \<Rightarrow> ('e, commit_forest \<times> commitment_locations) outcome" where
  "build_commitment_forest g families family_by_actor =
     and_then
       (try_fold (build_step families family_by_actor)
          ([], \<lparr>actor_paths = [], family_paths = []\<rparr>, {}) (sorted_list_of_set (rg_actors g)))
       (\<lambda>(forest_roots, locations, _). Ok (\<lparr>roots = forest_roots\<rparr>, locations))"

definition commitment_forest ::
  "route_graph \<Rightarrow> families \<Rightarrow> (constraint_error, commit_forest) outcome" where
  "commitment_forest g families =
     and_then (validate_families g families) (\<lambda>family_by_actor.
       and_then (build_commitment_forest g families family_by_actor) (\<lambda>(forest, _). Ok forest))"

section \<open>Cuts\<close>

definition need_path ::
  "(string, nat) btree \<Rightarrow> commitment_locations \<Rightarrow> string \<Rightarrow> ('e, node_path) outcome" where
  "need_path family_by_actor locations actor =
     (case map_of family_by_actor actor of
        None \<Rightarrow> expect (map_of (actor_paths locations) actor)
      | Some family \<Rightarrow> expect (map_of (family_paths locations) family))"

definition cut_for_needs ::
  "string set \<Rightarrow> (string, nat) btree \<Rightarrow> commitment_locations \<Rightarrow> ('e, cut) outcome" where
  "cut_for_needs actor_needs family_by_actor locations =
     and_then (try_map (need_path family_by_actor locations) (sorted_list_of_set actor_needs))
       (\<lambda>paths. Ok (set paths))"

definition expose_step ::
  "families \<Rightarrow> (string, nat) btree \<Rightarrow> commitment_locations \<Rightarrow> cut \<times> nat set \<Rightarrow> string
     \<Rightarrow> ('e, cut \<times> nat set) outcome" where
  "expose_step families family_by_actor locations st actor =
     (case st of (selected, opened_families) \<Rightarrow>
        (case map_of family_by_actor actor of
           None \<Rightarrow> and_then (expect (map_of (actor_paths locations) actor))
                     (\<lambda>path. Ok (insert path selected, opened_families))
         | Some family_index \<Rightarrow>
             if family_index \<in> opened_families then Ok (selected, opened_families)
             else
               and_then (expect (map_of (family_paths locations) family_index)) (\<lambda>family_path.
                 if family_index < length families then
                   and_then
                     (try_map (\<lambda>member. expect (map_of (actor_paths locations) member))
                        (families ! family_index))
                     (\<lambda>paths. Ok ((selected - {family_path}) \<union> set paths,
                                   insert family_index opened_families))
                 else Panic)))"

definition expose_actors ::
  "cut \<Rightarrow> string set \<Rightarrow> families \<Rightarrow> (string, nat) btree \<Rightarrow> commitment_locations
     \<Rightarrow> ('e, cut) outcome" where
  "expose_actors selected actors families family_by_actor locations =
     and_then
       (try_fold (expose_step families family_by_actor locations) (selected, {})
          (sorted_list_of_set actors))
       (\<lambda>(selected, _). Ok selected)"

section \<open>The plan\<close>

text \<open>One actor of the planning loop, outside and inside a cohort.\<close>

definition plan_single ::
  "route_graph \<Rightarrow> families \<Rightarrow> (string, nat) btree \<Rightarrow> commitment_locations \<Rightarrow> (string, string set) btree
     \<Rightarrow> string \<Rightarrow> ('e, cut) outcome" where
  "plan_single g families family_by_actor locations actor_needs actor =
     and_then (expect (map_of actor_needs actor)) (\<lambda>needs.
     and_then (cut_for_needs needs family_by_actor locations) (\<lambda>selected.
       case direct_consumes g actor of
         Some consumes \<Rightarrow> expose_actors selected consumes families family_by_actor locations
       | None \<Rightarrow> Ok selected))"

definition plan_cohort ::
  "route_graph \<Rightarrow> families \<Rightarrow> (string, nat) btree \<Rightarrow> commitment_locations \<Rightarrow> (string, string set) btree
     \<Rightarrow> string set \<Rightarrow> ('e, cut) outcome" where
  "plan_cohort g families family_by_actor locations actor_needs cohort =
     (case sorted_list_of_set cohort of
        [] \<Rightarrow> Panic
      | first # _ \<Rightarrow>
          and_then (expect (map_of actor_needs first)) (\<lambda>cohort_needs.
          and_then (cut_for_needs cohort_needs family_by_actor locations) (\<lambda>selected.
            let exposed_actors =
              cohort \<union> (\<Union>member \<in> cohort. case direct_consumes g member of None \<Rightarrow> {} | Some c \<Rightarrow> c) in
            expose_actors selected exposed_actors families family_by_actor locations)))"

definition plan_step ::
  "route_graph \<Rightarrow> commitment_constraints \<Rightarrow> (string, nat) btree \<Rightarrow> (string, nat) btree
     \<Rightarrow> commitment_locations \<Rightarrow> (string, string set) btree
     \<Rightarrow> (string, cut) btree \<Rightarrow> string \<Rightarrow> ('e, (string, cut) btree) outcome" where
  "plan_step g constraints family_by_actor cohort_by_actor locations actor_needs cuts actor =
     (if map_of cuts actor \<noteq> None then Ok cuts
      else case map_of cohort_by_actor actor of
        None \<Rightarrow>
          and_then (plan_single g (con_families constraints) family_by_actor locations actor_needs actor)
            (\<lambda>selected. Ok (bm_insert actor selected cuts))
      | Some cohort_index \<Rightarrow>
          if cohort_index < length (con_cohorts constraints) then
            let cohort = con_cohorts constraints ! cohort_index in
            and_then (plan_cohort g (con_families constraints) family_by_actor locations actor_needs cohort)
              (\<lambda>selected. Ok (fold (\<lambda>member. bm_insert member selected) (sorted_list_of_set cohort) cuts))
          else Panic)"

definition commitment_plan ::
  "route_graph \<Rightarrow> commitment_constraints \<Rightarrow> (constraint_error, commit_plan) outcome" where
  "commitment_plan g constraints =
     and_then (validate_families g (con_families constraints)) (\<lambda>family_by_actor.
     and_then (validate_cohorts g (con_cohorts constraints)) (\<lambda>cohort_by_actor.
     and_then (build_commitment_forest g (con_families constraints) family_by_actor) (\<lambda>(forest, locations).
     and_then (try_fold add_emit_clique g (con_cohorts constraints)) (\<lambda>needs_graph.
     and_then (needs needs_graph) (\<lambda>actor_needs.
     and_then
       (try_fold (plan_step g constraints family_by_actor cohort_by_actor locations actor_needs) []
          (sorted_list_of_set (rg_actors g)))
       (\<lambda>cuts. Ok \<lparr>plan_forest = forest, plan_cuts = cuts\<rparr>))))))"

definition cut_nodes :: "commit_plan \<Rightarrow> string \<Rightarrow> (unit, commitment_node list) outcome" where
  "cut_nodes plan actor =
     (case map_of (plan_cuts plan) actor of
        None \<Rightarrow> Err ()
      | Some selected \<Rightarrow> try_map (\<lambda>path. expect (node (plan_forest plan) path)) (sorted_list_of_set selected))"

definition cut_transition ::
  "commit_plan \<Rightarrow> string \<Rightarrow> string \<Rightarrow> (cut_transition_error, transition_ops) outcome" where
  "cut_transition plan source_actor target_actor =
     and_then (ok_or (map_of (plan_cuts plan) source_actor) (UnknownSourceActor source_actor)) (\<lambda>source.
     and_then (ok_or (map_of (plan_cuts plan) target_actor) (UnknownTargetActor target_actor)) (\<lambda>target.
       map_err (\<lambda>_. IncompatibleCuts source_actor target_actor)
         (transition (plan_forest plan) source target)))"

section \<open>What validation accepts\<close>

definition groups_disjoint :: "'a set list \<Rightarrow> bool" where
  "groups_disjoint groups \<longleftrightarrow>
     (\<forall>j < length groups. \<forall>i < j. groups ! i \<inter> groups ! j = {})"

definition families_ok :: "route_graph \<Rightarrow> families \<Rightarrow> bool" where
  "families_ok g families \<longleftrightarrow>
     (\<forall>family \<in> set families. family \<noteq> [] \<and> distinct family \<and> set family \<subseteq> rg_actors g)
     \<and> groups_disjoint (map set families)"

definition cohorts_ok :: "route_graph \<Rightarrow> cohorts \<Rightarrow> bool" where
  "cohorts_ok g cohorts \<longleftrightarrow>
     (\<forall>cohort \<in> set cohorts. cohort \<noteq> {} \<and> cohort \<subseteq> rg_actors g) \<and> groups_disjoint cohorts"

text \<open>The index map of disjoint groups: every member carries the index of its group.\<close>

definition indexes :: "(string, nat) btree \<Rightarrow> string set list \<Rightarrow> bool" where
  "indexes m groups \<longleftrightarrow> (\<forall>a i. map_of m a = Some i \<longleftrightarrow> i < length groups \<and> a \<in> groups ! i)"

lemma groups_disjoint_unique:
  "groups_disjoint groups \<Longrightarrow> i < length groups \<Longrightarrow> j < length groups
     \<Longrightarrow> a \<in> groups ! i \<Longrightarrow> a \<in> groups ! j \<Longrightarrow> i = j"
  unfolding groups_disjoint_def by (metis disjoint_iff linorder_neqE_nat)

lemma indexes_None: "indexes m groups \<Longrightarrow> map_of m a = None \<longleftrightarrow> (\<forall>G \<in> set groups. a \<notin> G)"
  unfolding indexes_def by (metis in_set_conv_nth nth_mem option.exhaust option.distinct(1))

lemma indexes_snoc:
  assumes "indexes m groups" "\<And>a. a \<in> G \<Longrightarrow> map_of m a = None"
    and "\<And>a. map_of m' a = (if a \<in> G then Some (length groups) else map_of m a)"
  shows "indexes m' (groups @ [G])"
  unfolding indexes_def
proof (intro allI)
  fix a i
  show "map_of m' a = Some i \<longleftrightarrow> i < length (groups @ [G]) \<and> a \<in> (groups @ [G]) ! i"
  proof (cases "a \<in> G")
    case True
    then have "\<not> (i < length groups \<and> a \<in> groups ! i)"
      using assms(1,2) unfolding indexes_def by (metis option.distinct(1))
    with True assms(3) show ?thesis by (auto simp: nth_append less_Suc_eq)
  next
    case False
    with assms(1,3) show ?thesis by (auto simp: indexes_def nth_append less_Suc_eq)
  qed
qed

lemma family_members_decide:
  "if distinct family \<and> set family \<subseteq> rg_actors g \<and> (\<forall>a \<in> set family. map_of m a = None)
   then \<exists>m'. try_fold (family_member_step g i) (m, {}) family = Ok (m', set family)
     \<and> (\<forall>a. map_of m' a = (if a \<in> set family then Some i else map_of m a))
   else \<exists>e. try_fold (family_member_step g i) (m, {}) family = Err e"
proof -
  let ?I = "\<lambda>j (m', members). members = set (take j family)
    \<and> (\<forall>a. map_of m' a = (if a \<in> set (take j family) then Some i else map_of m a))"
  let ?Q = "\<lambda>j. family ! j \<in> rg_actors g \<and> family ! j \<notin> set (take j family) \<and> map_of m (family ! j) = None"
  have loop: "if \<forall>j < length family. ?Q j
    then \<exists>st. try_fold (family_member_step g i) (m, {}) family = Ok st \<and> ?I (length family) st
    else \<exists>e. try_fold (family_member_step g i) (m, {}) family = Err e"
  proof (rule try_fold_nth [where I = ?I])
    fix j st assume j: "j < length family" and inv: "?I j st"
    have "set (take (Suc j) family) = insert (family ! j) (set (take j family))"
      using j by (simp add: take_Suc_conv_app_nth)
    then show "if ?Q j then \<exists>st'. family_member_step g i st (family ! j) = Ok st' \<and> ?I (Suc j) st'
        else \<exists>e. family_member_step g i st (family ! j) = Err e"
      using inv by (cases st) auto
  qed simp
  have "(\<forall>j < length family. ?Q j) \<longleftrightarrow>
      distinct family \<and> set family \<subseteq> rg_actors g \<and> (\<forall>a \<in> set family. map_of m a = None)"
    by (auto simp: distinct_take_iff all_set_conv_all_nth subset_iff in_set_conv_nth)
  with loop show ?thesis by (auto split: if_splits)
qed

lemma groups_disjoint_snoc:
  "groups_disjoint (groups @ [G]) \<longleftrightarrow> groups_disjoint groups \<and> (\<forall>H \<in> set groups. H \<inter> G = {})"
proof -
  have "groups_disjoint (groups @ [G]) \<longleftrightarrow>
      (\<forall>j < length groups. \<forall>i < j. (groups @ [G]) ! i \<inter> (groups @ [G]) ! j = {})
      \<and> (\<forall>i < length groups. (groups @ [G]) ! i \<inter> G = {})"
    by (simp add: groups_disjoint_def All_less_Suc conj_commute)
  also have "(\<forall>j < length groups. \<forall>i < j. (groups @ [G]) ! i \<inter> (groups @ [G]) ! j = {})
      \<longleftrightarrow> groups_disjoint groups"
    by (simp add: groups_disjoint_def nth_append cong: imp_cong)
  also have "(\<forall>i < length groups. (groups @ [G]) ! i \<inter> G = {}) \<longleftrightarrow> (\<forall>H \<in> set groups. H \<inter> G = {})"
    by (simp add: nth_append all_set_conv_all_nth)
  finally show ?thesis .
qed

text \<open>
  Both validations visit groups by index and accept one exactly when it is a legal group
  disjoint from the earlier ones.
\<close>

lemma validate_groups:
  assumes step: "\<And>m j. j < length groups \<Longrightarrow> indexes m (take j (map grp groups)) \<Longrightarrow>
      if legal (groups ! j) \<and> (\<forall>a \<in> grp (groups ! j). map_of m a = None)
      then \<exists>m'. step m (j, groups ! j) = Ok m'
        \<and> (\<forall>a. map_of m' a = (if a \<in> grp (groups ! j) then Some j else map_of m a))
      else \<exists>e. step m (j, groups ! j) = Err e"
  shows "if (\<forall>x \<in> set groups. legal x) \<and> groups_disjoint (map grp groups)
    then \<exists>m. try_fold step [] (List.enumerate 0 groups) = Ok m \<and> indexes m (map grp groups)
    else \<exists>e. try_fold step [] (List.enumerate 0 groups) = Err e"
proof -
  let ?G = "map grp groups" and ?xs = "List.enumerate 0 groups"
  let ?Q = "\<lambda>j. legal (groups ! j) \<and> (\<forall>H \<in> set (take j ?G). H \<inter> grp (groups ! j) = {})"
  have loop: "if \<forall>j < length ?xs. ?Q j
    then \<exists>m. try_fold step [] ?xs = Ok m \<and> indexes m (take (length ?xs) ?G)
    else \<exists>e. try_fold step [] ?xs = Err e"
  proof (rule try_fold_nth [where I = "\<lambda>j m. indexes m (take j ?G)"])
    show "indexes [] (take 0 ?G)" by (simp add: indexes_def)
    fix j m assume j: "j < length ?xs" and m: "indexes m (take j ?G)"
    from j have x: "?xs ! j = (j, groups ! j)" "j < length groups" by (simp_all add: nth_enumerate_eq)
    have fresh: "(\<forall>a \<in> grp (groups ! j). map_of m a = None) \<longleftrightarrow>
        (\<forall>H \<in> set (take j ?G). H \<inter> grp (groups ! j) = {})"
      unfolding indexes_None [OF m] by blast
    have "take (Suc j) ?G = take j ?G @ [grp (groups ! j)]"
      using x(2) by (simp add: take_Suc_conv_app_nth)
    then show "if ?Q j then \<exists>m'. step m (?xs ! j) = Ok m' \<and> indexes m' (take (Suc j) ?G)
        else \<exists>e. step m (?xs ! j) = Err e"
      using step [OF x(2) m] fresh x
      by (auto split: if_splits intro!: indexes_snoc [OF m])
  qed
  have "groups_disjoint (take n ?G) \<longleftrightarrow> (\<forall>j < n. \<forall>H \<in> set (take j ?G). H \<inter> grp (groups ! j) = {})"
    if "n \<le> length groups" for n
    using that
  proof (induction n)
    case (Suc n)
    then show ?case
      by (simp add: take_Suc_conv_app_nth groups_disjoint_snoc All_less_Suc conj_commute)
  qed (simp add: groups_disjoint_def)
  from this [of "length groups"] have "(\<forall>j < length ?xs. ?Q j) \<longleftrightarrow>
      (\<forall>x \<in> set groups. legal x) \<and> groups_disjoint ?G"
    by (auto simp: all_set_conv_all_nth)
  with loop show ?thesis by (auto split: if_splits)
qed

lemma validate_families_decide:
  "if families_ok g families
   then \<exists>m. validate_families g families = Ok m \<and> indexes m (map set families)
   else \<exists>e. validate_families g families = Err e"
proof -
  let ?legal = "\<lambda>family. family \<noteq> [] \<and> distinct family \<and> set family \<subseteq> rg_actors g"
  have "if ?legal family \<and> (\<forall>a \<in> set family. map_of m a = None)
      then \<exists>m'. family_step g m (j, family) = Ok m'
        \<and> (\<forall>a. map_of m' a = (if a \<in> set family then Some j else map_of m a))
      else \<exists>e. family_step g m (j, family) = Err e" for m j family
    using family_members_decide [of family g m j] by (auto simp: family_step_def split: if_splits)
  from validate_groups [of families set ?legal "family_step g", OF this]
  show ?thesis unfolding validate_families_def families_ok_def .
qed

lemma cohort_members_decide:
  assumes "distinct xs"
  shows "if set xs \<subseteq> rg_actors g \<and> (\<forall>a \<in> set xs. map_of m a = None)
   then \<exists>m'. try_fold (cohort_member_step g i) m xs = Ok m'
     \<and> (\<forall>a. map_of m' a = (if a \<in> set xs then Some i else map_of m a))
   else \<exists>e. try_fold (cohort_member_step g i) m xs = Err e"
proof -
  let ?I = "\<lambda>j m'. \<forall>a. map_of m' a = (if a \<in> set (take j xs) then Some i else map_of m a)"
  let ?Q = "\<lambda>j. xs ! j \<in> rg_actors g \<and> map_of m (xs ! j) = None"
  have loop: "if \<forall>j < length xs. ?Q j
    then \<exists>st. try_fold (cohort_member_step g i) m xs = Ok st \<and> ?I (length xs) st
    else \<exists>e. try_fold (cohort_member_step g i) m xs = Err e"
  proof (rule try_fold_nth [where I = ?I])
    fix j st assume j: "j < length xs" and inv: "?I j st"
    have "set (take (Suc j) xs) = insert (xs ! j) (set (take j xs))"
      using j by (simp add: take_Suc_conv_app_nth)
    moreover have "xs ! j \<notin> set (take j xs)" using assms j by (simp add: distinct_take_iff)
    ultimately show "if ?Q j then \<exists>st'. cohort_member_step g i st (xs ! j) = Ok st' \<and> ?I (Suc j) st'
        else \<exists>e. cohort_member_step g i st (xs ! j) = Err e"
      using inv by (auto simp: cohort_member_step_def)
  qed simp
  have "(\<forall>j < length xs. ?Q j) \<longleftrightarrow> set xs \<subseteq> rg_actors g \<and> (\<forall>a \<in> set xs. map_of m a = None)"
    by (auto simp: all_set_conv_all_nth subset_iff in_set_conv_nth)
  with loop show ?thesis by (auto split: if_splits)
qed

lemma validate_cohorts_decide:
  assumes "\<And>cohort. cohort \<in> set cohorts \<Longrightarrow> finite cohort"
  shows "if cohorts_ok g cohorts
   then \<exists>m. validate_cohorts g cohorts = Ok m \<and> indexes m cohorts
   else \<exists>e. validate_cohorts g cohorts = Err e"
proof -
  let ?legal = "\<lambda>cohort. cohort \<noteq> {} \<and> cohort \<subseteq> rg_actors g"
  have "if ?legal (cohorts ! j) \<and> (\<forall>a \<in> id (cohorts ! j). map_of m a = None)
      then \<exists>m'. cohort_step g m (j, cohorts ! j) = Ok m'
        \<and> (\<forall>a. map_of m' a = (if a \<in> id (cohorts ! j) then Some j else map_of m a))
      else \<exists>e. cohort_step g m (j, cohorts ! j) = Err e" if "j < length cohorts" for m j
  proof -
    have "set (sorted_list_of_set (cohorts ! j)) = cohorts ! j" using assms that by simp
    then show ?thesis
      using cohort_members_decide [of "sorted_list_of_set (cohorts ! j)" g m j]
      by (auto simp: cohort_step_def split: if_splits)
  qed
  from validate_groups [of cohorts id ?legal "cohort_step g", OF this]
  show ?thesis unfolding validate_cohorts_def cohorts_ok_def list.map_id id_apply .
qed

section \<open>Where the actors and families lie\<close>

text \<open>
  \<open>located\<close> is what construction promises to planning: an actor outside every family is a
  root leaf, a family is a root branch whose children are the leaves of its members in
  their declared order, and the location maps hold exactly these paths.
\<close>

definition kin :: "(string, nat) btree \<Rightarrow> nat \<Rightarrow> string set" where
  "kin m i = {a. map_of m a = Some i}"

definition standalone_at ::
  "commitment_node list \<Rightarrow> commitment_locations \<Rightarrow> string \<Rightarrow> bool" where
  "standalone_at rts loc a \<longleftrightarrow>
     (\<exists>r < length rts. map_of (actor_paths loc) a = Some (root_path r) \<and> rts ! r = Leaf a)"

definition family_at ::
  "commitment_node list \<Rightarrow> commitment_locations \<Rightarrow> nat \<Rightarrow> string list \<Rightarrow> bool" where
  "family_at rts loc i family \<longleftrightarrow>
     (\<exists>r < length rts. map_of (family_paths loc) i = Some (root_path r)
        \<and> rts ! r = Branch (map Leaf family)
        \<and> (\<forall>j < length family. map_of (actor_paths loc) (family ! j) = Some (child (root_path r) j)))"

definition located ::
  "string set \<Rightarrow> families \<Rightarrow> (string, nat) btree \<Rightarrow> commitment_node list \<Rightarrow> commitment_locations \<Rightarrow> bool" where
  "located actors families m rts loc \<longleftrightarrow>
     (\<forall>a \<in> actors. map_of m a = None \<longrightarrow> standalone_at rts loc a)
     \<and> (\<forall>i < length families. family_at rts loc i (families ! i))"

text \<open>The roots in sorted actor order: a family stands where its least member does.\<close>

definition root_of :: "families \<Rightarrow> string \<Rightarrow> commitment_node list" where
  "root_of families a =
     (case find (\<lambda>family. a \<in> set family) families of
        None \<Rightarrow> [Leaf a]
      | Some family \<Rightarrow> if a = Min (set family) then [Branch (map Leaf family)] else [])"

definition forest_spec :: "string set \<Rightarrow> families \<Rightarrow> commit_forest" where
  "forest_spec actors families = \<lparr>roots = concat (map (root_of families) (sorted_list_of_set actors))\<rparr>"

lemma indexes_kin:
  "indexes m (map set families) \<Longrightarrow> i < length families \<Longrightarrow> kin m i = set (families ! i)"
  unfolding indexes_def kin_def by auto

lemma indexes_Some:
  "indexes m (map set families) \<Longrightarrow> map_of m a = Some i \<Longrightarrow> i < length families \<and> a \<in> set (families ! i)"
  unfolding indexes_def by auto

lemma find_family:
  assumes "indexes m (map set families)"
  shows "find (\<lambda>family. a \<in> set family) families = map_option ((!) families) (map_of m a)"
proof (cases "map_of m a")
  case None
  then have "find (\<lambda>family. a \<in> set family) families = None"
    using indexes_None [OF assms, of a] by (simp add: find_None_iff)
  with None show ?thesis by simp
next
  case (Some i)
  then have i: "i < length families" "a \<in> set (families ! i)" using assms indexes_Some by blast+
  have "a \<notin> set (families ! j)" if "j < i" for j
    using Some i that assms unfolding indexes_def
    by (metis (no_types, lifting) length_map nth_map option.inject order.strict_trans order_less_irrefl)
  with i Some show ?thesis by (auto simp: find_Some_iff intro!: exI [of _ i])
qed

lemma root_of_eq:
  assumes "indexes m (map set families)"
  shows "root_of families a = (case map_of m a of None \<Rightarrow> [Leaf a]
    | Some i \<Rightarrow> if a = Min (set (families ! i)) then [Branch (map Leaf (families ! i))] else [])"
  using find_family [OF assms, of a] by (simp add: root_of_def split: option.splits)

lemma add_leaf_paths_other:
  "a \<notin> set family \<Longrightarrow> map_of (add_leaf_paths p family paths) a = map_of paths a"
proof -
  have "a \<notin> set family \<Longrightarrow>
    map_of (fold (\<lambda>(j, b). bm_insert b (child p j)) (List.enumerate n family) paths) a = map_of paths a" for n
    by (induction family arbitrary: n paths) auto
  then show "a \<notin> set family \<Longrightarrow> ?thesis" by (simp add: add_leaf_paths_def)
qed

lemma add_leaf_paths_member:
  assumes "distinct family" "j < length family"
  shows "map_of (add_leaf_paths p family paths) (family ! j) = Some (child p j)"
proof -
  have "distinct family \<Longrightarrow> j < length family \<Longrightarrow>
    map_of (fold (\<lambda>(j, b). bm_insert b (child p j)) (List.enumerate n family) paths) (family ! j)
      = Some (child p (n + j))" for n
  proof (induction family arbitrary: n paths j)
    case (Cons b family)
    have other: "b \<notin> set family \<Longrightarrow>
      map_of (fold (\<lambda>(j, b). bm_insert b (child p j)) (List.enumerate n family) paths) b = map_of paths b"
      for n paths
      by (induction family arbitrary: n paths) auto
    show ?case
    proof (cases j)
      case 0
      with Cons.prems show ?thesis by (simp add: other)
    next
      case (Suc k)
      with Cons.prems Cons.IH [of k "Suc n"] show ?thesis by simp
    qed
  qed simp
  with assms show ?thesis by (simp add: add_leaf_paths_def)
qed

lemma standalone_at_mono:
  "standalone_at rts loc a \<Longrightarrow> map_of (actor_paths loc') a = map_of (actor_paths loc) a
     \<Longrightarrow> standalone_at (rts @ ns) loc' a"
  unfolding standalone_at_def by (metis length_append nth_append trans_less_add1)

lemma family_at_mono:
  "family_at rts loc i family \<Longrightarrow> map_of (family_paths loc') i = map_of (family_paths loc) i
     \<Longrightarrow> (\<And>a. a \<in> set family \<Longrightarrow> map_of (actor_paths loc') a = map_of (actor_paths loc) a)
     \<Longrightarrow> family_at (rts @ ns) loc' i family"
  unfolding family_at_def by (metis length_append nth_append nth_mem trans_less_add1)

text \<open>
  The construction loop: after the actors \<open>ys\<close>, the roots are those of \<open>ys\<close> and everything
  that mentions one of them is located.
\<close>

definition build_inv ::
  "families \<Rightarrow> (string, nat) btree \<Rightarrow> string list
     \<Rightarrow> commitment_node list \<times> commitment_locations \<times> nat set \<Rightarrow> bool" where
  "build_inv families m ys st \<longleftrightarrow> (case st of (rts, loc, emitted) \<Rightarrow>
     rts = concat (map (root_of families) ys)
     \<and> emitted = {i. kin m i \<inter> set ys \<noteq> {}}
     \<and> (\<forall>a \<in> set ys. map_of m a = None \<longrightarrow> standalone_at rts loc a)
     \<and> (\<forall>i \<in> emitted. family_at rts loc i (families ! i)))"

lemma first_is_Min:
  assumes "sorted_wrt (<) (ys @ x # zs)" "finite F" "x \<in> F" "F \<subseteq> set (ys @ x # zs)"
  shows "x = Min F \<longleftrightarrow> F \<inter> set ys = {}"
proof
  assume "x = Min F"
  then show "F \<inter> set ys = {}" using assms by (fastforce simp: sorted_wrt_append dest: Min_le)
next
  assume "F \<inter> set ys = {}"
  have "x \<le> y" if "y \<in> F" for y
  proof -
    have "y \<in> set (x # zs)" using that assms(4) \<open>F \<inter> set ys = {}\<close> by auto
    then show ?thesis using assms(1) by (auto simp: sorted_wrt_append less_imp_le)
  qed
  then show "x = Min F" using assms(2,3) by (intro Min_eqI [symmetric]) auto
qed

lemma build_step_inv:
  assumes m: "indexes m (map set families)" and dist: "\<And>i. i < length families \<Longrightarrow> distinct (families ! i)"
    and xs: "sorted_wrt (<) (ys @ x # zs)" "\<And>i. kin m i \<subseteq> set (ys @ x # zs)"
    and inv: "build_inv families m ys st"
  shows "\<exists>st'. build_step families m st x = (Ok st' :: ('e, _) outcome) \<and> build_inv families m (ys @ [x]) st'"
proof -
  obtain rts loc emitted where st: "st = (rts, loc, emitted)" by (cases st)
  with inv have i: "rts = concat (map (root_of families) ys)" "emitted = {i. kin m i \<inter> set ys \<noteq> {}}"
    "\<And>a. a \<in> set ys \<Longrightarrow> map_of m a = None \<Longrightarrow> standalone_at rts loc a"
    "\<And>i. i \<in> emitted \<Longrightarrow> family_at rts loc i (families ! i)"
    by (auto simp: build_inv_def)
  have new: "x \<notin> set ys" using xs(1) by (auto simp: sorted_wrt_append)
  have in_kin: "kin m k = set (families ! k)" if "k \<in> emitted" for k
  proof -
    from that i(2) obtain a where "map_of m a = Some k" by (auto simp: kin_def)
    then show ?thesis using indexes_Some [OF m] indexes_kin [OF m] by blast
  qed
  show ?thesis
  proof (cases "map_of m x")
    case None
    define loc' where
      "loc' = loc\<lparr>actor_paths := bm_insert x (root_path (length rts)) (actor_paths loc)\<rparr>"
    have "standalone_at (rts @ [Leaf x]) loc' x"
      unfolding standalone_at_def by (intro exI [of _ "length rts"]) (simp add: loc'_def)
    moreover have "standalone_at (rts @ [Leaf x]) loc' a" if "a \<in> set ys" "map_of m a = None" for a
      using new that by (intro standalone_at_mono [OF i(3)]) (auto simp: loc'_def)
    moreover have "family_at (rts @ [Leaf x]) loc' k (families ! k)" if "k \<in> emitted" for k
    proof (rule family_at_mono [OF i(4) [OF that]])
      have "x \<notin> kin m k" using None by (simp add: kin_def)
      then show "map_of (actor_paths loc') a = map_of (actor_paths loc) a" if "a \<in> set (families ! k)" for a
        using in_kin [OF \<open>k \<in> emitted\<close>] that by (auto simp: loc'_def)
    qed (simp add: loc'_def)
    moreover have "{k. kin m k \<inter> set (ys @ [x]) \<noteq> {}} = emitted" using None i(2) by (auto simp: kin_def)
    ultimately have "build_inv families m (ys @ [x]) (rts @ [Leaf x], loc', emitted)"
      using None i(1) by (auto simp: build_inv_def root_of_eq [OF m])
    then show ?thesis using None by (simp add: st build_step_def loc'_def)
  next
    case (Some k)
    then have k: "k < length families" "x \<in> set (families ! k)" using indexes_Some [OF m] by blast+
    then have kin_k: "kin m k = set (families ! k)" using indexes_kin [OF m] by blast
    have em': "{k. kin m k \<inter> set (ys @ [x]) \<noteq> {}} = insert k emitted"
      using Some i(2) by (auto simp: kin_def)
    have first: "x = Min (set (families ! k)) \<longleftrightarrow> k \<notin> emitted"
      using first_is_Min [OF xs(1), of "kin m k"] xs(2) k i(2) kin_k by (auto simp: Int_commute)
    show ?thesis
    proof (cases "k \<in> emitted")
      case True
      then have "build_inv families m (ys @ [x]) st"
        using i Some em' first by (auto simp: st build_inv_def root_of_eq [OF m])
      then show ?thesis using Some True by (simp add: st build_step_def)
    next
      case False
      define loc' where "loc' = \<lparr>actor_paths = add_leaf_paths (root_path (length rts)) (families ! k) (actor_paths loc),
        family_paths = bm_insert k (root_path (length rts)) (family_paths loc)\<rparr>"
      define rts' where "rts' = rts @ [Branch (map Leaf (families ! k))]"
      have "family_at rts' loc' k (families ! k)"
        unfolding family_at_def
        by (intro exI [of _ "length rts"])
          (simp add: loc'_def rts'_def add_leaf_paths_member dist [OF k(1)])
      moreover have "family_at rts' loc' l (families ! l)" if "l \<in> emitted" for l
        unfolding rts'_def
      proof (rule family_at_mono [OF i(4) [OF that]])
        have "l \<noteq> k" using that False by blast
        then show "map_of (family_paths loc') l = map_of (family_paths loc) l" by (simp add: loc'_def)
        have "kin m l \<inter> kin m k = {}" using \<open>l \<noteq> k\<close> by (auto simp: kin_def)
        then show "map_of (actor_paths loc') a = map_of (actor_paths loc) a" if "a \<in> set (families ! l)" for a
          using that in_kin [OF \<open>l \<in> emitted\<close>] kin_k by (auto simp: loc'_def add_leaf_paths_other)
      qed
      moreover have "standalone_at rts' loc' a" if "a \<in> set ys" "map_of m a = None" for a
      proof -
        have "a \<notin> kin m k" using that by (simp add: kin_def)
        then have "a \<notin> set (families ! k)" using kin_k by simp
        then show ?thesis unfolding rts'_def
          by (intro standalone_at_mono [OF i(3) [OF that]]) (simp add: loc'_def add_leaf_paths_other)
      qed
      ultimately have "build_inv families m (ys @ [x]) (rts', loc', insert k emitted)"
        using Some False first i(1) em' by (auto simp: build_inv_def root_of_eq [OF m] rts'_def)
      then show ?thesis using Some False k by (simp add: st build_step_def loc'_def rts'_def Let_def)
    qed
  qed
qed

lemma build_located:
  assumes "finite (rg_actors g)" "families_ok g families" "indexes m (map set families)"
  obtains f loc where "build_commitment_forest g families m = (Ok (f, loc) :: ('e, _) outcome)"
    "f = forest_spec (rg_actors g) families" "located (rg_actors g) families m (roots f) loc"
proof -
  let ?xs = "sorted_list_of_set (rg_actors g)" and ?s = "([], \<lparr>actor_paths = [], family_paths = []\<rparr>, {})"
  have kin: "kin m i \<subseteq> rg_actors g" for i
  proof
    fix a assume "a \<in> kin m i"
    then have "i < length families" "a \<in> set (families ! i)"
      using indexes_Some [OF assms(3)] by (auto simp: kin_def)
    with assms(2) show "a \<in> rg_actors g" by (auto simp: families_ok_def)
  qed
  have "\<exists>st. try_fold (build_step families m) ?s ?xs = (Ok st :: ('e, _) outcome) \<and> build_inv families m ?xs st"
  proof (rule try_fold_total)
    show "build_inv families m [] ?s" by (simp add: build_inv_def)
    fix ys x zs st
    assume split: "?xs = ys @ x # zs" and inv: "build_inv families m ys st"
    show "\<exists>st'. build_step families m st x = (Ok st' :: ('e, _) outcome) \<and> build_inv families m (ys @ [x]) st'"
    proof (rule build_step_inv [OF assms(3) _ _ _ inv])
      show "sorted_wrt (<) (ys @ x # zs)" using split by (metis strict_sorted_list_of_set)
      show "kin m i \<subseteq> set (ys @ x # zs)" for i using kin split assms(1) by (metis set_sorted_list_of_set)
      show "distinct (families ! i)" if "i < length families" for i
        using assms(2) that by (simp add: families_ok_def)
    qed
  qed
  then obtain rts loc emitted where st:
    "try_fold (build_step families m) ?s ?xs = (Ok (rts, loc, emitted) :: ('e, _) outcome)"
    "build_inv families m ?xs (rts, loc, emitted)"
    by (metis prod_cases3)
  have "i \<in> emitted" if "i < length families" for i
  proof -
    have "families ! i \<noteq> []" using assms(2) that by (simp add: families_ok_def)
    then have "kin m i \<noteq> {}" using that indexes_kin [OF assms(3)] by simp
    with kin [of i] st(2) assms(1) show ?thesis by (auto simp: build_inv_def)
  qed
  with st(2) assms(1) have "located (rg_actors g) families m rts loc" "rts = roots (forest_spec (rg_actors g) families)"
    by (auto simp: build_inv_def located_def forest_spec_def)
  then show ?thesis using st(1) that [of "\<lparr>roots = rts\<rparr>" loc]
    by (simp add: build_commitment_forest_def forest_spec_def)
qed

section \<open>The cut the planner selects\<close>

text \<open>
  \<open>planned m loc N X\<close>: the leaf of every needed or exposed actor outside the families, the
  root of every family that is needed but not exposed, and all leaves of a family with an
  exposed member.
\<close>

definition planned ::
  "(string, nat) btree \<Rightarrow> commitment_locations \<Rightarrow> string set \<Rightarrow> string set \<Rightarrow> cut" where
  "planned m loc N X =
     {p. \<exists>a \<in> N \<union> X. map_of m a = None \<and> map_of (actor_paths loc) a = Some p}
     \<union> {p. \<exists>i. kin m i \<inter> N \<noteq> {} \<and> kin m i \<inter> X = {} \<and> map_of (family_paths loc) i = Some p}
     \<union> {p. \<exists>i. \<exists>a \<in> kin m i. kin m i \<inter> X \<noteq> {} \<and> map_of (actor_paths loc) a = Some p}"

definition laid_out ::
  "string set \<Rightarrow> families \<Rightarrow> (string, nat) btree \<Rightarrow> commitment_node list \<Rightarrow> commitment_locations \<Rightarrow> bool" where
  "laid_out actors families m rts loc \<longleftrightarrow> finite actors \<and> indexes m (map set families)
     \<and> (\<forall>family \<in> set families. set family \<subseteq> actors) \<and> located actors families m rts loc"

lemma laid_out_family:
  assumes "laid_out actors families m rts loc" "a \<in> kin m i"
  obtains r where "i < length families" "kin m i = set (families ! i)" "r < length rts"
    "rts ! r = Branch (map Leaf (families ! i))"
    "map_of (family_paths loc) i = Some (root_path r)"
    "\<And>j. j < length (families ! i) \<Longrightarrow>
       map_of (actor_paths loc) (families ! i ! j) = Some (child (root_path r) j)"
  using assms indexes_Some [of m families a i] indexes_kin [of m families i]
  by (auto simp: laid_out_def located_def family_at_def kin_def)

lemma laid_out_member:
  assumes "laid_out actors families m rts loc" "a \<in> kin m i"
  obtains r j where "i < length families" "j < length (families ! i)" "a = families ! i ! j"
    "r < length rts" "rts ! r = Branch (map Leaf (families ! i))"
    "map_of (family_paths loc) i = Some (root_path r)"
    "map_of (actor_paths loc) a = Some (child (root_path r) j)"
  using laid_out_family [OF assms] assms(2) by (metis in_set_conv_nth)

lemma laid_out_standalone:
  assumes "laid_out actors families m rts loc" "a \<in> actors" "map_of m a = None"
  obtains r where "r < length rts" "rts ! r = Leaf a" "map_of (actor_paths loc) a = Some (root_path r)"
  using assms by (auto simp: laid_out_def located_def standalone_at_def)

text \<open>The shape of a selected path.\<close>

lemma planned_cases:
  assumes "laid_out actors families m rts loc" "N \<subseteq> actors" "X \<subseteq> actors" "p \<in> planned m loc N X"
  obtains
    (standalone) a r where "a \<in> N \<union> X" "map_of m a = None" "r < length rts" "rts ! r = Leaf a"
      "p = root_path r" "map_of (actor_paths loc) a = Some p"
  | (packed) i r where "kin m i \<inter> N \<noteq> {}" "kin m i \<inter> X = {}" "i < length families"
      "r < length rts" "rts ! r = Branch (map Leaf (families ! i))" "p = root_path r"
      "map_of (family_paths loc) i = Some p"
  | (opened) i r j a where "a \<in> kin m i" "map_of (actor_paths loc) a = Some p" "kin m i \<inter> X \<noteq> {}" "i < length families" "j < length (families ! i)"
      "r < length rts" "rts ! r = Branch (map Leaf (families ! i))" "p = child (root_path r) j"
      "map_of (family_paths loc) i = Some (root_path r)"
proof -
  from assms(4) consider
      (1) a where "a \<in> N \<union> X" "map_of m a = None" "map_of (actor_paths loc) a = Some p"
    | (2) i where "kin m i \<inter> N \<noteq> {}" "kin m i \<inter> X = {}" "map_of (family_paths loc) i = Some p"
    | (3) i a where "a \<in> kin m i" "kin m i \<inter> X \<noteq> {}" "map_of (actor_paths loc) a = Some p"
    unfolding planned_def by blast
  then show ?thesis
  proof cases
    case 1
    moreover have "a \<in> actors" using 1(1) assms(2,3) by blast
    ultimately obtain r where "r < length rts" "rts ! r = Leaf a"
      "map_of (actor_paths loc) a = Some (root_path r)"
      using laid_out_standalone [OF assms(1)] by blast
    with 1 standalone [of a r] show ?thesis by simp
  next
    case 2
    then obtain a where "a \<in> kin m i" by blast
    then obtain r where "i < length families" "r < length rts"
      "rts ! r = Branch (map Leaf (families ! i))" "map_of (family_paths loc) i = Some (root_path r)"
      by (rule laid_out_family [OF assms(1)])
    with 2 packed [of i r] show ?thesis by simp
  next
    case 3
    obtain r j where "i < length families" "j < length (families ! i)"
      "r < length rts" "rts ! r = Branch (map Leaf (families ! i))"
      "map_of (family_paths loc) i = Some (root_path r)"
      "map_of (actor_paths loc) a = Some (child (root_path r) j)"
      by (rule laid_out_member [OF assms(1) 3(1)])
    moreover from this have "p = child (root_path r) j" using 3(3) by (metis option.inject)
    ultimately show ?thesis using 3 by (intro opened [of a i j r])
  qed
qed

lemma node_root [simp]: "node f (root_path r) = (if r < length (roots f) then Some (roots f ! r) else None)"
  by (simp add: node_def root_path_def)

lemma node_family_member:
  "r < length (roots f) \<Longrightarrow> roots f ! r = Branch (map Leaf family) \<Longrightarrow>
     node f (child (root_path r) j) = (if j < length family then Some (Leaf (family ! j)) else None)"
  by (simp add: node_child branch_children_iff [THEN iffD2, of f "root_path r" "map Leaf family"])

lemma root_path_inject [simp]: "root_path r = root_path k \<longleftrightarrow> r = k"
  by (simp add: root_path_def)

lemma root_path_child [simp]: "root_path r \<noteq> child p j" "child p j \<noteq> root_path r"
  by (cases p; simp add: root_path_def)+

lemma starts_with_two_levels [simp]:
  "starts_with (root_path s) (root_path r) \<longleftrightarrow> r = s"
  "starts_with (child (root_path s) j) (root_path r) \<longleftrightarrow> r = s"
  "\<not> starts_with (root_path s) (child (root_path r) k)"
  "starts_with (child (root_path s) j) (child (root_path r) k) \<longleftrightarrow> r = s \<and> k = j"
  by (auto simp: starts_with_def root_path_def)

lemma same_root_family:
  assumes "laid_out actors families m rts loc" "i < length families" "k < length families"
    "families ! i = families ! k" "kin m i \<noteq> {}"
  shows "i = k"
proof -
  from assms(5) obtain a where a: "a \<in> kin m i" by blast
  have "kin m i = kin m k"
    using assms(1-4) indexes_kin [of m families] by (simp add: laid_out_def)
  with a have "a \<in> kin m k" by simp
  with a show ?thesis by (simp add: kin_def)
qed

lemma Leaf_list_inject [simp]: "map Leaf xs = map Leaf ys \<longleftrightarrow> xs = ys"
  by (simp add: inj_map_eq_map inj_def)

lemma planned_valid:
  assumes "laid_out actors families m rts loc" "N \<subseteq> actors" "X \<subseteq> actors"
  shows "valid_cut \<lparr>roots = rts\<rparr> (planned m loc N X)"
  unfolding valid_cut_def antichain_def
proof (intro conjI ballI impI)
  fix p assume "p \<in> planned m loc N X"
  then show "node \<lparr>roots = rts\<rparr> p \<noteq> None"
    by (rule planned_cases [OF assms]) (simp_all add: node_family_member [where family = "families ! _"])
next
  fix p q assume p: "p \<in> planned m loc N X" and q: "q \<in> planned m loc N X" and below: "starts_with q p"
  from p show "p = q"
  proof (cases rule: planned_cases [OF assms, consumes 1, case_names standalone packed opened])
    case p: (standalone a r)
    from q show ?thesis
      by (cases rule: planned_cases [OF assms, consumes 1, case_names standalone packed opened])
        (use below p in auto)
  next
    case p: (packed i r)
    from q show ?thesis
    proof (cases rule: planned_cases [OF assms, consumes 1, case_names standalone packed opened])
      case q: (opened k s j a)
      with below p(6) have "r = s" by simp
      with p q have "families ! i = families ! k" by simp
      with p q have "i = k" using same_root_family [OF assms(1), of i k] by force
      with p q show ?thesis by simp
    qed (use below p in auto)
  next
    case p: (opened i r j a)
    from q show ?thesis
      by (cases rule: planned_cases [OF assms, consumes 1, case_names standalone packed opened])
        (use below p in auto)
  qed
qed

lemma finite_planned: "finite (planned m loc N X)"
proof (rule finite_subset)
  show "planned m loc N X \<subseteq> ran (map_of (actor_paths loc)) \<union> ran (map_of (family_paths loc))"
    unfolding planned_def ran_def by blast
qed (simp add: finite_ran finite_dom_map_of)

text \<open>
  The reason planning exposes what it does: whenever the source needs everything the target
  needs or exposes, each selected node of the target is derivable from the source's cut.
\<close>

lemma planned_derivable:
  assumes lay: "laid_out actors families m rts loc"
    and NX: "N \<subseteq> actors" "X \<subseteq> actors" and sub: "N' \<union> X' \<subseteq> N" and p: "p \<in> planned m loc N' X'"
  shows "derivable \<lparr>roots = rts\<rparr> (planned m loc N X) p"
proof -
  have NX': "N' \<subseteq> actors" "X' \<subseteq> actors" using sub NX by blast+
  from p show ?thesis
  proof (cases rule: planned_cases [OF lay NX', consumes 1, case_names standalone packed opened])
    case (standalone a r)
    then have "p \<in> planned m loc N X" using sub unfolding planned_def by blast
    then show ?thesis by (rule derivable.selected)
  next
    case (packed i r)
    show ?thesis
    proof (cases "kin m i \<inter> X = {}")
      case True
      then have "p \<in> planned m loc N X" using packed sub unfolding planned_def by blast
      then show ?thesis by (rule derivable.selected)
    next
      case False
      from packed obtain a where "a \<in> kin m i" by blast
      then obtain s where "i < length families" and kin: "kin m i = set (families ! i)"
        and "s < length rts" "rts ! s = Branch (map Leaf (families ! i))"
        and at: "map_of (family_paths loc) i = Some (root_path s)"
        and leaf: "\<And>j. j < length (families ! i) \<Longrightarrow>
          map_of (actor_paths loc) (families ! i ! j) = Some (child (root_path s) j)"
        by (rule laid_out_family [OF lay]) blast
      show ?thesis
      proof (rule derivable.packed)
        show "node \<lparr>roots = rts\<rparr> p = Some (Branch (map Leaf (families ! i)))" using packed by simp
        show "map Leaf (families ! i) \<noteq> []" using kin packed(1) by auto
        fix j assume j: "j < length (map Leaf (families ! i))"
        have "p = root_path s" using packed(7) at by simp
        moreover have "families ! i ! j \<in> kin m i" using kin j by simp
        ultimately have "child p j \<in> planned m loc N X" using leaf [of j] j False unfolding planned_def by auto
        then show "derivable \<lparr>roots = rts\<rparr> (planned m loc N X) (child p j)" by (rule derivable.selected)
      qed
    qed
  next
    case (opened i r j a)
    show ?thesis
    proof (cases "kin m i \<inter> X = {}")
      case True
      then have "root_path r \<in> planned m loc N X" using opened sub unfolding planned_def by blast
      then have "derivable \<lparr>roots = rts\<rparr> (planned m loc N X) (root_path r)" by (rule derivable.selected)
      then have "derivable \<lparr>roots = rts\<rparr> (planned m loc N X) (child (root_path r) j)"
        by (rule derivable.opened [where cs = "map Leaf (families ! i)"]) (use opened in simp_all)
      then show ?thesis using opened by simp
    next
      case False
      with opened have "p \<in> planned m loc N X" unfolding planned_def by blast
      then show ?thesis by (rule derivable.selected)
    qed
  qed
qed

section \<open>The planning operations select the planned cut\<close>

lemma need_path_spec:
  assumes "laid_out actors families m rts loc" "a \<in> actors"
  obtains p where "need_path m loc a = (Ok p :: ('e, _) outcome)"
    "map_of m a = None \<Longrightarrow> map_of (actor_paths loc) a = Some p"
    "\<And>i. map_of m a = Some i \<Longrightarrow> map_of (family_paths loc) i = Some p"
proof (cases "map_of m a")
  case None
  with laid_out_standalone [OF assms] obtain r where "map_of (actor_paths loc) a = Some (root_path r)" by blast
  with None that show ?thesis by (simp add: need_path_def expect_def)
next
  case (Some i)
  then have "a \<in> kin m i" by (simp add: kin_def)
  with laid_out_family [OF assms(1)] obtain r where "map_of (family_paths loc) i = Some (root_path r)" by blast
  with Some that show ?thesis by (simp add: need_path_def expect_def)
qed

lemma cut_for_needs_planned:
  assumes "laid_out actors families m rts loc" "N \<subseteq> actors"
  shows "cut_for_needs N m loc = (Ok (planned m loc N {}) :: ('e, _) outcome)"
proof -
  have "finite N" using assms by (meson finite_subset laid_out_def)
  have "\<exists>p. need_path m loc a = (Ok p :: ('e, _) outcome)
      \<and> (map_of m a = None \<longrightarrow> map_of (actor_paths loc) a = Some p)
      \<and> (\<forall>i. map_of m a = Some i \<longrightarrow> map_of (family_paths loc) i = Some p)" if "a \<in> N" for a
    using need_path_spec [OF assms(1), of a] that assms(2) by (metis subsetD)
  then obtain path where path: "\<And>a. a \<in> N \<Longrightarrow> need_path m loc a = (Ok (path a) :: ('e, _) outcome)"
    "\<And>a. a \<in> N \<Longrightarrow> map_of m a = None \<Longrightarrow> map_of (actor_paths loc) a = Some (path a)"
    "\<And>a i. a \<in> N \<Longrightarrow> map_of m a = Some i \<Longrightarrow> map_of (family_paths loc) i = Some (path a)"
    by metis
  have "try_map (need_path m loc) (sorted_list_of_set N)
      = (Ok (map path (sorted_list_of_set N)) :: ('e, _) outcome)"
    using path(1) \<open>finite N\<close> by (intro try_map_total) auto
  moreover have "path ` N = planned m loc N {}"
  proof
    show "path ` N \<subseteq> planned m loc N {}"
    proof
      fix p assume "p \<in> path ` N"
      then obtain a where a: "a \<in> N" "p = path a" by blast
      show "p \<in> planned m loc N {}"
      proof (cases "map_of m a")
        case None
        with a path(2) [OF a(1)] show ?thesis by (auto simp: planned_def)
      next
        case (Some i)
        then have "a \<in> kin m i \<inter> N" using a by (simp add: kin_def)
        with a Some path(3) [OF a(1)] show ?thesis unfolding planned_def by blast
      qed
    qed
    show "planned m loc N {} \<subseteq> path ` N"
    proof
      fix p assume "p \<in> planned m loc N {}"
      then obtain a where "a \<in> N" "p = path a"
        unfolding planned_def kin_def using path(2,3) by fastforce
      then show "p \<in> path ` N" by blast
    qed
  qed
  ultimately show ?thesis using \<open>finite N\<close> by (simp add: cut_for_needs_def)
qed

lemma planned_insert_standalone:
  "map_of m a = None \<Longrightarrow> map_of (actor_paths loc) a = Some p \<Longrightarrow>
     planned m loc N (insert a X) = insert p (planned m loc N X)"
  by (auto simp: planned_def kin_def)

lemma planned_insert_opened:
  assumes "map_of m a = Some i" "kin m i \<inter> X \<noteq> {}"
  shows "planned m loc N (insert a X) = planned m loc N X"
proof -
  have "kin m k \<inter> insert a X = {} \<longleftrightarrow> kin m k \<inter> X = {}" for k
    using assms by (auto simp: kin_def)
  moreover have "{p. \<exists>b \<in> N \<union> insert a X. map_of m b = None \<and> map_of (actor_paths loc) b = Some p}
      = {p. \<exists>b \<in> N \<union> X. map_of m b = None \<and> map_of (actor_paths loc) b = Some p}"
    using assms(1) by auto
  ultimately show ?thesis by (simp add: planned_def)
qed

lemma family_path_only:
  assumes lay: "laid_out actors families m rts loc" and a: "a \<in> kin m i"
    and fp: "map_of (family_paths loc) i = Some fp"
  shows "b \<in> actors \<Longrightarrow> map_of m b = None \<Longrightarrow> map_of (actor_paths loc) b \<noteq> Some fp"
    and "b \<in> kin m k \<Longrightarrow> map_of (actor_paths loc) b \<noteq> Some fp"
    and "b \<in> kin m k \<Longrightarrow> map_of (family_paths loc) k = Some fp \<Longrightarrow> k = i"
proof -
  obtain r where r: "i < length families" "kin m i = set (families ! i)" "r < length rts"
    "rts ! r = Branch (map Leaf (families ! i))" "map_of (family_paths loc) i = Some (root_path r)"
    by (rule laid_out_family [OF lay a]) blast
  with fp have fp_r: "fp = root_path r" by simp
  show "map_of (actor_paths loc) b \<noteq> Some fp" if b: "b \<in> actors" "map_of m b = None"
  proof -
    obtain s where "rts ! s = Leaf b" "map_of (actor_paths loc) b = Some (root_path s)"
      using laid_out_standalone [OF lay b] by blast
    with r(4) fp_r show ?thesis by auto
  qed
  show "map_of (actor_paths loc) b \<noteq> Some fp" if b: "b \<in> kin m k"
  proof -
    obtain s j where "map_of (actor_paths loc) b = Some (child (root_path s) j)"
      using laid_out_member [OF lay b] by blast
    with fp_r show ?thesis by simp
  qed
  show "k = i" if b: "b \<in> kin m k" "map_of (family_paths loc) k = Some fp"
  proof -
    obtain s where s: "k < length families" "rts ! s = Branch (map Leaf (families ! k))"
      "map_of (family_paths loc) k = Some (root_path s)"
      by (rule laid_out_family [OF lay b(1)]) blast
    with b(2) fp_r r(4) have "families ! k = families ! i" by simp
    with same_root_family [OF lay s(1) r(1)] b(1) show ?thesis by blast
  qed
qed

lemma planned_insert_family:
  assumes lay: "laid_out actors families m rts loc" and NX: "N \<subseteq> actors" "X \<subseteq> actors"
    and a: "a \<in> kin m i" and X: "kin m i \<inter> X = {}" and fp: "map_of (family_paths loc) i = Some fp"
  shows "planned m loc N (insert a X)
    = (planned m loc N X - {fp}) \<union> {p. \<exists>b \<in> kin m i. map_of (actor_paths loc) b = Some p}"
proof -
  have disj: "kin m k \<inter> insert a X = {} \<longleftrightarrow> k \<noteq> i \<and> kin m k \<inter> X = {}" for k
    using a by (auto simp: kin_def)
  have alone: "map_of m a \<noteq> None" using a by (simp add: kin_def)
  have only: "map_of (actor_paths loc) b \<noteq> Some fp" if "b \<in> N \<union> X" "map_of m b = None" for b
    using family_path_only(1) [OF lay a fp] that NX by blast
  have S: "{p. \<exists>b \<in> N \<union> insert a X. map_of m b = None \<and> map_of (actor_paths loc) b = Some p}
      = {p. \<exists>b \<in> N \<union> X. map_of m b = None \<and> map_of (actor_paths loc) b = Some p} - {fp}"
    using alone only by auto
  have P: "{p. \<exists>k. kin m k \<inter> N \<noteq> {} \<and> kin m k \<inter> insert a X = {} \<and> map_of (family_paths loc) k = Some p}
      = {p. \<exists>k. kin m k \<inter> N \<noteq> {} \<and> kin m k \<inter> X = {} \<and> map_of (family_paths loc) k = Some p} - {fp}"
    (is "?P' = ?P - _")
  proof
    show "?P' \<subseteq> ?P - {fp}" using disj family_path_only(3) [OF lay a fp] by blast
    show "?P - {fp} \<subseteq> ?P'" using disj fp by fastforce
  qed
  have O: "{p. \<exists>k. \<exists>b \<in> kin m k. kin m k \<inter> insert a X \<noteq> {} \<and> map_of (actor_paths loc) b = Some p}
      = {p. \<exists>k. \<exists>b \<in> kin m k. kin m k \<inter> X \<noteq> {} \<and> map_of (actor_paths loc) b = Some p}
        \<union> {p. \<exists>b \<in> kin m i. map_of (actor_paths loc) b = Some p}"
    unfolding disj by blast
  have absorb: "{p. \<exists>k. \<exists>b \<in> kin m k. kin m k \<inter> X \<noteq> {} \<and> map_of (actor_paths loc) b = Some p} - {fp}
      = {p. \<exists>k. \<exists>b \<in> kin m k. kin m k \<inter> X \<noteq> {} \<and> map_of (actor_paths loc) b = Some p}"
    using family_path_only(2) [OF lay a fp] by (intro Diff_triv) blast
  show ?thesis by (simp only: planned_def S P O Un_Diff absorb Un_assoc)
qed

lemma expose_step_planned:
  assumes lay: "laid_out actors families m rts loc" and NX: "N \<subseteq> actors" "X \<subseteq> actors" and a: "a \<in> actors"
  shows "expose_step families m loc (planned m loc N X, {i. kin m i \<inter> X \<noteq> {}}) a
    = (Ok (planned m loc N (insert a X), {i. kin m i \<inter> insert a X \<noteq> {}}) :: ('e, _) outcome)"
proof (cases "map_of m a")
  case None
  with laid_out_standalone [OF lay a] obtain r where "map_of (actor_paths loc) a = Some (root_path r)" by blast
  moreover have "{i. kin m i \<inter> insert a X \<noteq> {}} = {i. kin m i \<inter> X \<noteq> {}}" using None by (auto simp: kin_def)
  ultimately show ?thesis
    using None by (simp add: expose_step_def expect_def planned_insert_standalone)
next
  case (Some i)
  then have kin: "a \<in> kin m i" by (simp add: kin_def)
  have opened: "{k. kin m k \<inter> insert a X \<noteq> {}} = insert i {k. kin m k \<inter> X \<noteq> {}}"
    using Some by (auto simp: kin_def)
  show ?thesis
  proof (cases "kin m i \<inter> X = {}")
    case False
    then have "insert i {k. kin m k \<inter> X \<noteq> {}} = {k. kin m k \<inter> X \<noteq> {}}" by auto
    with False Some opened show ?thesis by (simp add: expose_step_def planned_insert_opened)
  next
    case True
    obtain r where r: "i < length families" "kin m i = set (families ! i)"
      "map_of (family_paths loc) i = Some (root_path r)"
      "\<And>j. j < length (families ! i) \<Longrightarrow>
         map_of (actor_paths loc) (families ! i ! j) = Some (child (root_path r) j)"
      by (rule laid_out_family [OF lay kin]) blast
    have at: "\<exists>p. map_of (actor_paths loc) b = Some p" if "b \<in> set (families ! i)" for b
      using r(4) that by (metis in_set_conv_nth)
    have "try_map (\<lambda>b. expect (map_of (actor_paths loc) b)) (families ! i)
        = (Ok (map (\<lambda>b. the (map_of (actor_paths loc) b)) (families ! i)) :: ('e, _) outcome)"
      by (rule try_map_total) (use at in \<open>auto simp: expect_def split: option.splits\<close>)
    moreover have "(\<lambda>b. the (map_of (actor_paths loc) b)) ` set (families ! i)
        = {p. \<exists>b \<in> kin m i. map_of (actor_paths loc) b = Some p}"
      using at r(2) by force
    ultimately show ?thesis
      using Some True r(1,3) opened planned_insert_family [OF lay NX kin True r(3)]
      by (simp add: expose_step_def expect_def)
  qed
qed

lemma expose_actors_planned:
  assumes lay: "laid_out actors families m rts loc" and NX: "N \<subseteq> actors" "X \<subseteq> actors"
  shows "expose_actors (planned m loc N {}) X families m loc = (Ok (planned m loc N X) :: ('e, _) outcome)"
proof -
  let ?xs = "sorted_list_of_set X"
  let ?I = "\<lambda>ys st. st = (planned m loc N (set ys), {i. kin m i \<inter> set ys \<noteq> {}})"
  have "finite X" using assms by (meson finite_subset laid_out_def)
  have "\<exists>st. try_fold (expose_step families m loc) (planned m loc N {}, {}) ?xs = (Ok st :: ('e, _) outcome) \<and> ?I ?xs st"
  proof (rule try_fold_total [where I = ?I])
    fix ys x zs st
    assume "?xs = ys @ x # zs" and st: "?I ys st"
    then have "insert x (set ys) \<subseteq> X" using \<open>finite X\<close> by (metis Un_upper1 insert_is_Un set_append
      set_sorted_list_of_set list.simps(15) insert_subset in_set_conv_decomp)
    with NX have "set ys \<subseteq> actors" "x \<in> actors" by auto
    with expose_step_planned [OF lay NX(1), where X = "set ys" and a = x] st
    show "\<exists>st'. expose_step families m loc st x = (Ok st' :: ('e, _) outcome) \<and> ?I (ys @ [x]) st'" by simp
  qed simp
  then show ?thesis using \<open>finite X\<close> by (auto simp: expose_actors_def)
qed

section \<open>The plan\<close>

text \<open>The graph the needs are computed in: the members of a cohort reach each other.\<close>

definition coupled :: "route_graph \<Rightarrow> cohorts \<Rightarrow> route_graph \<Rightarrow> bool" where
  "coupled g cohorts g' \<longleftrightarrow> graph_wf g' \<and> rg_actors g' = rg_actors g \<and> rg_consumes g' = rg_consumes g
     \<and> (\<forall>a. emits_of g' a = emits_of g a \<union> {b. \<exists>C \<in> set cohorts. a \<in> C \<and> b \<in> C - {a}})"

definition exposed :: "route_graph \<Rightarrow> cohorts \<Rightarrow> string \<Rightarrow> string set" where
  "exposed g cohorts a =
     (case find (\<lambda>C. a \<in> C) cohorts of
        None \<Rightarrow> consumes_of g a
      | Some C \<Rightarrow> C \<union> (\<Union>c \<in> C. consumes_of g c))"

lemma coupled_exists:
  assumes "graph_wf g" "\<And>C. C \<in> set cohorts \<Longrightarrow> C \<subseteq> rg_actors g"
  shows "\<exists>g'. try_fold add_emit_clique g cohorts = (Ok g' :: ('e, _) outcome) \<and> coupled g cohorts g'"
proof (rule try_fold_total [where I = "\<lambda>ys g'. coupled g ys g'"])
  show "coupled g [] g" using assms(1) by (simp add: coupled_def)
  fix ys C zs h
  assume split: "cohorts = ys @ C # zs" and h: "coupled g ys h"
  then have "graph_wf h" "C \<subseteq> rg_actors h" using assms(2) by (auto simp: coupled_def)
  then obtain h' where "add_emit_clique h C = (Ok h' :: ('e, _) outcome)" "graph_wf h'"
    "rg_actors h' = rg_actors h" "rg_consumes h' = rg_consumes h"
    "\<And>a. emits_of h' a = emits_of h a \<union> (if a \<in> C then C - {a} else {})"
    by (rule add_emit_clique_spec) blast
  with h show "\<exists>h'. add_emit_clique h C = (Ok h' :: ('e, _) outcome) \<and> coupled g (ys @ [C]) h'"
    by (auto simp: coupled_def)
qed

lemma coupled_mutual:
  "coupled g cohorts g' \<Longrightarrow> C \<in> set cohorts \<Longrightarrow> graph_needs.mutual g' C"
  by (auto simp: coupled_def graph_needs.mutual_def)

lemma coupled_consumes: "coupled g cohorts g' \<Longrightarrow> consumes_of g' a = consumes_of g a"
  by (simp add: coupled_def)

text \<open>An actor needs all that the cut of any of its emit targets exposes.\<close>

lemma exposed_needed:
  assumes "coupled g cohorts g'" "t \<in> emits_of g' s"
  shows "needs_spec g' t \<union> exposed g cohorts t \<subseteq> needs_spec g' s"
proof -
  have "needs_spec g' t \<subseteq> needs_spec g' s" using emit_target_needs [OF assms(2)] by blast
  moreover have "exposed g cohorts t \<subseteq> needs_spec g' s"
  proof (cases "find (\<lambda>C. t \<in> C) cohorts")
    case None
    then show ?thesis
      using consumes_needs [of g' t] emit_target_needs [OF assms(2)] coupled_consumes [OF assms(1)]
      by (auto simp: exposed_def)
  next
    case (Some C)
    then have "t \<in> C" "C \<in> set cohorts" by (auto dest: find_SomeD)
    with graph_needs.target_cohort_needed [OF coupled_mutual [OF assms(1)] _ assms(2), of C] Some
    show ?thesis by (simp add: exposed_def coupled_consumes [OF assms(1)])
  qed
  ultimately show ?thesis by simp
qed

lemma find_cohort:
  assumes "indexes m cohorts"
  shows "find (\<lambda>C. a \<in> C) cohorts = map_option ((!) cohorts) (map_of m a)"
proof (cases "map_of m a")
  case None
  then have "find (\<lambda>C. a \<in> C) cohorts = None" using indexes_None [OF assms, of a] by (simp add: find_None_iff)
  with None show ?thesis by simp
next
  case (Some i)
  then have i: "i < length cohorts" "a \<in> cohorts ! i" using assms by (auto simp: indexes_def)
  have "a \<notin> cohorts ! j" if "j < i" for j
    using Some i that assms unfolding indexes_def
    by (metis option.inject order.strict_trans order_less_irrefl)
  with i Some show ?thesis by (auto simp: find_Some_iff intro!: exI [of _ i])
qed

lemma direct_consumes_entry:
  "consumes_of g a = (case direct_consumes g a of None \<Rightarrow> {} | Some c \<Rightarrow> c)"
  by (simp add: direct_consumes_def entry_or_default_def)

definition actor_cut ::
  "route_graph \<Rightarrow> cohorts \<Rightarrow> route_graph \<Rightarrow> (string, nat) btree \<Rightarrow> commitment_locations \<Rightarrow> string \<Rightarrow> cut" where
  "actor_cut g cohorts g' m loc a = planned m loc (needs_spec g' a) (exposed g cohorts a)"

lemma exposed_actors:
  assumes "graph_wf g" "\<And>C. C \<in> set cohorts \<Longrightarrow> C \<subseteq> rg_actors g"
  shows "exposed g cohorts a \<subseteq> rg_actors g"
proof -
  have "consumes_of g c \<subseteq> rg_actors g" for c
    using assms(1) by (simp add: graph_wf_def entry_subset)
  then show ?thesis using assms(2) by (auto simp: exposed_def split: option.splits dest!: find_SomeD)
qed

lemma plan_single_planned:
  assumes lay: "laid_out (rg_actors g) families m rts loc" and g: "graph_wf g" "coupled g cohorts g'"
    and nd: "map_of nd a = Some (needs_spec g' a)" and a: "find (\<lambda>C. a \<in> C) cohorts = None"
  shows "plan_single g families m loc nd a = (Ok (actor_cut g cohorts g' m loc a) :: ('e, _) outcome)"
proof -
  have needs: "needs_spec g' a \<subseteq> rg_actors g"
    using g(2) needs_spec_actors [of g' a] by (simp add: coupled_def)
  have "consumes_of g a \<subseteq> rg_actors g" using g(1) by (simp add: graph_wf_def entry_subset)
  then have X: "expose_actors (planned m loc (needs_spec g' a) {}) (consumes_of g a) families m loc
      = (Ok (planned m loc (needs_spec g' a) (consumes_of g a)) :: ('e, _) outcome)"
    by (rule expose_actors_planned [OF lay needs])
  have "cut_for_needs (needs_spec g' a) m loc = (Ok (planned m loc (needs_spec g' a) {}) :: ('e, _) outcome)"
    by (rule cut_for_needs_planned [OF lay needs])
  with X nd a show ?thesis
    by (auto simp: plan_single_def actor_cut_def exposed_def expect_def direct_consumes_entry
      split: option.splits)
qed

lemma plan_cohort_planned:
  assumes lay: "laid_out (rg_actors g) families m rts loc" and g: "graph_wf g" "coupled g cohorts g'"
    and nd: "\<And>a. a \<in> rg_actors g \<Longrightarrow> map_of nd a = Some (needs_spec g' a)"
    and a: "find (\<lambda>C. a \<in> C) cohorts = Some C" and C: "C \<subseteq> rg_actors g"
  shows "plan_cohort g families m loc nd C = (Ok (actor_cut g cohorts g' m loc a) :: ('e, _) outcome)"
proof -
  have mem: "a \<in> C" "C \<in> set cohorts" using a by (auto dest: find_SomeD)
  have "finite C" using g(1) C by (meson finite_subset graph_wf_finite)
  obtain b bs where list: "sorted_list_of_set C = b # bs"
    using mem(1) \<open>finite C\<close> by (cases "sorted_list_of_set C") auto
  then have b: "b \<in> C" using \<open>finite C\<close> by (metis list.set_intros(1) set_sorted_list_of_set)
  have same: "needs_spec g' b = needs_spec g' a"
    using graph_needs.mutual_equal_needs [OF coupled_mutual [OF g(2) mem(2)] b mem(1)] .
  have needs: "needs_spec g' b \<subseteq> rg_actors g"
    using g(2) needs_spec_actors [of g' b] by (simp add: coupled_def)
  have exp: "C \<union> (\<Union>member \<in> C. case direct_consumes g member of None \<Rightarrow> {} | Some c \<Rightarrow> c) = exposed g cohorts a"
    using a by (simp add: exposed_def direct_consumes_entry)
  have "consumes_of g c \<subseteq> rg_actors g" for c
    using g(1) by (simp add: graph_wf_def entry_subset)
  then have "exposed g cohorts a \<subseteq> rg_actors g" using a C by (auto simp: exposed_def)
  then have X: "expose_actors (planned m loc (needs_spec g' b) {}) (exposed g cohorts a) families m loc
      = (Ok (planned m loc (needs_spec g' b) (exposed g cohorts a)) :: ('e, _) outcome)"
    by (rule expose_actors_planned [OF lay needs])
  have "cut_for_needs (needs_spec g' b) m loc = (Ok (planned m loc (needs_spec g' b) {}) :: ('e, _) outcome)"
    by (rule cut_for_needs_planned [OF lay needs])
  moreover have "map_of nd b = Some (needs_spec g' b)" using nd b C by blast
  ultimately show ?thesis using X list
    by (simp add: plan_cohort_def expect_def actor_cut_def Let_def exp same)
qed

text \<open>The planning loop: the actors visited and their cohort members have their cuts.\<close>

definition cohort_mates :: "cohorts \<Rightarrow> string \<Rightarrow> string set" where
  "cohort_mates cohorts a = (case find (\<lambda>C. a \<in> C) cohorts of None \<Rightarrow> {a} | Some C \<Rightarrow> C)"

definition cuts_inv :: "cohorts \<Rightarrow> (string \<Rightarrow> cut) \<Rightarrow> string list \<Rightarrow> (string, cut) btree \<Rightarrow> bool" where
  "cuts_inv cohorts plan ys cuts \<longleftrightarrow> sorted_wrt (<) (bm_keys cuts)
     \<and> (\<forall>a. map_of cuts a = (if \<exists>b \<in> set ys. a \<in> cohort_mates cohorts b then Some (plan a) else None))"

lemma find_disjoint_cohort:
  assumes "indexes cm cohorts" "find (\<lambda>C. a \<in> C) cohorts = Some C" "b \<in> C"
  shows "find (\<lambda>C. b \<in> C) cohorts = Some C"
proof -
  from assms(1,2) obtain i where i: "map_of cm a = Some i" "C = cohorts ! i"
    by (auto simp: find_cohort)
  with assms have "map_of cm b = Some i" by (auto simp: indexes_def)
  with i show ?thesis by (simp add: find_cohort [OF assms(1)])
qed

lemma map_of_fold_members:
  "finite C \<Longrightarrow> map_of (fold (\<lambda>member. bm_insert member c) (sorted_list_of_set C) m) a
     = (if a \<in> C then Some c else map_of m a)"
proof -
  have "map_of (fold (\<lambda>member. bm_insert member c) xs m) a = (if a \<in> set xs then Some c else map_of m a)" for xs
    by (induction xs arbitrary: m) auto
  from this [of "sorted_list_of_set C"] show "finite C \<Longrightarrow> ?thesis" by simp
qed

lemma fold_members_sorted:
  "sorted_wrt (<) (bm_keys m) \<Longrightarrow> sorted_wrt (<) (bm_keys (fold (\<lambda>member. bm_insert member c) xs m))"
  by (induction xs arbitrary: m) auto

lemma plan_step_inv:
  assumes cm: "indexes cm (con_cohorts con)"
    and single: "\<And>a. a \<in> rg_actors g \<Longrightarrow> find (\<lambda>C. a \<in> C) (con_cohorts con) = None \<Longrightarrow>
      plan_single g (con_families con) m loc nd a = (Ok (plan a) :: ('e, _) outcome)"
    and cohort: "\<And>a C. a \<in> rg_actors g \<Longrightarrow> find (\<lambda>C. a \<in> C) (con_cohorts con) = Some C \<Longrightarrow>
      finite C \<and> plan_cohort g (con_families con) m loc nd C = (Ok (plan a) :: ('e, _) outcome)"
    and shared: "\<And>a b C. find (\<lambda>C. a \<in> C) (con_cohorts con) = Some C \<Longrightarrow> b \<in> C \<Longrightarrow> plan b = plan a"
    and inv: "cuts_inv (con_cohorts con) plan ys cuts" and a: "a \<in> rg_actors g"
  shows "\<exists>cuts'. plan_step g con m cm loc nd cuts a = (Ok cuts' :: ('e, _) outcome)
    \<and> cuts_inv (con_cohorts con) plan (ys @ [a]) cuts'"
proof (cases "map_of cuts a")
  case (Some c)
  then obtain b where b: "b \<in> set ys" "a \<in> cohort_mates (con_cohorts con) b"
    using inv by (auto simp: cuts_inv_def split: if_splits)
  have "cohort_mates (con_cohorts con) a = cohort_mates (con_cohorts con) b"
    using b(2) find_disjoint_cohort [OF cm, of b _ a] by (auto simp: cohort_mates_def split: option.splits)
  with b(1) inv have "cuts_inv (con_cohorts con) plan (ys @ [a]) cuts" by (auto simp: cuts_inv_def)
  with Some show ?thesis by (simp add: plan_step_def)
next
  case None
  show ?thesis
  proof (cases "map_of cm a")
    case alone: None
    then have f: "find (\<lambda>C. a \<in> C) (con_cohorts con) = None" by (simp add: find_cohort [OF cm])
    then have "cuts_inv (con_cohorts con) plan (ys @ [a]) (bm_insert a (plan a) cuts)"
      using inv by (auto simp: cuts_inv_def cohort_mates_def)
    with None alone single [OF a f] show ?thesis by (simp add: plan_step_def)
  next
    case (Some i)
    then have i: "i < length (con_cohorts con)" using cm by (auto simp: indexes_def)
    have f: "find (\<lambda>C. a \<in> C) (con_cohorts con) = Some (con_cohorts con ! i)"
      using Some by (simp add: find_cohort [OF cm])
    note C = cohort [OF a f]
    have "cuts_inv (con_cohorts con) plan (ys @ [a])
        (fold (\<lambda>member. bm_insert member (plan a)) (sorted_list_of_set (con_cohorts con ! i)) cuts)"
      using inv C shared [OF f] f
      by (auto simp: cuts_inv_def cohort_mates_def map_of_fold_members fold_members_sorted)
    with None Some C i show ?thesis by (simp add: plan_step_def Let_def)
  qed
qed

text \<open>What a finished plan is, by its forest and the cut of every actor.\<close>

definition planned_by ::
  "route_graph \<Rightarrow> commitment_constraints \<Rightarrow> route_graph \<Rightarrow> (string, nat) btree \<Rightarrow> commitment_locations
     \<Rightarrow> commit_plan \<Rightarrow> bool" where
  "planned_by g con g' m loc plan \<longleftrightarrow>
     plan_forest plan = forest_spec (rg_actors g) (con_families con)
     \<and> coupled g (con_cohorts con) g'
     \<and> laid_out (rg_actors g) (con_families con) m (roots (plan_forest plan)) loc
     \<and> (\<forall>a. map_of (plan_cuts plan) a =
          (if a \<in> rg_actors g then Some (actor_cut g (con_cohorts con) g' m loc a) else None))"

lemma planning_loop:
  assumes g: "graph_wf g" "coupled g (con_cohorts con) g'"
    and cm: "indexes cm (con_cohorts con)" "\<And>C. C \<in> set (con_cohorts con) \<Longrightarrow> C \<subseteq> rg_actors g"
    and lay: "laid_out (rg_actors g) (con_families con) m rts loc"
    and nd: "\<And>a. a \<in> rg_actors g \<Longrightarrow> map_of nd a = Some (needs_spec g' a)"
  shows "\<exists>cuts. try_fold (plan_step g con m cm loc nd) [] (sorted_list_of_set (rg_actors g)) = (Ok cuts :: ('e, _) outcome)
    \<and> cuts_inv (con_cohorts con) (actor_cut g (con_cohorts con) g' m loc) (sorted_list_of_set (rg_actors g)) cuts"
proof (rule try_fold_total)
  let ?plan = "actor_cut g (con_cohorts con) g' m loc"
  show "cuts_inv (con_cohorts con) ?plan [] []" by (simp add: cuts_inv_def)
  fix ys a zs cuts
  assume "sorted_list_of_set (rg_actors g) = ys @ a # zs" and inv: "cuts_inv (con_cohorts con) ?plan ys cuts"
  then have "a \<in> rg_actors g" using g(1) by (metis graph_wf_finite in_set_conv_decomp set_sorted_list_of_set)
  show "\<exists>cuts'. plan_step g con m cm loc nd cuts a = (Ok cuts' :: ('e, _) outcome)
      \<and> cuts_inv (con_cohorts con) ?plan (ys @ [a]) cuts'"
  proof (rule plan_step_inv [OF cm(1) _ _ _ inv \<open>a \<in> rg_actors g\<close>])
    fix b assume b: "b \<in> rg_actors g"
    show "plan_single g (con_families con) m loc nd b = (Ok (?plan b) :: ('e, _) outcome)"
      if "find (\<lambda>C. b \<in> C) (con_cohorts con) = None"
      by (rule plan_single_planned [OF lay g nd [OF b] that])
    show "finite C \<and> plan_cohort g (con_families con) m loc nd C = (Ok (?plan b) :: ('e, _) outcome)"
      if f: "find (\<lambda>C. b \<in> C) (con_cohorts con) = Some C" for C
    proof -
      have C: "C \<subseteq> rg_actors g" using find_SomeD [OF f] cm(2) by blast
      have "plan_cohort g (con_families con) m loc nd C = (Ok (?plan b) :: ('e, _) outcome)"
        using nd by (rule plan_cohort_planned [OF lay g _ f C])
      with C g(1) show ?thesis by (meson finite_subset graph_wf_finite)
    qed
  next
    fix b c C assume f: "find (\<lambda>C. b \<in> C) (con_cohorts con) = Some C" and c: "c \<in> C"
    have "b \<in> C" "C \<in> set (con_cohorts con)" using find_SomeD [OF f] by auto
    then have "needs_spec g' c = needs_spec g' b"
      using graph_needs.mutual_equal_needs [OF coupled_mutual [OF g(2)]] c by blast
    moreover have "exposed g (con_cohorts con) c = exposed g (con_cohorts con) b"
      using f find_disjoint_cohort [OF cm(1) f c] by (simp add: exposed_def)
    ultimately show "?plan c = ?plan b" by (simp add: actor_cut_def)
  qed
qed

lemma cuts_inv_all:
  assumes "cuts_inv cohorts plan (sorted_list_of_set A) cuts" "finite A"
    "\<And>C. C \<in> set cohorts \<Longrightarrow> C \<subseteq> A"
  shows "map_of cuts a = (if a \<in> A then Some (plan a) else None)"
proof -
  have "b \<in> cohort_mates cohorts b \<and> (b \<in> A \<longrightarrow> cohort_mates cohorts b \<subseteq> A)" for b
    using assms(3) by (auto simp: cohort_mates_def split: option.splits dest!: find_SomeD)
  then have "(\<exists>b \<in> set (sorted_list_of_set A). a \<in> cohort_mates cohorts b) \<longleftrightarrow> a \<in> A"
    using assms(2) by auto
  with assms(1) show ?thesis by (simp add: cuts_inv_def)
qed

lemma commitment_plan_planned:
  assumes g: "graph_wf g" and fams: "families_ok g (con_families con)" and cohs: "cohorts_ok g (con_cohorts con)"
  obtains plan g' m loc where "commitment_plan g con = Ok plan" "planned_by g con g' m loc plan"
proof -
  have C: "\<And>C. C \<in> set (con_cohorts con) \<Longrightarrow> C \<subseteq> rg_actors g" using cohs by (simp add: cohorts_ok_def)
  then have "finite C" if "C \<in> set (con_cohorts con)" for C
    using that g by (meson finite_subset graph_wf_finite)
  with cohs validate_cohorts_decide [of "con_cohorts con" g] obtain cm where
    cm: "validate_cohorts g (con_cohorts con) = Ok cm" "indexes cm (con_cohorts con)" by auto
  from fams validate_families_decide [of g "con_families con"] obtain m where
    m: "validate_families g (con_families con) = Ok m" "indexes m (map set (con_families con))" by auto
  have fin: "finite (rg_actors g)" using g by simp
  obtain f loc where f: "build_commitment_forest g (con_families con) m = (Ok (f, loc) :: (constraint_error, _) outcome)"
    "f = forest_spec (rg_actors g) (con_families con)" "located (rg_actors g) (con_families con) m (roots f) loc"
    using build_located [OF fin fams m(2)] by blast
  have lay: "laid_out (rg_actors g) (con_families con) m (roots f) loc"
    using fin fams m(2) f(3) by (simp add: laid_out_def families_ok_def)
  obtain g' where g': "try_fold add_emit_clique g (con_cohorts con) = (Ok g' :: (constraint_error, _) outcome)"
    "coupled g (con_cohorts con) g'" using coupled_exists [OF g C] by blast
  obtain nd where nd: "needs g' = (Ok nd :: (constraint_error, _) outcome)"
    "\<And>a. map_of nd a = (if a \<in> rg_actors g' then Some (needs_spec g' a) else None)"
    using needs_exact [of g'] g'(2) by (auto simp: coupled_def)
  have "rg_actors g' = rg_actors g" using g'(2) by (simp add: coupled_def)
  with nd(2) have "map_of nd a = Some (needs_spec g' a)" if "a \<in> rg_actors g" for a using that by simp
  from planning_loop [OF g g'(2) cm(2) C lay this, where ?'e = constraint_error] obtain cuts where
    cuts: "try_fold (plan_step g con m cm loc nd) [] (sorted_list_of_set (rg_actors g)) = (Ok cuts :: (constraint_error, _) outcome)"
    "cuts_inv (con_cohorts con) (actor_cut g (con_cohorts con) g' m loc) (sorted_list_of_set (rg_actors g)) cuts"
    by auto
  show ?thesis
  proof (rule that)
    show "commitment_plan g con = Ok \<lparr>plan_forest = f, plan_cuts = cuts\<rparr>"
      by (simp add: commitment_plan_def m(1) cm(1) f(1) g'(1) nd(1) cuts(1))
    show "planned_by g con g' m loc \<lparr>plan_forest = f, plan_cuts = cuts\<rparr>"
      using lay f(2) g'(2) cuts_inv_all [OF cuts(2) fin C] by (simp add: planned_by_def)
  qed
qed

lemma forest_eta [simp]: "\<lparr>roots = roots f\<rparr> = (f :: commit_forest)"
  by (cases f) simp

lemma planned_cut_valid:
  assumes "planned_by g con g' m loc plan" "graph_wf g"
    "\<And>C. C \<in> set (con_cohorts con) \<Longrightarrow> C \<subseteq> rg_actors g" "map_of (plan_cuts plan) a = Some c"
  shows "valid_cut (plan_forest plan) c" "finite c"
proof -
  from assms(1,4) have c: "c = actor_cut g (con_cohorts con) g' m loc a" by (auto simp: planned_by_def split: if_splits)
  have "needs_spec g' a \<subseteq> rg_actors g"
    using assms(1) needs_spec_actors [of g' a] by (simp add: planned_by_def coupled_def)
  moreover have "exposed g (con_cohorts con) a \<subseteq> rg_actors g" by (rule exposed_actors [OF assms(2,3)])
  moreover have "laid_out (rg_actors g) (con_families con) m (roots (plan_forest plan)) loc"
    using assms(1) unfolding planned_by_def by blast
  ultimately have "valid_cut \<lparr>roots = roots (plan_forest plan)\<rparr> c"
    unfolding c actor_cut_def by (intro planned_valid)
  then show "valid_cut (plan_forest plan) c" by simp
  show "finite c" by (simp add: c actor_cut_def finite_planned)
qed

lemma planned_transition:
  assumes plan: "planned_by g con g' m loc plan" and g: "graph_wf g" "\<And>C. C \<in> set (con_cohorts con) \<Longrightarrow> C \<subseteq> rg_actors g"
    and edge: "t \<in> emits_of g s"
  shows "\<exists>tr. cut_transition plan s t = Ok tr"
proof -
  from edge g(1) have st: "s \<in> rg_actors g" "t \<in> rg_actors g"
    by (auto simp: graph_wf_def dest: entry_source)
  let ?c = "actor_cut g (con_cohorts con) g' m loc"
  from plan st have cuts: "map_of (plan_cuts plan) s = Some (?c s)" "map_of (plan_cuts plan) t = Some (?c t)"
    by (simp_all add: planned_by_def)
  have edge': "t \<in> emits_of g' s" using edge plan by (simp add: planned_by_def coupled_def)
  have "coupled g (con_cohorts con) g'" using plan by (simp add: planned_by_def)
  note sub = exposed_needed [OF this edge']
  have acts: "needs_spec g' s \<subseteq> rg_actors g" "exposed g (con_cohorts con) s \<subseteq> rg_actors g"
    using plan needs_spec_actors [of g' s] exposed_actors [OF g] by (auto simp: planned_by_def coupled_def)
  have "derivable (plan_forest plan) (?c s) p" if "p \<in> ?c t" for p
  proof -
    have "laid_out (rg_actors g) (con_families con) m (roots (plan_forest plan)) loc"
      using plan unfolding planned_by_def by blast
    from planned_derivable [OF this acts sub] that show ?thesis by (simp add: actor_cut_def)
  qed
  moreover have "node (plan_forest plan) p \<noteq> None" if "p \<in> ?c t" for p
    using planned_cut_valid(1) [OF plan g cuts(2)] that by (simp add: valid_cut_def)
  ultimately obtain tr where "transition (plan_forest plan) (?c s) (?c t) = Ok tr"
    using transition_decides [of "?c s" "?c t" "plan_forest plan"]
      planned_cut_valid(2) [OF plan g cuts(1)] planned_cut_valid(2) [OF plan g cuts(2)] by auto
  then have "cut_transition plan s t = Ok tr" using cuts by (simp add: cut_transition_def ok_or_def)
  then show ?thesis by blast
qed

section \<open>Properties\<close>

lemma plan_ok_planned:
  assumes "commitment_plan g con = Ok plan" "graph_wf g" "\<And>C. C \<in> set (con_cohorts con) \<Longrightarrow> finite C"
  obtains g' m loc where "planned_by g con g' m loc plan" "cohorts_ok g (con_cohorts con)"
    "families_ok g (con_families con)"
proof -
  from assms(1) have "families_ok g (con_families con)"
    using validate_families_decide [of g "con_families con"]
    by (auto simp: commitment_plan_def outcome_simps split: if_splits)
  moreover from assms(1) have "cohorts_ok g (con_cohorts con)"
    using validate_cohorts_decide [OF assms(3), of "con_cohorts con" g]
    by (auto simp: commitment_plan_def outcome_simps split: if_splits prod.splits)
  ultimately show ?thesis
    using commitment_plan_planned [OF assms(2)] assms(1) that by (metis outcome.inject(1))
qed

lemma cohorts_ok_actors: "cohorts_ok g cohorts \<Longrightarrow> C \<in> set cohorts \<Longrightarrow> C \<subseteq> rg_actors g"
  by (simp add: cohorts_ok_def)

lemma planned_covers:
  assumes lay: "laid_out actors families m rts loc" and NX: "N \<subseteq> actors" "X \<subseteq> actors" and b: "b \<in> N \<union> X"
  shows "\<exists>p \<in> planned m loc N X. \<exists>q. starts_with q p \<and> node \<lparr>roots = rts\<rparr> q = Some (Leaf b)"
    and "b \<in> X \<Longrightarrow> \<exists>p \<in> planned m loc N X. node \<lparr>roots = rts\<rparr> p = Some (Leaf b)"
proof -
  have leaf: "\<exists>p. map_of (actor_paths loc) b = Some p \<and> node \<lparr>roots = rts\<rparr> p = Some (Leaf b)"
    and below: "b \<in> kin m i \<Longrightarrow> \<exists>p fp. map_of (actor_paths loc) b = Some p \<and> map_of (family_paths loc) i = Some fp
      \<and> starts_with p fp \<and> node \<lparr>roots = rts\<rparr> p = Some (Leaf b)" for i
  proof -
    show below: "\<exists>p fp. map_of (actor_paths loc) b = Some p \<and> map_of (family_paths loc) i = Some fp
        \<and> starts_with p fp \<and> node \<lparr>roots = rts\<rparr> p = Some (Leaf b)" if i: "b \<in> kin m i" for i
    proof -
      obtain r j where "j < length (families ! i)" "b = families ! i ! j" "r < length rts"
        "rts ! r = Branch (map Leaf (families ! i))" "map_of (family_paths loc) i = Some (root_path r)"
        "map_of (actor_paths loc) b = Some (child (root_path r) j)"
        by (rule laid_out_member [OF lay i]) blast
      then show ?thesis
        using node_family_member [of r "\<lparr>roots = rts\<rparr>" "families ! i" j] by auto
    qed
    show "\<exists>p. map_of (actor_paths loc) b = Some p \<and> node \<lparr>roots = rts\<rparr> p = Some (Leaf b)"
    proof (cases "map_of m b")
      case None
      with laid_out_standalone [OF lay _ None] b NX obtain r where
        "r < length rts" "rts ! r = Leaf b" "map_of (actor_paths loc) b = Some (root_path r)" by blast
      then show ?thesis by simp
    next
      case (Some i)
      with below [of i] show ?thesis by (auto simp: kin_def)
    qed
  qed
  show own: "\<exists>p \<in> planned m loc N X. node \<lparr>roots = rts\<rparr> p = Some (Leaf b)" if "b \<in> X"
  proof (cases "map_of m b")
    case None
    with leaf b show ?thesis unfolding planned_def by blast
  next
    case (Some i)
    then have "b \<in> kin m i" by (simp add: kin_def)
    with that leaf show ?thesis unfolding planned_def by blast
  qed
  show "\<exists>p \<in> planned m loc N X. \<exists>q. starts_with q p \<and> node \<lparr>roots = rts\<rparr> q = Some (Leaf b)"
  proof (cases "map_of m b")
    case None
    with leaf b have "\<exists>p \<in> planned m loc N X. node \<lparr>roots = rts\<rparr> p = Some (Leaf b)"
      unfolding planned_def by blast
    then show ?thesis using starts_with_refl by blast
  next
    case (Some i)
    then have i: "b \<in> kin m i" by (simp add: kin_def)
    show ?thesis
    proof (cases "kin m i \<inter> X = {}")
      case True
      with b i have "kin m i \<inter> N \<noteq> {}" by blast
      with True below [OF i] show ?thesis unfolding planned_def by blast
    next
      case False
      with i leaf have "\<exists>p \<in> planned m loc N X. node \<lparr>roots = rts\<rparr> p = Some (Leaf b)"
        unfolding planned_def by blast
      then show ?thesis using starts_with_refl by blast
    qed
  qed
qed

lemma needs_spec_mono:
  assumes "\<And>a. emits_of g a \<subseteq> emits_of g' a" "\<And>a. consumes_of g' a = consumes_of g a"
  shows "needs_spec g a \<subseteq> needs_spec g' a"
proof -
  have "emit_rel g \<subseteq> emit_rel g'" by (auto dest: assms(1) [THEN subsetD])
  then have "emit_reach g a \<subseteq> emit_reach g' a"
    unfolding emit_reach_def by (intro Image_mono trancl_mono_subset order_refl)
  then show ?thesis unfolding needs_spec_def assms(2) by blast
qed

lemma find_unique_cohort:
  assumes "groups_disjoint cohorts" "C \<in> set cohorts" "a \<in> C"
  shows "find (\<lambda>C. a \<in> C) cohorts = Some C"
proof (cases "find (\<lambda>C. a \<in> C) cohorts")
  case None
  with assms(2,3) show ?thesis by (auto simp: find_None_iff)
next
  case (Some D)
  then have "a \<in> D" "D \<in> set cohorts" by (auto dest: find_SomeD)
  with assms have "D = C" by (metis groups_disjoint_unique in_set_conv_nth)
  with Some show ?thesis by simp
qed

lemma planned_cohort_shares:
  assumes plan: "planned_by g con g' m loc plan" and cohs: "cohorts_ok g (con_cohorts con)"
    and "C \<in> set (con_cohorts con)" "a \<in> C" "b \<in> C"
  shows "map_of (plan_cuts plan) a = map_of (plan_cuts plan) b"
proof -
  have "a \<in> rg_actors g" "b \<in> rg_actors g" using cohorts_ok_actors [OF cohs assms(3)] assms(4,5) by blast+
  moreover have "needs_spec g' a = needs_spec g' b"
    using plan assms(3) graph_needs.mutual_equal_needs [OF coupled_mutual, OF _ _ assms(4,5)]
    unfolding planned_by_def by blast
  moreover have "exposed g (con_cohorts con) a = exposed g (con_cohorts con) b"
    using find_unique_cohort [OF _ assms(3)] assms(4,5) cohs by (simp add: exposed_def cohorts_ok_def)
  ultimately show ?thesis using plan by (simp add: planned_by_def actor_cut_def)
qed

text \<open>
  C2: \<open>commitment_plan\<close> accepts exactly the legal constraints: families that are non-empty,
  free of repetitions and inside the graph, cohorts that are non-empty and inside the graph,
  each pairwise disjoint. It returns an error on any other input, and never panics.
\<close>

theorem commitment_plan_decides:
  assumes "graph_wf g" "\<And>C. C \<in> set (con_cohorts con) \<Longrightarrow> finite C"
  shows "if families_ok g (con_families con) \<and> cohorts_ok g (con_cohorts con)
    then \<exists>plan. commitment_plan g con = Ok plan else \<exists>e. commitment_plan g con = Err e"
proof (cases "families_ok g (con_families con)")
  case fams: True
  show ?thesis
  proof (cases "cohorts_ok g (con_cohorts con)")
    case True
    with fams commitment_plan_planned [OF assms(1)] show ?thesis by metis
  next
    case False
    with fams validate_families_decide [of g "con_families con"]
      validate_cohorts_decide [OF assms(2), of "con_cohorts con" g]
    show ?thesis by (auto simp: commitment_plan_def)
  qed
next
  case False
  with validate_families_decide [of g "con_families con"] show ?thesis
    by (auto simp: commitment_plan_def)
qed

text \<open>
  C4: a plan has a cut for every actor of the graph and for nothing else, and every cut
  passes the forest's own validity check \<open>is_valid_cut\<close>.
\<close>

theorem commitment_plan_cuts_valid:
  assumes "commitment_plan g con = Ok plan" "graph_wf g" "\<And>C. C \<in> set (con_cohorts con) \<Longrightarrow> finite C"
  shows "(map_of (plan_cuts plan) a \<noteq> None \<longleftrightarrow> a \<in> rg_actors g)
    \<and> (\<forall>c. map_of (plan_cuts plan) a = Some c \<longrightarrow> is_valid_cut (plan_forest plan) c)"
proof -
  obtain g' m loc where plan: "planned_by g con g' m loc plan" and cohs: "cohorts_ok g (con_cohorts con)"
    by (rule plan_ok_planned [OF assms])
  have "is_valid_cut (plan_forest plan) c" if "map_of (plan_cuts plan) a = Some c" for c
    using planned_cut_valid [OF plan assms(2) cohorts_ok_actors [OF cohs] that] by (simp add: is_valid_cut_iff)
  then show ?thesis using plan by (simp add: planned_by_def)
qed

text \<open>
  C1: the cut of an emit target can always be derived from the cut of its source: for every
  emit edge of the planned graph, \<open>cut_transition\<close> succeeds.
\<close>

theorem emit_edge_transition:
  assumes "commitment_plan g con = Ok plan" "graph_wf g" "\<And>C. C \<in> set (con_cohorts con) \<Longrightarrow> finite C"
    and "t \<in> emits_of g s"
  shows "\<exists>tr. cut_transition plan s t = Ok tr"
proof -
  obtain g' m loc where "planned_by g con g' m loc plan" "cohorts_ok g (con_cohorts con)"
    by (rule plan_ok_planned [OF assms(1-3)])
  then show ?thesis using planned_transition cohorts_ok_actors assms(2,4) by metis
qed

text \<open>All members of a cohort carry the same cut.\<close>

theorem cohort_shares_cut:
  assumes "commitment_plan g con = Ok plan" "graph_wf g" "\<And>C. C \<in> set (con_cohorts con) \<Longrightarrow> finite C"
    and "C \<in> set (con_cohorts con)" "a \<in> C" "b \<in> C"
  shows "map_of (plan_cuts plan) a = map_of (plan_cuts plan) b"
proof -
  obtain g' m loc where "planned_by g con g' m loc plan" "cohorts_ok g (con_cohorts con)"
    by (rule plan_ok_planned [OF assms(1-3)])
  then show ?thesis by (rule planned_cohort_shares [OF _ _ assms(4-6)])
qed

text \<open>
  C3: the cut of an actor commits to every actor it needs (reachable by emits or consumed on
  the way): the leaf of a needed actor lies at or below a selected node. The actors it
  consumes directly are themselves selected as leaves.
\<close>

theorem cut_covers_needs:
  assumes "commitment_plan g con = Ok plan" "graph_wf g" "\<And>C. C \<in> set (con_cohorts con) \<Longrightarrow> finite C"
    and "map_of (plan_cuts plan) a = Some c"
  shows "(\<forall>b \<in> needs_spec g a. \<exists>p \<in> c. \<exists>q. starts_with q p \<and> node (plan_forest plan) q = Some (Leaf b))
    \<and> (\<forall>b \<in> consumes_of g a. \<exists>p \<in> c. node (plan_forest plan) p = Some (Leaf b))"
proof -
  obtain g' m loc where plan: "planned_by g con g' m loc plan" and cohs: "cohorts_ok g (con_cohorts con)"
    by (rule plan_ok_planned [OF assms(1-3)])
  from plan assms(4) have c: "c = actor_cut g (con_cohorts con) g' m loc a"
    by (auto simp: planned_by_def split: if_splits)
  have lay: "laid_out (rg_actors g) (con_families con) m (roots (plan_forest plan)) loc"
    and cpl: "coupled g (con_cohorts con) g'" using plan unfolding planned_by_def by blast+
  have acts: "needs_spec g' a \<subseteq> rg_actors g" "exposed g (con_cohorts con) a \<subseteq> rg_actors g"
    using cpl needs_spec_actors [of g' a] exposed_actors [OF assms(2) cohorts_ok_actors [OF cohs]]
    by (auto simp: coupled_def)
  have "needs_spec g a \<subseteq> needs_spec g' a"
    using cpl by (intro needs_spec_mono) (auto simp: coupled_def)
  moreover have "consumes_of g a \<subseteq> exposed g (con_cohorts con) a"
    by (auto simp: exposed_def split: option.splits dest: find_SomeD)
  ultimately show ?thesis using planned_covers [OF lay acts] unfolding c actor_cut_def by simp blast
qed

lemma find_family_mset:
  fixes a :: string
  assumes "groups_disjoint (map set fams)" "mset fams = mset fams'" "groups_disjoint (map set fams')"
    "\<And>F. F \<in> set fams \<Longrightarrow> F \<noteq> []"
  shows "find (\<lambda>F. a \<in> set F) fams' = find (\<lambda>F. a \<in> set F) fams"
proof -
  have sets: "set fams' = set fams" using assms(2) by (metis mset_eq_setD)
  have unique: "F = G" if "groups_disjoint (map set xs)" "F \<in> set xs" "G \<in> set xs" "a \<in> set F" "a \<in> set G"
    for F G and xs :: "string list list"
  proof -
    from that obtain i j where "i < length xs" "F = xs ! i" "j < length xs" "G = xs ! j" by (metis in_set_conv_nth)
    then show ?thesis using that groups_disjoint_unique [of "map set xs" i j a] by simp
  qed
  show ?thesis
  proof (cases "find (\<lambda>F. a \<in> set F) fams")
    case None
    then have "find (\<lambda>F. a \<in> set F) fams' = None" using sets by (simp add: find_None_iff)
    with None show ?thesis by simp
  next
    case (Some F)
    then have F: "F \<in> set fams" "a \<in> set F" by (auto dest: find_SomeD)
    with sets obtain G where G: "find (\<lambda>F. a \<in> set F) fams' = Some G"
      by (cases "find (\<lambda>F. a \<in> set F) fams'") (auto simp: find_None_iff)
    then have "G \<in> set fams'" "a \<in> set G" by (auto dest: find_SomeD)
    with F sets unique [OF assms(1)] have "F = G" by simp
    with Some G show ?thesis by simp
  qed
qed

lemma groups_disjoint_mset_ok:
  assumes "families_ok g fams" "mset fams = mset fams'"
  shows "families_ok g fams'"
proof -
  have disj: "groups_disjoint (map set xs) \<longleftrightarrow> distinct xs \<and> (\<forall>F \<in> set xs. \<forall>G \<in> set xs. F \<noteq> G \<longrightarrow> set F \<inter> set G = {})"
    if "\<And>F. F \<in> set xs \<Longrightarrow> F \<noteq> []" for xs :: families
    using that
  proof (induction xs rule: rev_induct)
    case (snoc F xs)
    from snoc.prems have "F \<noteq> []" by simp
    then have apart: "(\<forall>H \<in> set (map set xs). H \<inter> set F = {})
        \<longleftrightarrow> F \<notin> set xs \<and> (\<forall>G \<in> set xs. G \<noteq> F \<longrightarrow> set G \<inter> set F = {})" by auto
    from snoc have IH: "groups_disjoint (map set xs) \<longleftrightarrow>
        distinct xs \<and> (\<forall>F \<in> set xs. \<forall>G \<in> set xs. F \<noteq> G \<longrightarrow> set F \<inter> set G = {})" by simp
    show ?case unfolding map_append list.map groups_disjoint_snoc IH apart
      by (simp add: ball_conj_distrib Int_commute [of "set F"] eq_commute [of F] conj_ac)
  qed (simp add: groups_disjoint_def)
  have sets: "set fams' = set fams" using assms(2) by (metis mset_eq_setD)
  have ne: "F \<noteq> []" if "F \<in> set fams" for F using assms(1) that by (simp add: families_ok_def)
  have "distinct fams' \<longleftrightarrow> distinct fams" using assms(2) by (metis mset_eq_imp_distinct_iff)
  with assms(1) show ?thesis
    using disj [of fams] disj [of fams'] ne sets by (simp add: families_ok_def)
qed

lemma commitment_forest_spec:
  assumes "graph_wf g" "families_ok g fams"
  shows "commitment_forest g fams = Ok (forest_spec (rg_actors g) fams)"
proof -
  from assms(2) validate_families_decide [of g fams] obtain m where
    m: "validate_families g fams = Ok m" "indexes m (map set fams)" by auto
  obtain loc where "build_commitment_forest g fams m
      = (Ok (forest_spec (rg_actors g) fams, loc) :: (constraint_error, _) outcome)"
    using build_located [OF _ assms(2) m(2)] assms(1) by (metis graph_wf_finite)
  with m(1) show ?thesis by (simp add: commitment_forest_def)
qed

text \<open>
  The order in which families are declared has no influence: any reordering is accepted
  as well and gives the same forest, because roots follow the sorted actor names.
\<close>

theorem forest_family_order:
  assumes "graph_wf g" "commitment_forest g fams = Ok f" "mset fams = mset fams'"
  shows "commitment_forest g fams' = Ok f"
proof -
  have ok: "families_ok g fams"
    using assms(2) validate_families_decide [of g fams] by (auto simp: commitment_forest_def split: if_splits)
  then have ok': "families_ok g fams'" using groups_disjoint_mset_ok assms(3) by blast
  have "root_of fams' a = root_of fams a" for a
    using find_family_mset [OF _ assms(3), of a] ok ok' by (simp add: root_of_def families_ok_def)
  then have "forest_spec (rg_actors g) fams' = forest_spec (rg_actors g) fams"
    by (simp add: forest_spec_def cong: map_cong)
  with assms(1,2) ok ok' show ?thesis by (simp add: commitment_forest_spec)
qed

section \<open>A concrete plan\<close>

text \<open>
  The actor \<open>A\<close> emits \<open>B\<close> and consumes \<open>C\<close>; \<open>B\<close> and \<open>C\<close> emit each other and are a family;
  \<open>D\<close> and \<open>E\<close> are a cohort.
\<close>

definition demo_graph :: route_graph where
  "demo_graph = add_emit (add_emit (add_emit (add_emit (add_consume empty_graph
     ''A'' ''C'') ''A'' ''B'') ''B'' ''C'') ''C'' ''B'') ''D'' ''E''"

definition demo_constraints :: commitment_constraints where
  "demo_constraints = \<lparr>con_families = [[''C'', ''B'']], con_cohorts = [{''E'', ''D''}]\<rparr>"

definition demo_plan :: commit_plan where
  "demo_plan =
     \<lparr>plan_forest = \<lparr>roots = [Leaf ''A'', Branch [Leaf ''C'', Leaf ''B''], Leaf ''D'', Leaf ''E'']\<rparr>,
      plan_cuts =
        [(''A'', {NodePath 1 [0], NodePath 1 [1]}),
         (''B'', {NodePath 1 []}),
         (''C'', {NodePath 1 []}),
         (''D'', {NodePath 2 [], NodePath 3 []}),
         (''E'', {NodePath 2 [], NodePath 3 []})]\<rparr>"

lemma demo_graph_wf: "graph_wf demo_graph"
  by (simp add: demo_graph_def add_emit_wf add_consume_wf)

lemma demo_cohorts_finite: "C \<in> set (con_cohorts demo_constraints) \<Longrightarrow> finite C"
  by (auto simp: demo_constraints_def)

lemma demo_planned: "commitment_plan demo_graph demo_constraints = Ok demo_plan"
  by code_simp

lemma demo_edge: "''B'' \<in> emits_of demo_graph ''A''"
  by code_simp

lemma commitment_plan_decides_witness:
  "\<exists>plan. commitment_plan demo_graph demo_constraints = Ok plan"
proof -
  have "families_ok demo_graph (con_families demo_constraints) \<and> cohorts_ok demo_graph (con_cohorts demo_constraints)"
    by (auto simp: families_ok_def cohorts_ok_def groups_disjoint_def demo_graph_def demo_constraints_def
      add_emit_def add_consume_def)
  then show ?thesis
    using commitment_plan_decides [OF demo_graph_wf demo_cohorts_finite] by simp
qed

lemma commitment_plan_cuts_valid_witness:
  "map_of (plan_cuts demo_plan) ''A'' \<noteq> None
    \<and> is_valid_cut (plan_forest demo_plan) {NodePath 1 [0], NodePath 1 [1]}"
  using commitment_plan_cuts_valid [OF demo_planned demo_graph_wf demo_cohorts_finite, of "''A''"]
  by (simp add: demo_plan_def)

lemma emit_edge_transition_witness: "\<exists>tr. cut_transition demo_plan ''A'' ''B'' = Ok tr"
  by (rule emit_edge_transition [OF demo_planned demo_graph_wf demo_cohorts_finite demo_edge])

lemma cohort_shares_cut_witness:
  "map_of (plan_cuts demo_plan) ''D'' = map_of (plan_cuts demo_plan) ''E''"
  by (rule cohort_shares_cut [OF demo_planned demo_graph_wf demo_cohorts_finite, of "{''E'', ''D''}"])
    (simp_all add: demo_constraints_def)

lemma cut_covers_needs_witness:
  "\<exists>p \<in> {NodePath 1 [0], NodePath 1 [1]}. node (plan_forest demo_plan) p = Some (Leaf ''C'')"
proof -
  have "map_of (plan_cuts demo_plan) ''A'' = Some {NodePath 1 [0], NodePath 1 [1]}"
    by (simp add: demo_plan_def)
  from cut_covers_needs [OF demo_planned demo_graph_wf demo_cohorts_finite this]
  show ?thesis by (simp add: demo_graph_def add_emit_def add_consume_def)
qed

lemma forest_family_order_witness:
  "commitment_forest demo_graph [[''A''], [''C'', ''B'']] = commitment_forest demo_graph [[''C'', ''B''], [''A'']]"
proof -
  have "commitment_forest demo_graph [[''C'', ''B''], [''A'']]
      = Ok \<lparr>roots = [Branch [Leaf ''A''], Branch [Leaf ''C'', Leaf ''B''], Leaf ''D'', Leaf ''E'']\<rparr>"
    by code_simp
  then show ?thesis
    using forest_family_order [OF demo_graph_wf, of "[[''C'', ''B''], [''A'']]" _ "[[''A''], [''C'', ''B'']]"]
    by simp
qed

end
