(* ===== verification/Route_Plan.thy ===== *)
theory Route_Plan
  imports Commitment_Plan
begin

text \<open>
  Route planning, \<^verbatim>\<open>src/routing/plan.rs\<close>: the actors of each state domain are split into
  weak emit components; every component of several actors becomes a cohort, and a component
  with a selector requirement or with enough non-gate members becomes a family with a
  route table. The families and cohorts are then handed to commitment planning. The lemmas
  show that this hand-over never fails and what the tables hold.
\<close>

section \<open>Data\<close>

record family_plan =
  fp_domain :: string
  fp_rep :: string
  fp_members :: "string list"
  fp_gates :: "string list"
  fp_table :: "string list"

record selector_requirement =
  sel_domain :: string
  sel_source :: string
  sel_variants :: "string list"

record routing_plan =
  rp_families :: "family_plan list"
  rp_commitments :: commit_plan

datatype route_plan_error =
    Constraint constraint_error
  | UnknownSelectorDomain nat string
  | SelectorSourceOutsideDomain nat string string
  | SelectorTooSmall nat
  | DuplicateSelectorVariant nat string
  | SelectorVariantOutsideDomain nat string string
  | SelectorVariantOutsideComponent nat string string string
  | ConflictingSelectors nat nat string string

section \<open>Selector requirements\<close>

definition variant_step ::
  "string set \<Rightarrow> nat \<Rightarrow> string \<Rightarrow> string set \<Rightarrow> string \<Rightarrow> (route_plan_error, string set) outcome" where
  "variant_step domain_actors selector_index domain variants actor =
     (if actor \<in> variants then Err (DuplicateSelectorVariant selector_index actor)
      else if actor \<notin> domain_actors then Err (SelectorVariantOutsideDomain selector_index domain actor)
      else Ok (insert actor variants))"

definition validate_selector ::
  "(string, string list) btree \<Rightarrow> nat \<times> selector_requirement \<Rightarrow> (route_plan_error, unit) outcome" where
  "validate_selector domains entry =
     (case entry of (selector_index, selector) \<Rightarrow>
        and_then (ok_or (map_of domains (sel_domain selector))
                   (UnknownSelectorDomain selector_index (sel_domain selector))) (\<lambda>actor_order.
          let domain_actors = set actor_order in
          if sel_source selector \<notin> domain_actors
          then Err (SelectorSourceOutsideDomain selector_index (sel_domain selector) (sel_source selector))
          else if length (sel_variants selector) < 2 then Err (SelectorTooSmall selector_index)
          else and_then
            (try_fold (variant_step domain_actors selector_index (sel_domain selector)) {}
               (sel_variants selector))
            (\<lambda>_. Ok ())))"

definition validate_selector_requirements ::
  "(string, string list) btree \<Rightarrow> selector_requirement list \<Rightarrow> (route_plan_error, unit) outcome" where
  "validate_selector_requirements domains selectors =
     try_each (validate_selector domains) (List.enumerate 0 selectors)"

definition check_selector ::
  "string \<Rightarrow> string set \<Rightarrow> nat \<times> selector_requirement \<Rightarrow> nat \<times> selector_requirement
     \<Rightarrow> (route_plan_error, unit) outcome" where
  "check_selector domain members first_entry entry =
     (case entry of (selector_index, selector) \<Rightarrow>
        (case find (\<lambda>actor. actor \<notin> members) (sel_variants selector) of
           Some actor \<Rightarrow>
             Err (SelectorVariantOutsideComponent selector_index domain (sel_source selector) actor)
         | None \<Rightarrow>
             if sel_variants selector \<noteq> sel_variants (snd first_entry)
             then Err (ConflictingSelectors selector_index (fst first_entry) domain (sel_source selector))
             else Ok ()))"

definition selector_prefix_for_component ::
  "string \<Rightarrow> string set \<Rightarrow> selector_requirement list \<Rightarrow> (route_plan_error, string list option) outcome" where
  "selector_prefix_for_component domain members selectors =
     (let component_selectors =
        filter (\<lambda>(_, selector). sel_domain selector = domain \<and> sel_source selector \<in> members)
          (List.enumerate 0 selectors) in
      case component_selectors of
        [] \<Rightarrow> Ok None
      | first # _ \<Rightarrow>
          and_then (try_each (check_selector domain members first) component_selectors)
            (\<lambda>_. Ok (Some (sel_variants (snd first)))))"

definition ordered_members :: "string list \<Rightarrow> string set \<Rightarrow> string list" where
  "ordered_members actor_order members = filter (\<lambda>actor. actor \<in> members) actor_order"

section \<open>Planning\<close>

text \<open>The route table of one component, or none when the loop continues without one.\<close>

definition component_table ::
  "string \<Rightarrow> component \<Rightarrow> string list \<Rightarrow> string list \<Rightarrow> selector_requirement list
     \<Rightarrow> (route_plan_error, string list option) outcome" where
  "component_table domain c members gates selectors =
     and_then (selector_prefix_for_component domain (comp_members c) selectors) (\<lambda>found.
       case found of
         Some table_prefix \<Rightarrow>
           Ok (Some (table_prefix @ filter (\<lambda>actor. actor \<notin> set gates \<and> actor \<notin> set table_prefix) members))
       | None \<Rightarrow>
           if card (comp_members c) < 3 then Ok None
           else let table = filter (\<lambda>actor. actor \<notin> set gates) members in
             if length table < 2 then Ok None else Ok (Some table))"

definition plan_component ::
  "string \<Rightarrow> string list \<Rightarrow> selector_requirement list
     \<Rightarrow> family_plan list \<times> commitment_constraints \<Rightarrow> component
     \<Rightarrow> (route_plan_error, family_plan list \<times> commitment_constraints) outcome" where
  "plan_component domain actor_order selectors st c =
     (case st of (families, constraints) \<Rightarrow>
       let constraints =
         (if 1 < card (comp_members c)
          then constraints\<lparr>con_cohorts := con_cohorts constraints @ [comp_members c]\<rparr> else constraints);
         members = ordered_members actor_order (comp_members c);
         gates = ordered_members actor_order (comp_gates c) in
       and_then (expect (case gates of g # _ \<Rightarrow> Some g
                         | [] \<Rightarrow> (case members of m # _ \<Rightarrow> Some m | [] \<Rightarrow> None))) (\<lambda>rep.
       and_then (component_table domain c members gates selectors) (\<lambda>found.
         case found of
           None \<Rightarrow> Ok (families, constraints)
         | Some table \<Rightarrow>
             Ok (families @ [\<lparr>fp_domain = domain, fp_rep = rep, fp_members = members,
                               fp_gates = gates, fp_table = table\<rparr>],
                 constraints\<lparr>con_families := con_families constraints @ [table]\<rparr>))))"

definition plan_domain ::
  "route_graph \<Rightarrow> selector_requirement list \<Rightarrow> family_plan list \<times> commitment_constraints
     \<Rightarrow> string \<times> string list \<Rightarrow> (route_plan_error, family_plan list \<times> commitment_constraints) outcome" where
  "plan_domain g selectors st entry =
     (case entry of (domain, actor_order) \<Rightarrow>
        and_then (components g (set actor_order)) (\<lambda>comps.
          try_fold (plan_component domain actor_order selectors) st comps))"

definition route_plan ::
  "route_graph \<Rightarrow> (string, string list) btree \<Rightarrow> selector_requirement list
     \<Rightarrow> (route_plan_error, routing_plan) outcome" where
  "route_plan g domains selectors =
     and_then (validate_selector_requirements domains selectors) (\<lambda>_.
     and_then (try_fold (plan_domain g selectors) ([], \<lparr>con_families = [], con_cohorts = []\<rparr>) domains)
       (\<lambda>(families, constraints).
         and_then (map_err Constraint (commitment_plan g constraints)) (\<lambda>commitments.
           Ok \<lparr>rp_families = families, rp_commitments = commitments\<rparr>)))"

section \<open>Selector validation\<close>

definition selector_ok :: "(string, string list) btree \<Rightarrow> selector_requirement \<Rightarrow> bool" where
  "selector_ok domains selector \<longleftrightarrow>
     (case map_of domains (sel_domain selector) of
        None \<Rightarrow> False
      | Some actor_order \<Rightarrow> sel_source selector \<in> set actor_order
          \<and> 2 \<le> length (sel_variants selector) \<and> distinct (sel_variants selector)
          \<and> set (sel_variants selector) \<subseteq> set actor_order)"

definition is_constraint_error :: "route_plan_error \<Rightarrow> bool" where
  "is_constraint_error e \<longleftrightarrow> (\<exists>c. e = Constraint c)"

lemma variant_steps_decide:
  "if distinct xs \<and> set xs \<subseteq> D
   then try_fold (variant_step D i d) {} xs = Ok (set xs)
   else \<exists>e. try_fold (variant_step D i d) {} xs = Err e \<and> \<not> is_constraint_error e"
proof -
  have "if distinct xs \<and> set xs \<subseteq> D \<and> set xs \<inter> seen = {}
      then try_fold (variant_step D i d) seen xs = Ok (seen \<union> set xs)
      else \<exists>e. try_fold (variant_step D i d) seen xs = Err e \<and> \<not> is_constraint_error e" for seen
  proof (induction xs arbitrary: seen)
    case (Cons x xs)
    show ?case
    proof (cases "x \<in> seen \<or> x \<notin> D")
      case True
      then show ?thesis by (auto simp: variant_step_def is_constraint_error_def)
    next
      case False
      then have "variant_step D i d seen x = Ok (insert x seen)" by (simp add: variant_step_def)
      with Cons.IH [of "insert x seen"] False show ?thesis by (auto split: if_splits)
    qed
  qed simp
  from this [of "{}"] show ?thesis by simp
qed

lemma validate_selector_decides:
  "if selector_ok domains selector then validate_selector domains (i, selector) = Ok ()
   else \<exists>e. validate_selector domains (i, selector) = Err e \<and> \<not> is_constraint_error e"
proof (cases "map_of domains (sel_domain selector)")
  case None
  then show ?thesis by (simp add: validate_selector_def selector_ok_def ok_or_def is_constraint_error_def)
next
  case (Some actor_order)
  with variant_steps_decide [of "sel_variants selector" "set actor_order" i "sel_domain selector"]
  show ?thesis
    by (auto simp: validate_selector_def selector_ok_def ok_or_def is_constraint_error_def Let_def split: if_splits)
qed

lemma validate_selectors_decide:
  "if \<forall>selector \<in> set selectors. selector_ok domains selector
   then validate_selector_requirements domains selectors = Ok ()
   else \<exists>e. validate_selector_requirements domains selectors = Err e \<and> \<not> is_constraint_error e"
proof -
  have "if \<forall>selector \<in> set selectors. selector_ok domains selector
      then try_each (validate_selector domains) (List.enumerate n selectors) = Ok ()
      else \<exists>e. try_each (validate_selector domains) (List.enumerate n selectors) = Err e \<and> \<not> is_constraint_error e" for n
  proof (induction selectors arbitrary: n)
    case (Cons selector selectors)
    from Cons.IH [of "Suc n"] validate_selector_decides [of domains selector n] show ?case
      by (cases "selector_ok domains selector") auto
  qed simp
  then show ?thesis by (simp add: validate_selector_requirements_def)
qed

text \<open>Planning itself fails only on a selector requirement.\<close>

definition selector_error :: "selector_requirement list \<Rightarrow> route_plan_error \<Rightarrow> bool" where
  "selector_error selectors e \<longleftrightarrow> \<not> is_constraint_error e \<and> selectors \<noteq> []"

lemma selector_prefix_cases:
  obtains (none) "selector_prefix_for_component domain members selectors = Ok None"
  | (found) selector where "selector \<in> set selectors" "set (sel_variants selector) \<subseteq> members"
      "selector_prefix_for_component domain members selectors = Ok (Some (sel_variants selector))"
  | (error) e where "selector_prefix_for_component domain members selectors = Err e" "selector_error selectors e"
proof -
  let ?cs = "filter (\<lambda>(_, selector). sel_domain selector = domain \<and> sel_source selector \<in> members)
    (List.enumerate 0 selectors)"
  have step: "check_selector domain members first x = Ok () \<or>
      (\<exists>e. check_selector domain members first x = Err e \<and> \<not> is_constraint_error e)" for first x
    by (auto simp: check_selector_def is_constraint_error_def split: prod.splits option.splits)
  have loop: "try_each (check_selector domain members first) xs = Ok () \<or>
      (\<exists>e. try_each (check_selector domain members first) xs = Err e \<and> \<not> is_constraint_error e)" for first xs
  proof (induction xs)
    case (Cons x xs)
    then show ?case using step [of first x] by auto
  qed simp
  show ?thesis
  proof (cases ?cs)
    case Nil
    then show ?thesis by (intro none) (simp add: selector_prefix_for_component_def)
  next
    case (Cons first rest)
    obtain i selector where first: "first = (i, selector)" by (cases first)
    have "first \<in> set ?cs" using Cons by simp
    then have mem: "selector \<in> set selectors"
      using first by (auto simp: in_set_enumerate_eq)
    from loop [of first ?cs] show ?thesis
    proof
      assume ok: "try_each (check_selector domain members first) ?cs = Ok ()"
      then have "check_selector domain members first first = Ok ()"
        using \<open>first \<in> set ?cs\<close> by (auto simp: try_each_Ok_iff)
      then have "set (sel_variants selector) \<subseteq> members"
        using first by (auto simp: check_selector_def split: option.splits if_splits dest: find_NoneD)
      with mem ok Cons first show ?thesis
        by (intro found [of selector]) (simp_all add: selector_prefix_for_component_def)
    next
      assume "\<exists>e. try_each (check_selector domain members first) ?cs = Err e \<and> \<not> is_constraint_error e"
      then obtain e where e: "try_each (check_selector domain members first) ?cs = Err e" "\<not> is_constraint_error e"
        by blast
      moreover from mem e(2) have "selector_error selectors e" by (auto simp: selector_error_def)
      ultimately show ?thesis using Cons by (intro error [of e]) (simp_all add: selector_prefix_for_component_def)
    qed
  qed
qed

section \<open>The collected constraints\<close>

text \<open>What every planned family looks like.\<close>

definition family_plan_ok :: "family_plan \<Rightarrow> bool" where
  "family_plan_ok fp \<longleftrightarrow> 2 \<le> length (fp_table fp) \<and> distinct (fp_table fp)
     \<and> set (fp_table fp) \<subseteq> set (fp_members fp) \<and> set (fp_gates fp) \<subseteq> set (fp_members fp)
     \<and> set (fp_members fp) \<subseteq> set (fp_gates fp) \<union> set (fp_table fp)
     \<and> fp_rep fp \<in> set (fp_members fp) \<and> (fp_gates fp \<noteq> [] \<longrightarrow> fp_rep fp = hd (fp_gates fp))"

text \<open>
  The state of the collecting loops: \<open>D\<close> holds the members of the components visited so far.
  Families and cohorts lie in it, so a further component outside \<open>D\<close> stays disjoint from them.
\<close>

definition collect_inv :: "string set \<Rightarrow> family_plan list \<times> commitment_constraints \<Rightarrow> bool" where
  "collect_inv D st \<longleftrightarrow> (case st of (fams, con) \<Rightarrow>
     con_families con = map fp_table fams
     \<and> (\<forall>fp \<in> set fams. family_plan_ok fp \<and> set (fp_members fp) \<subseteq> D)
     \<and> groups_disjoint (map set (con_families con))
     \<and> (\<forall>C \<in> set (con_cohorts con). C \<noteq> {} \<and> finite C \<and> C \<subseteq> D)
     \<and> groups_disjoint (con_cohorts con))"

lemma collect_inv_mono: "collect_inv D st \<Longrightarrow> D \<subseteq> E \<Longrightarrow> collect_inv E st"
  unfolding collect_inv_def by (cases st) blast

lemma collect_add_cohort:
  assumes "collect_inv D (fams, con)" "M \<inter> D = {}" "finite M" "M \<noteq> {}"
  shows "collect_inv (D \<union> M) (fams, con\<lparr>con_cohorts := con_cohorts con @ [M]\<rparr>)"
proof -
  have "C \<inter> M = {}" if "C \<in> set (con_cohorts con)" for C
  proof -
    have "C \<subseteq> D" using assms(1) that by (simp add: collect_inv_def)
    with assms(2) show ?thesis by blast
  qed
  with assms show ?thesis by (auto simp: collect_inv_def groups_disjoint_snoc)
qed

lemma collect_add_family:
  assumes "collect_inv (D \<union> M) (fams, con)" "\<And>fp. fp \<in> set fams \<Longrightarrow> set (fp_members fp) \<subseteq> D"
    and "M \<inter> D = {}" "family_plan_ok fp" "set (fp_members fp) \<subseteq> M"
  shows "collect_inv (D \<union> M) (fams @ [fp], con\<lparr>con_families := con_families con @ [fp_table fp]\<rparr>)"
proof -
  have "set (fp_table fp) \<subseteq> M" using assms(4,5) by (auto simp: family_plan_ok_def)
  moreover have "set (fp_table fp') \<subseteq> D" if "fp' \<in> set fams" for fp'
  proof -
    have "set (fp_table fp') \<subseteq> set (fp_members fp')"
      using assms(1) that by (simp add: collect_inv_def family_plan_ok_def)
    with assms(2) [OF that] show ?thesis by blast
  qed
  ultimately have "set (fp_table fp') \<inter> set (fp_table fp) = {}" if "fp' \<in> set fams" for fp'
    using that assms(3) by blast
  then have "H \<inter> set (fp_table fp) = {}" if "H \<in> set (map set (con_families con))" for H
    using that assms(1) by (auto simp: collect_inv_def)
  with assms show ?thesis by (auto simp: collect_inv_def groups_disjoint_snoc)
qed

lemma set_ordered_members: "M \<subseteq> set order \<Longrightarrow> set (ordered_members order M) = M"
  by (auto simp: ordered_members_def)

definition variants_ok :: "selector_requirement list \<Rightarrow> bool" where
  "variants_ok selectors \<longleftrightarrow> (\<forall>selector \<in> set selectors.
     2 \<le> length (sel_variants selector) \<and> distinct (sel_variants selector))"

lemma component_table_cases:
  assumes sels: "variants_ok selectors"
    and mem: "set members = comp_members c" "distinct members"
  obtains (none) "component_table domain c members gates selectors = Ok None"
  | (table) table where "component_table domain c members gates selectors = Ok (Some table)"
      "2 \<le> length table" "distinct table" "set table \<subseteq> set members"
      "set members \<subseteq> set gates \<union> set table"
  | (error) e where "component_table domain c members gates selectors = Err e" "selector_error selectors e"
proof (cases rule: selector_prefix_cases [of domain "comp_members c" selectors])
  case none
  let ?rest = "filter (\<lambda>actor. actor \<notin> set gates) members"
  show ?thesis
  proof (cases "card (comp_members c) < 3 \<or> length ?rest < 2")
    case True
    with none that(1) show ?thesis by (auto simp: component_table_def Let_def)
  next
    case False
    with none have "component_table domain c members gates selectors = Ok (Some ?rest)"
      by (simp add: component_table_def Let_def)
    with False mem show ?thesis by (intro that(2) [of ?rest]) auto
  qed
next
  case (found selector)
  let ?table = "sel_variants selector
    @ filter (\<lambda>actor. actor \<notin> set gates \<and> actor \<notin> set (sel_variants selector)) members"
  have "component_table domain c members gates selectors = Ok (Some ?table)"
    using found(3) by (simp add: component_table_def)
  then show ?thesis
    using sels found(1,2) mem by (intro that(2) [of ?table]) (auto simp: variants_ok_def)
next
  case (error e)
  then show ?thesis by (intro that(3) [of e]) (simp_all add: component_table_def)
qed

lemma plan_component_inv:
  assumes sels: "variants_ok selectors"
    and order: "distinct order" "comp_members c \<subseteq> set order" "comp_members c \<noteq> {}"
      "comp_gates c \<subseteq> comp_members c"
    and inv: "collect_inv D st" and new: "comp_members c \<inter> D = {}"
  shows "(\<exists>st'. plan_component domain order selectors st c = Ok st' \<and> collect_inv (D \<union> comp_members c) st'
      \<and> set (con_cohorts (snd st')) = set (con_cohorts (snd st))
          \<union> (if 1 < card (comp_members c) then {comp_members c} else {}))
    \<or> (\<exists>e. plan_component domain order selectors st c = Err e \<and> selector_error selectors e)"
proof -
  obtain fams con where st: "st = (fams, con)" by (cases st)
  let ?M = "comp_members c"
  define con1 where "con1 = (if 1 < card ?M then con\<lparr>con_cohorts := con_cohorts con @ [?M]\<rparr> else con)"
  let ?mem = "ordered_members order ?M" and ?gates = "ordered_members order (comp_gates c)"
  have mem: "set ?mem = ?M" "distinct ?mem" and gates: "set ?gates = comp_gates c"
    using order by (auto simp: ordered_members_def)
  have "finite ?M" using order(2) by (rule finite_subset) simp
  have old: "set (fp_members fp) \<subseteq> D" if "fp \<in> set fams" for fp
    using inv that by (simp add: st collect_inv_def)
  have con: "collect_inv (D \<union> ?M) (fams, con1)"
    using collect_add_cohort [of D fams con ?M] collect_inv_mono [of D "(fams, con)" "D \<union> ?M"]
      inv new order(3) \<open>finite ?M\<close> by (simp add: st con1_def)
  have cohorts: "set (con_cohorts con1) = set (con_cohorts con) \<union> (if 1 < card ?M then {?M} else {})"
    by (simp add: con1_def)
  obtain rep where rep: "(case ?gates of g # _ \<Rightarrow> Some g | [] \<Rightarrow> (case ?mem of m # _ \<Rightarrow> Some m | [] \<Rightarrow> None)) = Some rep"
    "rep \<in> ?M" "?gates \<noteq> [] \<longrightarrow> rep = hd ?gates"
    using mem gates order(3,4) by (cases ?gates; cases ?mem) auto
  have run: "plan_component domain order selectors (fams, con) c =
      and_then (component_table domain c ?mem ?gates selectors) (\<lambda>found. case found of
         None \<Rightarrow> Ok (fams, con1)
       | Some table \<Rightarrow> Ok (fams @ [\<lparr>fp_domain = domain, fp_rep = rep, fp_members = ?mem,
             fp_gates = ?gates, fp_table = table\<rparr>],
           con1\<lparr>con_families := con_families con1 @ [table]\<rparr>))"
    using rep(1) by (simp only: plan_component_def con1_def Let_def prod.case expect_def option.case and_then.simps)
  show ?thesis
  proof (cases rule: component_table_cases [OF sels mem, where domain = domain and gates = "?gates",
      case_names none table error])
    case none
    with con cohorts show ?thesis by (simp add: run st)
  next
    case (error e)
    then show ?thesis by (simp add: run st)
  next
    case (table table)
    define fp where "fp = \<lparr>fp_domain = domain, fp_rep = rep, fp_members = ?mem, fp_gates = ?gates, fp_table = table\<rparr>"
    have "family_plan_ok fp" using table rep mem gates order(4) by (simp add: family_plan_ok_def fp_def)
    then have "collect_inv (D \<union> ?M) (fams @ [fp], con1\<lparr>con_families := con_families con1 @ [fp_table fp]\<rparr>)"
      by (intro collect_add_family [OF con old new]) (simp_all add: fp_def mem)
    with table(1) cohorts show ?thesis by (simp add: run st fp_def)
  qed
qed

section \<open>Visiting the domains\<close>

text \<open>What the collected cohorts promise of the visited domains.\<close>

definition cohorts_cover :: "route_graph \<Rightarrow> (string \<times> string list) list \<Rightarrow> cohorts \<Rightarrow> bool" where
  "cohorts_cover g entries cohorts \<longleftrightarrow>
     (\<forall>(d, order) \<in> set entries. \<forall>a \<in> set order. 1 < card (weak_class g (set order) a)
        \<longrightarrow> weak_class g (set order) a \<in> set cohorts)"

definition domains_ok :: "route_graph \<Rightarrow> (string \<times> string list) list \<Rightarrow> bool" where
  "domains_ok g domains \<longleftrightarrow>
     (\<forall>(d, order) \<in> set domains. distinct order \<and> set order \<subseteq> rg_actors g)
     \<and> groups_disjoint (map (set \<circ> snd) domains)"

lemma groups_disjoint_prefix:
  assumes "groups_disjoint (xs @ ys)"
  shows "groups_disjoint xs"
  unfolding groups_disjoint_def
proof (intro allI impI)
  fix j i assume "j < length xs" "i < j"
  moreover from this have "(xs @ ys) ! i \<inter> (xs @ ys) ! j = {}"
    using assms unfolding groups_disjoint_def by simp
  ultimately show "xs ! i \<inter> xs ! j = {}" by (simp add: nth_append)
qed

lemma plan_components_inv:
  assumes sels: "variants_ok selectors"
    and order: "distinct order" "\<forall>c \<in> set comps. comp_members c \<subseteq> set order \<and> comp_members c \<noteq> {}
      \<and> comp_gates c \<subseteq> comp_members c"
    and disj: "groups_disjoint (map comp_members comps)"
    and inv: "collect_inv D st" and new: "set order \<inter> D = {}"
  shows "(\<exists>st'. try_fold (plan_component domain order selectors) st comps = Ok st'
      \<and> collect_inv (D \<union> \<Union>(comp_members ` set comps)) st'
      \<and> set (con_cohorts (snd st)) \<subseteq> set (con_cohorts (snd st'))
      \<and> (\<forall>c \<in> set comps. 1 < card (comp_members c) \<longrightarrow> comp_members c \<in> set (con_cohorts (snd st'))))
    \<or> (\<exists>e. try_fold (plan_component domain order selectors) st comps = Err e \<and> selector_error selectors e)"
  (is "(\<exists>st'. _ \<and> ?I comps st') \<or> _")
proof (rule try_fold_safe [where I = ?I and E = "selector_error selectors"])
  show "?I [] st" using inv by simp
  fix ys c zs t
  assume split: "comps = ys @ c # zs" and t: "?I ys t"
  have c: "comp_members c \<subseteq> set order" "comp_members c \<noteq> {}" "comp_gates c \<subseteq> comp_members c"
    using order(2) split by auto
  have "groups_disjoint (map comp_members ys @ [comp_members c])"
    using disj split groups_disjoint_prefix [of "map comp_members ys @ [comp_members c]" "map comp_members zs"]
    by simp
  then have "M \<inter> comp_members c = {}" if "M \<in> comp_members ` set ys" for M
    using that by (auto simp: groups_disjoint_snoc)
  moreover have "comp_members c \<inter> D = {}" using c new by blast
  ultimately have fresh: "comp_members c \<inter> (D \<union> \<Union>(comp_members ` set ys)) = {}" by blast
  have all: "D \<union> \<Union>(comp_members ` set ys) \<union> comp_members c = D \<union> \<Union>(comp_members ` set (ys @ [c]))"
    by auto
  from t have "collect_inv (D \<union> \<Union>(comp_members ` set ys)) t" by blast
  from plan_component_inv [OF sels order(1) c this fresh, where domain = domain]
  show "(\<exists>t'. plan_component domain order selectors t c = Ok t' \<and> ?I (ys @ [c]) t')
      \<or> (\<exists>e. plan_component domain order selectors t c = Err e \<and> selector_error selectors e)"
  proof (elim disjE exE conjE)
    fix t' assume t': "plan_component domain order selectors t c = Ok t'"
      "collect_inv (D \<union> \<Union>(comp_members ` set ys) \<union> comp_members c) t'"
      "set (con_cohorts (snd t')) = set (con_cohorts (snd t))
        \<union> (if 1 < card (comp_members c) then {comp_members c} else {})"
    have sub: "set (con_cohorts (snd t)) \<subseteq> set (con_cohorts (snd t'))" using t'(3) by blast
    have "1 < card (comp_members c) \<Longrightarrow> comp_members c \<in> set (con_cohorts (snd t'))" using t'(3) by simp
    with t sub have "\<forall>d \<in> set (ys @ [c]). 1 < card (comp_members d) \<longrightarrow> comp_members d \<in> set (con_cohorts (snd t'))"
      by (simp add: subset_iff)
    moreover have "collect_inv (D \<union> \<Union>(comp_members ` set (ys @ [c]))) t'" using t'(2) unfolding all .
    moreover have "set (con_cohorts (snd st)) \<subseteq> set (con_cohorts (snd t'))" using t sub by (meson subset_trans)
    ultimately have "?I (ys @ [c]) t'" by (intro conjI)
    with t'(1) show ?thesis by blast
  qed blast
qed

lemma components_facts:
  assumes "components_spec g domain cs" "domain \<subseteq> rg_actors g"
  shows "\<And>c. c \<in> set cs \<Longrightarrow> comp_members c \<subseteq> domain \<and> comp_members c \<noteq> {} \<and> comp_gates c \<subseteq> comp_members c"
    and "groups_disjoint (map comp_members cs)"
    and "\<Union>(comp_members ` set cs) = domain"
    and "\<And>a. a \<in> domain \<Longrightarrow> \<exists>c \<in> set cs. comp_members c = weak_class g domain a"
proof -
  have cls: "\<exists>a \<in> domain. comp_members c = weak_class g domain a" if "c \<in> set cs" for c
    using assms(1) that by (simp add: components_spec_def)
  have one: "\<exists>!i. i < length cs \<and> a \<in> comp_members (cs ! i)" if "a \<in> domain" for a
    using assms(1) that by (simp add: components_spec_def)
  show mem: "comp_members c \<subseteq> domain \<and> comp_members c \<noteq> {} \<and> comp_gates c \<subseteq> comp_members c" if c: "c \<in> set cs" for c
  proof -
    obtain a where "a \<in> domain" "comp_members c = weak_class g domain a" using cls [OF c] by blast
    moreover have "comp_gates c \<subseteq> comp_members c" using assms(1) c by (auto simp: components_spec_def)
    ultimately show ?thesis using weak_class_domain [of a domain g] weak_class_refl [of a g domain] by blast
  qed
  show "groups_disjoint (map comp_members cs)"
    unfolding groups_disjoint_def
  proof (intro allI impI)
    fix j i assume ij: "j < length (map comp_members cs)" "i < j"
    have "a \<notin> comp_members (cs ! j)" if a: "a \<in> comp_members (cs ! i)" for a
    proof -
      have "a \<in> domain" using mem [of "cs ! i"] a ij by auto
      from one [OF this] a ij show ?thesis by (metis length_map less_irrefl less_trans)
    qed
    with ij show "map comp_members cs ! i \<inter> map comp_members cs ! j = {}" by auto
  qed
  show "\<Union>(comp_members ` set cs) = domain"
    using mem one by (fastforce simp: in_set_conv_nth)
  show "\<exists>c \<in> set cs. comp_members c = weak_class g domain a" if a: "a \<in> domain" for a
  proof -
    obtain i where i: "i < length cs" "a \<in> comp_members (cs ! i)" using one [OF a] by blast
    then obtain b where "comp_members (cs ! i) = weak_class g domain b" using cls [of "cs ! i"] by auto
    with i show ?thesis using weak_class_eq [of a g domain b] by (metis nth_mem)
  qed
qed

lemma plan_domain_inv:
  assumes g: "graph_wf g" and sels: "variants_ok selectors"
    and order: "distinct order" "set order \<subseteq> rg_actors g" and inv: "collect_inv D st"
    and new: "set order \<inter> D = {}"
  shows "(\<exists>st'. plan_domain g selectors st (domain, order) = Ok st' \<and> collect_inv (D \<union> set order) st'
      \<and> set (con_cohorts (snd st)) \<subseteq> set (con_cohorts (snd st'))
      \<and> cohorts_cover g [(domain, order)] (con_cohorts (snd st')))
    \<or> (\<exists>e. plan_domain g selectors st (domain, order) = Err e \<and> selector_error selectors e)"
proof -
  obtain cs where cs: "components g (set order) = (Ok cs :: (route_plan_error, _) outcome)"
    "components_spec g (set order) cs"
    by (rule components_exact [OF g order(2)])
  note facts = components_facts [OF cs(2) order(2)]
  have cover: "cohorts_cover g [(domain, order)] cohorts"
    if "\<forall>c \<in> set cs. 1 < card (comp_members c) \<longrightarrow> comp_members c \<in> set cohorts" for cohorts
    unfolding cohorts_cover_def using that facts(4) by (auto, metis)
  have mem: "\<forall>c \<in> set cs. comp_members c \<subseteq> set order \<and> comp_members c \<noteq> {} \<and> comp_gates c \<subseteq> comp_members c"
    using facts(1) by blast
  from plan_components_inv [OF sels order(1) mem facts(2) inv new, where domain = domain]
  show ?thesis
  proof (elim disjE exE conjE)
    fix st' assume "try_fold (plan_component domain order selectors) st cs = Ok st'"
      "collect_inv (D \<union> \<Union>(comp_members ` set cs)) st'"
      "set (con_cohorts (snd st)) \<subseteq> set (con_cohorts (snd st'))"
      "\<forall>c \<in> set cs. 1 < card (comp_members c) \<longrightarrow> comp_members c \<in> set (con_cohorts (snd st'))"
    with cover cs(1) facts(3) show ?thesis by (auto simp: plan_domain_def)
  qed (use cs(1) in \<open>simp_all add: plan_domain_def\<close>)
qed

lemma cohorts_cover_append:
  "cohorts_cover g (xs @ ys) cohorts \<longleftrightarrow> cohorts_cover g xs cohorts \<and> cohorts_cover g ys cohorts"
  by (auto simp: cohorts_cover_def)

lemma cohorts_cover_mono: "cohorts_cover g xs cohorts \<Longrightarrow> set cohorts \<subseteq> set cohorts' \<Longrightarrow> cohorts_cover g xs cohorts'"
  unfolding cohorts_cover_def by fast

lemma plan_domains_inv:
  assumes g: "graph_wf g" and sels: "variants_ok selectors" and domains: "domains_ok g domains"
  shows "(\<exists>st. try_fold (plan_domain g selectors) ([], \<lparr>con_families = [], con_cohorts = []\<rparr>) domains = Ok st
      \<and> collect_inv (\<Union>(set ` snd ` set domains)) st \<and> cohorts_cover g domains (con_cohorts (snd st)))
    \<or> (\<exists>e. try_fold (plan_domain g selectors) ([], \<lparr>con_families = [], con_cohorts = []\<rparr>) domains = Err e
      \<and> selector_error selectors e)"
proof (rule try_fold_safe [where I = "\<lambda>ys st. collect_inv (\<Union>(set ` snd ` set ys)) st \<and> cohorts_cover g ys (con_cohorts (snd st))"
    and E = "selector_error selectors"])
  show "collect_inv (\<Union>(set ` snd ` set [])) ([], \<lparr>con_families = [], con_cohorts = []\<rparr>)
      \<and> cohorts_cover g [] (con_cohorts (snd ([], \<lparr>con_families = [], con_cohorts = []\<rparr>)))"
    by (simp add: collect_inv_def cohorts_cover_def groups_disjoint_def)
  fix ys entry zs t
  assume split: "domains = ys @ entry # zs"
    and t: "collect_inv (\<Union>(set ` snd ` set ys)) t \<and> cohorts_cover g ys (con_cohorts (snd t))"
  obtain d order where entry: "entry = (d, order)" by (cases entry)
  have order: "distinct order" "set order \<subseteq> rg_actors g" using domains split entry by (auto simp: domains_ok_def)
  have "groups_disjoint (map (set \<circ> snd) ys @ [set order])"
    using domains split entry groups_disjoint_prefix [of "map (set \<circ> snd) ys @ [set order]" "map (set \<circ> snd) zs"]
    by (simp add: domains_ok_def)
  then have new: "set order \<inter> \<Union>(set ` snd ` set ys) = {}" by (auto simp: groups_disjoint_snoc)
  have all: "\<Union>(set ` snd ` set ys) \<union> set order = \<Union>(set ` snd ` set (ys @ [entry]))" by (auto simp: entry)
  from t have "collect_inv (\<Union>(set ` snd ` set ys)) t" by blast
  from plan_domain_inv [OF g sels order this new, of d]
  show "(\<exists>t'. plan_domain g selectors t entry = Ok t' \<and> collect_inv (\<Union>(set ` snd ` set (ys @ [entry]))) t'
        \<and> cohorts_cover g (ys @ [entry]) (con_cohorts (snd t')))
      \<or> (\<exists>e. plan_domain g selectors t entry = Err e \<and> selector_error selectors e)"
    using t cohorts_cover_mono [of g ys "con_cohorts (snd t)"] unfolding all cohorts_cover_append entry by blast
qed

lemma collected_constraints_ok:
  assumes "graph_wf g" "collect_inv D (fams, con)" "D \<subseteq> rg_actors g"
  shows "families_ok g (con_families con)" "cohorts_ok g (con_cohorts con)"
proof -
  show "cohorts_ok g (con_cohorts con)" 
  proof -
    have "groups_disjoint (con_cohorts con)" "\<forall>C \<in> set (con_cohorts con). C \<noteq> {} \<and> C \<subseteq> D"
      using assms(2) by (simp_all add: collect_inv_def)
    with assms(3) show ?thesis unfolding cohorts_ok_def by blast
  qed
  have "fp_table fp \<noteq> [] \<and> distinct (fp_table fp) \<and> set (fp_table fp) \<subseteq> rg_actors g" if "fp \<in> set fams" for fp
  proof -
    have "family_plan_ok fp" "set (fp_members fp) \<subseteq> D" using assms(2) that by (simp_all add: collect_inv_def)
    with assms(3) show ?thesis by (auto simp: family_plan_ok_def)
  qed
  then show "families_ok g (con_families con)" using assms(2) by (auto simp: families_ok_def collect_inv_def)
qed

lemma domains_ok_actors: "domains_ok g domains \<Longrightarrow> \<Union>(set ` snd ` set domains) \<subseteq> rg_actors g"
  unfolding domains_ok_def by fastforce

text \<open>The outcome of planning: a plan with what was collected, or an error about a selector.\<close>

lemma route_plan_outcome:
  assumes g: "graph_wf g" and domains: "domains_ok g domains"
  obtains (planned) fams con plan where
      "route_plan g domains selectors = Ok \<lparr>rp_families = fams, rp_commitments = plan\<rparr>"
      "collect_inv (\<Union>(set ` snd ` set domains)) (fams, con)" "cohorts_cover g domains (con_cohorts con)"
      "commitment_plan g con = Ok plan" "\<forall>selector \<in> set selectors. selector_ok domains selector"
  | (error) e where "route_plan g domains selectors = Err e" "selector_error selectors e"
proof (cases "\<forall>selector \<in> set selectors. selector_ok domains selector")
  case False
  then obtain e where e: "validate_selector_requirements domains selectors = Err e" "\<not> is_constraint_error e"
    using validate_selectors_decide [of selectors domains] unfolding if_not_P [OF False] by blast
  moreover have "selectors \<noteq> []" using False by auto
  ultimately show ?thesis by (intro error [of e]) (simp_all add: route_plan_def selector_error_def)
next
  case True
  then have valid: "validate_selector_requirements domains selectors = Ok ()"
    using validate_selectors_decide [of selectors domains] by simp
  have "variants_ok selectors" using True by (auto simp: variants_ok_def selector_ok_def split: option.splits)
  from plan_domains_inv [OF g this domains] show ?thesis
  proof (elim disjE exE conjE)
    fix st assume st: "try_fold (plan_domain g selectors) ([], \<lparr>con_families = [], con_cohorts = []\<rparr>) domains = Ok st"
      "collect_inv (\<Union>(set ` snd ` set domains)) st" "cohorts_cover g domains (con_cohorts (snd st))"
    obtain fams con where con: "st = (fams, con)" by (cases st)
    from collected_constraints_ok [OF g, of _ fams con] st(2) domains_ok_actors [OF domains]
    have "families_ok g (con_families con)" "cohorts_ok g (con_cohorts con)" unfolding con by blast+
    then obtain plan where plan: "commitment_plan g con = Ok plan"
      using commitment_plan_planned [OF g] by blast
    show ?thesis
      using st plan valid True unfolding con by (intro planned [of fams plan con]) (simp_all add: route_plan_def)
  next
    fix e assume "try_fold (plan_domain g selectors) ([], \<lparr>con_families = [], con_cohorts = []\<rparr>) domains = Err e"
      "selector_error selectors e"
    with valid show ?thesis by (intro error [of e]) (simp_all add: route_plan_def)
  qed
qed

section \<open>Properties\<close>

text \<open>
  \<open>validate_selector_requirements\<close> accepts exactly the requirements that name a known
  domain, a source inside it and at least two distinct variants inside it; otherwise it
  returns an error and never panics.
\<close>

theorem validate_selectors_correct:
  "if \<forall>selector \<in> set selectors. \<exists>actor_order. map_of domains (sel_domain selector) = Some actor_order
        \<and> sel_source selector \<in> set actor_order \<and> 2 \<le> length (sel_variants selector)
        \<and> distinct (sel_variants selector) \<and> set (sel_variants selector) \<subseteq> set actor_order
   then validate_selector_requirements domains selectors = Ok ()
   else \<exists>e. validate_selector_requirements domains selectors = Err e"
proof -
  have "selector_ok domains selector \<longleftrightarrow> (\<exists>actor_order. map_of domains (sel_domain selector) = Some actor_order
        \<and> sel_source selector \<in> set actor_order \<and> 2 \<le> length (sel_variants selector)
        \<and> distinct (sel_variants selector) \<and> set (sel_variants selector) \<subseteq> set actor_order)" for selector
    by (simp add: selector_ok_def split: option.splits)
  with validate_selectors_decide [of selectors domains] show ?thesis by (auto split: if_splits)
qed

text \<open>
  C7: the families and cohorts that \<open>route_plan\<close> derives from disjoint domains of graph
  actors are always legal: planning never panics, never reports a \<open>Constraint\<close> error, and
  without selector requirements it always returns a plan.
\<close>

theorem route_plan_constraints_legal:
  assumes "graph_wf g" "domains_ok g domains"
  shows "route_plan g domains selectors \<noteq> Panic \<and> (\<forall>c. route_plan g domains selectors \<noteq> Err (Constraint c))
    \<and> (\<exists>rp. route_plan g domains [] = Ok rp)"
proof (intro conjI allI)
  show "route_plan g domains selectors \<noteq> Panic"
    by (cases rule: route_plan_outcome [OF assms, of selectors]) simp_all
  show "route_plan g domains selectors \<noteq> Err (Constraint c)" for c
    by (cases rule: route_plan_outcome [OF assms, of selectors])
      (auto simp: selector_error_def is_constraint_error_def)
  show "\<exists>rp. route_plan g domains [] = Ok rp"
    by (cases rule: route_plan_outcome [OF assms, of "[]"]) (auto simp: selector_error_def)
qed


text \<open>
  C9: actors of one domain joined by an emit edge carry the same cut in the plan, so that a
  state they exchange has one layout.
\<close>

theorem linked_actors_share_cut:
  assumes "graph_wf g" "domains_ok g domains" "route_plan g domains selectors = Ok rp"
    and "(d, order) \<in> set domains" "a \<in> set order" "b \<in> set order" "b \<in> emits_of g a"
  shows "map_of (plan_cuts (rp_commitments rp)) a = map_of (plan_cuts (rp_commitments rp)) b"
proof (cases "a = b")
  case False
  obtain con where con: "collect_inv (\<Union>(set ` snd ` set domains)) (rp_families rp, con)"
    "cohorts_cover g domains (con_cohorts con)" "commitment_plan g con = Ok (rp_commitments rp)"
    using assms(3) by (cases rule: route_plan_outcome [OF assms(1,2), of selectors]) auto
  let ?C = "weak_class g (set order) a"
  have mem: "a \<in> ?C" "b \<in> ?C" using assms(5-7) False by (auto simp: weak_class_def weak_rel_def intro: r_into_rtrancl)
  have "finite ?C" using weak_class_domain [OF assms(5)] by (rule finite_subset) simp
  then have "1 < card ?C" using mem False by (metis card_le_Suc0_iff_eq not_less One_nat_def)
  then have C: "?C \<in> set (con_cohorts con)" using con(2) assms(4,5) by (auto simp: cohorts_cover_def)
  obtain g' m loc where plan: "planned_by g con g' m loc (rp_commitments rp)" and cohs: "cohorts_ok g (con_cohorts con)"
    by (rule plan_ok_planned [OF con(3) assms(1)]) (use con(1) in \<open>auto simp: collect_inv_def\<close>)
  show ?thesis by (rule planned_cohort_shares [OF plan cohs C mem])
qed simp

section \<open>A concrete route plan\<close>

text \<open>The example of the chess application: pieces exchange a state through the actor \<open>M\<close>.\<close>

definition demo_routes :: route_graph where
  "demo_routes = add_emit (add_emit (add_emit (add_emit (add_emit (add_actor empty_graph ''K'')
     ''P'' ''M'') ''M'' ''K'') ''M'' ''N'') ''N'' ''M'') ''M'' ''S''"

definition demo_domains :: "(string, string list) btree" where
  "demo_domains = [(''DP'', [''K'', ''M'', ''N'']), (''DS'', [''S'']), (''DZ'', [''P''])]"

lemma demo_routes_wf: "graph_wf demo_routes"
  by (simp add: demo_routes_def add_emit_wf add_actor_wf)

lemma demo_domains_ok: "domains_ok demo_routes demo_domains"
  by (auto simp: domains_ok_def demo_domains_def demo_routes_def add_emit_def add_actor_def groups_disjoint_def
    less_Suc_eq)

fun ok_value :: "('e, 'a) outcome \<Rightarrow> 'a option" where
  "ok_value (Ok x) = Some x"
| "ok_value (Err e) = None"
| "ok_value Panic = None"

definition demo_route_plan :: routing_plan where
  "demo_route_plan = the (ok_value (route_plan demo_routes demo_domains []))"

lemma demo_route_planned: "route_plan demo_routes demo_domains [] = Ok demo_route_plan"
  by code_simp

lemma route_plan_constraints_legal_witness: "\<exists>rp. route_plan demo_routes demo_domains [] = Ok rp"
  using route_plan_constraints_legal [OF demo_routes_wf demo_domains_ok] by blast


lemma linked_actors_share_cut_witness:
  "map_of (plan_cuts (rp_commitments demo_route_plan)) ''M'' = map_of (plan_cuts (rp_commitments demo_route_plan)) ''K''"
proof -
  have "''K'' \<in> emits_of demo_routes ''M''" by code_simp
  then show ?thesis
    by (intro linked_actors_share_cut [OF demo_routes_wf demo_domains_ok demo_route_planned,
      of "''DP''" "[''K'', ''M'', ''N'']"]) (simp_all add: demo_domains_def)
qed

lemma validate_selectors_correct_witness:
  "validate_selector_requirements demo_domains
     [\<lparr>sel_domain = ''DP'', sel_source = ''M'', sel_variants = [''N'', ''K'']\<rparr>] = Ok ()"
  using validate_selectors_correct
    [of "[\<lparr>sel_domain = ''DP'', sel_source = ''M'', sel_variants = [''N'', ''K'']\<rparr>]" demo_domains]
  by (simp add: demo_domains_def)

end
