(* ===== verification/Artifact_Model.thy ===== *)
theory Artifact_Model
  imports Argent_Prelude "HOL-Library.Word"
begin

text \<open>
  The portable Argent artifact, \<^verbatim>\<open>crates/argent-artifact/src/lib.rs\<close>: its records and
  enumerations, the errors of its verification, and the parameters that stand for the code
  of other crates. \<open>'ty\<close> is \<open>silverscript_abi::TypeArtifact\<close>, \<open>'val\<close> its runtime values. Of
  the Sil ABI only the fields the sources read are kept. A \<open>usize\<close> is a \<^typ>\<open>nat\<close> (its
  bound is written where the code checks it), an \<open>i64\<close> cardinality bound an \<^typ>\<open>int\<close>, and
  the message of an error a datatype with one constructor per \<open>format!\<close> of the sources.
\<close>

type_synonym byte = "8 word"

section \<open>The Sil ABI as the sources read it\<close>

record state_span =
  span_offset :: nat
  span_len :: nat

record compiled_contract =
  cc_bytecode :: "byte list"
  cc_template_hash :: "byte list"
  cc_state_span :: state_span

record 'ty runtime_field =
  rf_name :: string
  rf_ty :: 'ty

record 'ty runtime_state =
  rs_source :: string
  rs_fields :: "'ty runtime_field list"

record 'ty sil_contract =
  sc_runtime_state :: "'ty runtime_state"
  sc_compiled :: compiled_contract

record 'ty sil_abi =
  sil_schema_version :: nat
  sil_contracts :: "(string, 'ty sil_contract) btree"

section \<open>Templates and routes\<close>

record actor_template =
  at_prefix :: "byte list"
  at_suffix :: "byte list"
  at_hash :: "byte list"

record actor_type_handle =
  ah_state :: string
  ah_context_fields :: "string list"
  ah_template :: actor_template

record template_receipt =
  tr_id :: string
  tr_actor :: string
  tr_contract :: string
  tr_symbol :: string
  tr_sil_template_hash :: "byte list"
  tr_actor_type_handle :: actor_type_handle

record template_hash_ref =
  th_id :: string
  th_actor :: string
  th_hash :: "byte list"

datatype runtime_route_leaf = ContractLeaf string | DigestLeaf string

datatype runtime_field_role =
    TemplateRole string
  | TemplateTableRole "string list"
  | TemplateDigestRole string
  | TemplateRootRole "runtime_route_leaf list"

record runtime_field_role_plan =
  fr_name :: string
  fr_role :: runtime_field_role

record runtime_state_plan =
  rsp_contract :: string
  rsp_source :: string
  rsp_field_roles :: "runtime_field_role_plan list"

datatype route_template_leaf =
    TemplateLeaf string string
  | RouteFamilyLeaf string string

record route_table_entry =
  te_index :: nat
  te_offset :: nat
  te_leaf :: route_template_leaf

record route_template_table =
  rt_id :: string
  rt_state :: string
  rt_field :: string
  rt_byte_len :: nat
  rt_entries :: "route_table_entry list"

datatype proof_side = SideLeft | SideRight

record route_proof_step =
  ps_side :: proof_side
  ps_hash_hex :: string

record route_proof_leaf =
  pl_index :: nat
  pl_leaf :: route_template_leaf
  pl_hash_hex :: string
  pl_proof :: "route_proof_step list"

record route_template_proof =
  rp_id :: string
  rp_table_id :: string
  rp_state :: string
  rp_field :: string
  rp_root_hex :: string
  rp_leaves :: "route_proof_leaf list"

record route_template_family =
  rfm_id :: string
  rfm_state :: string
  rfm_representative_actor :: string
  rfm_entry_actors :: "string list"
  rfm_table_id :: string
  rfm_actors :: "string list"

section \<open>Entries and actors\<close>

datatype observed_actor_side = SideInput | SideOutput

datatype hidden_param_subject =
    SubjectActor string
  | SubjectObservedActor string observed_actor_side string string
  | SubjectSpawnActor string string string
  | SubjectObservedOutputField string string string string
  | SubjectRouteFamily string
  | SubjectTemplateSelector string
  | SubjectStateExpansion string string string

datatype hidden_param_purpose =
    SpawnOutputIndex | TemplatePrefixBytes | TemplateSuffixBytes | TemplatePrefixLen | TemplateSuffixLen
  | TemplateHash | RouteTemplateLeaf | RouteTemplateProof | RouteFamilyTable | RouteFamilyProof
  | StateExpansionPreimage | ObservedOutputFieldValue

record witness_recipe =
  wr_id :: string
  wr_template_id :: "string option"
  wr_subject :: hidden_param_subject
  wr_param :: string
  wr_purpose :: hidden_param_purpose
  wr_route_proof_id :: "string option"

record witness_ref =
  wi_recipe_id :: string
  wi_param :: string
  wi_subject :: hidden_param_subject
  wi_purpose :: hidden_param_purpose
  wi_route_proof_id :: "string option"

record 'ty hidden_param =
  hp_recipe_id :: string
  hp_name :: string
  hp_ty :: 'ty
  hp_subject :: hidden_param_subject
  hp_purpose :: hidden_param_purpose
  hp_route_proof_id :: "string option"

datatype cardinality = One | Range int int

definition is_one :: "cardinality \<Rightarrow> bool" where
  "is_one c = (case c of One \<Rightarrow> True | Range _ _ \<Rightarrow> False)"

datatype actor_target = StaticActor string string | DynamicActor string

record spawn_output =
  so_name :: string
  so_actor :: string
  so_state :: string
  so_group_index :: nat
  so_cardinality :: cardinality
  so_target :: "actor_target option"

record spawn_decl =
  sp_name :: string
  sp_covenant :: string
  sp_outputs :: "spawn_output list"

record observed_actor =
  oa_name :: string
  oa_target :: actor_target
  oa_cardinality :: cardinality

datatype covenant_id_source = StateField string | EntryArgument nat

record observe_decl =
  ob_name :: string
  ob_covenant_expr :: string
  ob_covenant_id_source :: covenant_id_source
  ob_inputs :: "observed_actor list"
  ob_outputs :: "observed_actor list"

record template_selector =
  ts_name :: string
  ts_actor_enum :: string
  ts_state :: string
  ts_variants :: "string list"
  ts_fixed_actor :: "string option"

datatype entry_kind = Leader | Delegate

record consume_decl =
  co_name :: string
  co_actor :: string
  co_cardinality :: cardinality

record emit_output =
  eo_name :: string
  eo_auth_index :: "nat option"
  eo_actors :: "string list"
  eo_cardinality :: cardinality

datatype emit_decl = EmitNone | EmitOutputs "emit_output list"

record route_input =
  ri_name :: string
  ri_actor :: string
  ri_cov_index :: "nat option"

record route_output_handle =
  ro_name :: string
  ro_auth_index :: "nat option"
  ro_actors :: "string list"

record entry_route_plan =
  erp_active_input :: "route_input option"
  erp_leader_input :: "route_input option"
  erp_consumes :: "route_input list"
  erp_outputs :: "route_output_handle list"
  erp_witness_recipe_ids :: "string list"

datatype route_successor = ExactSelf | Constructed string string string

record route_decl =
  ro_output :: string
  ro_successor :: route_successor

record entry_abi_ref =
  ea_contract :: string
  ea_entry :: string

record entry_ref =
  er_actor :: string
  er_entry :: string

record 'ty entry_decl =
  en_name :: string
  en_kind :: entry_kind
  en_abi :: entry_abi_ref
  en_route_plan :: entry_route_plan
  en_hidden_params :: "'ty hidden_param list"
  en_template_selectors :: "template_selector list"
  en_observes :: "observe_decl list"
  en_spawns :: "spawn_decl list"
  en_witnesses :: "witness_ref list"
  en_consumes :: "consume_decl list"
  en_emits :: emit_decl
  en_routes :: "route_decl list"

record 'ty actor_decl =
  ac_name :: string
  ac_state :: string
  ac_abi_contract :: string
  ac_leader_for :: "entry_ref list"
  ac_entries :: "'ty entry_decl list"

section \<open>The artifact\<close>

datatype source_array = DynamicArray | FixedArray nat

record source_type =
  st_name :: string
  st_array :: "source_array option"
  st_actor_state :: "string option"

record 'ty argent_field =
  af_name :: string
  af_ty :: 'ty
  af_source_type :: "source_type option"
  af_virtual_slot :: bool

record 'ty argent_state =
  as_name :: string
  as_fields :: "'ty argent_field list"

record template_ref =
  tf_id :: string
  tf_actor :: string
  tf_symbol :: string

record actor_enum =
  aen_name :: string
  aen_state :: string
  aen_variants :: "string list"

record actor_interface =
  ai_id :: string
  ai_app :: string
  ai_actor :: string
  ai_state :: string
  ai_fingerprint_hex :: string

record interface_set =
  is_exports :: "actor_interface list"
  is_imports :: "actor_interface list"

record state_digest_expansion =
  sd_field :: string
  sd_state :: string

record state_expansion =
  se_state :: string
  se_base :: string
  se_digests :: "state_digest_expansion list"

record template_plan =
  tp_templates :: "template_receipt list"
  tp_runtime_states :: "runtime_state_plan list"
  tp_route_tables :: "route_template_table list"
  tp_route_proofs :: "route_template_proof list"
  tp_route_families :: "route_template_family list"
  tp_witness_recipes :: "witness_recipe list"

record 'ty argent_part =
  ap_templates :: "template_ref list"
  ap_template_plan :: template_plan
  ap_interfaces :: interface_set
  ap_states :: "'ty argent_state list"
  ap_state_expansions :: "state_expansion list"
  ap_actor_enums :: "actor_enum list"
  ap_actors :: "'ty actor_decl list"

record generator =
  ge_name :: string
  ge_version :: string

record app_dependency =
  ad_app :: string
  ad_artifact_id :: string

record 'ty artifact =
  art_schema_version :: nat
  art_id :: string
  art_generator :: generator
  art_app :: string
  art_dependencies :: "app_dependency list"
  art_root :: string
  art_modules :: "string list"
  art_argent :: "'ty argent_part"
  art_sil_abi :: "'ty sil_abi"

section \<open>Template lookups\<close>

definition hash_ref :: "template_receipt \<Rightarrow> template_hash_ref" where
  "hash_ref template =
     \<lparr>th_id = tr_id template, th_actor = tr_actor template, th_hash = tr_sil_template_hash template\<rparr>"

text \<open>The lookup of a slice of receipts, and of the map the consistency check builds.\<close>

definition template_hash_by_id :: "template_receipt list \<Rightarrow> string \<Rightarrow> template_hash_ref option" where
  "template_hash_by_id templates i = map_option hash_ref (find (\<lambda>t. tr_id t = i) templates)"

definition template_hash_by_actor :: "template_receipt list \<Rightarrow> string \<Rightarrow> template_hash_ref option" where
  "template_hash_by_actor templates a = map_option hash_ref (find (\<lambda>t. tr_actor t = a) templates)"

definition map_template_hash_by_id ::
  "(string, template_receipt) btree \<Rightarrow> string \<Rightarrow> template_hash_ref option" where
  "map_template_hash_by_id templates i = map_option hash_ref (map_of templates i)"

definition map_template_hash_by_actor ::
  "(string, template_receipt) btree \<Rightarrow> string \<Rightarrow> template_hash_ref option" where
  "map_template_hash_by_actor templates a =
     map_option hash_ref (find (\<lambda>t. tr_actor t = a) (map snd templates))"

definition route_table_receipt_id :: "string \<Rightarrow> string \<Rightarrow> string" where
  "route_table_receipt_id state field = ''route_table/'' @ state @ ''/'' @ field"

definition route_proof_receipt_id :: "string \<Rightarrow> string \<Rightarrow> string" where
  "route_proof_receipt_id state field = ''route_proof/'' @ state @ ''/'' @ field"

definition actor_interface_id :: "string \<Rightarrow> string" where
  "actor_interface_id actor = ''interface/actor/'' @ actor"

end
