(* ===== verification/Template_Errors.thy ===== *)
theory Template_Errors
  imports Artifact_Model
begin

text \<open>
  The errors of template-plan verification (\<^verbatim>\<open>TemplatePlanError\<close>) and the parameters that
  stand for library code: hashing (\<^verbatim>\<open>blake3\<close>), hexadecimal text (\<^verbatim>\<open>faster_hex\<close>) and the
  Silverscript ABI crate. \<open>hash_lib_ok\<close> and \<open>sil_lib_ok\<close> state what their documentation
  promises; theorems that need it have it as a hypothesis.
\<close>

section \<open>Errors\<close>

datatype hex_problem = HexDecoding | HashLength nat

datatype plan_problem =
    NoMatchingActor
  | SourceStateMismatch string string
  | FieldRoleDuplicated string
  | FieldRoleUnknown string
  | TemplateFieldType string
  | CannotFixMissingFamily string string
  | CannotFixMissingTable string string
  | CannotFixMissingProof string string
  | TableContainsNestedFamily string string string

datatype handle_problem =
    HandleMissingActor string
  | HandleStateMismatch string string string
  | HandleContextFields "string list" "string list"
  | HandleNotLeading
  | HandleMissingLayout string
  | HandleOpenFields string
  | HandleSpanOutside
  | HandlePrefixDiffers
  | HandleSuffixDiffers
  | HandleHashDiffers string string
  | HandleContextUndecodable
  | HandleContextUnencodable
  | HandleContextNotCanonical
  | HandleContextField string

datatype spawn_problem =
    DuplicateSpawn string
  | DuplicateCovenantBinding string
  | NoSpawnOutputs string
  | WrongGroupIndex string string nat nat
  | RepeatedSpawnOutput string string
  | DynamicCanonicalTarget string string
  | OutputIndexParams string string nat
  | MixedTemplateWitnesses string
  | InvalidActorWitnessPair string
  | SelfSpawnWitnesses string
  | DifferentProviders string
  | TemplateWitnessCount string nat hidden_param_purpose
  | TemplateWitnessSubject string hidden_param_purpose string string
  | UnknownSpawnOutput string string string
  | SpawnParamMismatch string string string
  | NonSpawnOutputIndex string

datatype (plugins only: code) template_plan_error =
    DuplicateTemplateId string
  | DuplicateRouteTableId string
  | DuplicateRouteProofId string
  | DuplicateWitnessRecipeId string
  | MissingTemplateReceipt string string
  | UnknownContract string
  | TemplateContractMismatch string string string
  | TemplateRefMismatch string string
  | UnreferencedTemplateReceipt string
  | TemplateHashMismatch string string string
  | ActorTypeHandleMismatch string handle_problem
  | InvalidHex string hex_problem
  | RouteTableLenMismatch string nat nat
  | MissingRouteTableTemplate string string string
  | RouteTableTemplateMismatch string string string string
  | MissingRouteTableFamily string string
  | RouteTableFamilyProofMismatch string string string string
  | RouteTableOffsetMismatch string nat nat nat
  | MissingRuntimeRouteTable string string string
  | RuntimeRouteTableMismatch string string string
  | DuplicateRuntimeStatePlan string
  | RuntimeStatePlanMismatch string plan_problem
  | UnreferencedRouteTable string
  | MissingRouteProofTable string string
  | MissingRouteProof string
  | RouteProofTableMismatch string string
  | RouteProofLeafHashMismatch string nat string string
  | RouteProofRootMismatch string string string
  | RouteProofMismatch string nat string string
  | RecursiveRouteFamilyLeaf string string
  | NestedRouteFamilyLeaf string string string
  | DuplicateRouteFamilyId string
  | RouteFamilyTooSmall string
  | DuplicateRouteFamilyActor string string
  | MissingRouteFamilyActor string string
  | RouteFamilyRepresentativeOutsideFamily string string
  | DuplicateRouteFamilyEntryActor string string
  | MissingRouteFamilyEntryActor string string
  | RouteFamilyStateMismatch string string string string
  | MissingRouteFamilyTable string string
  | RouteFamilyTableMismatch string string string "string list"
  | MissingWitnessTemplate string string
  | MissingWitnessImportedTemplate string string
  | MissingWitnessRouteFamily string string
  | MissingWitnessRouteProof string string
  | WitnessTemplateMismatch string string string
  | MissingHiddenParamRecipe string string string
  | HiddenParamRecipeMismatch string string string
  | MissingEntryWitnessRecipe string string string
  | EntryWitnessRecipeMismatch string string string
  | InvalidSpawnMetadata string spawn_problem
  | MissingRouteTemplate string string string
  | RouteTemplateMismatch string string string string
  | RoutePlanRecipeNotExposed string string
  | MissingRoutePlanRecipe string string

section \<open>Library code\<close>

text \<open>
  \<open>hl_hex_decode text n\<close> decodes into a buffer of \<open>n\<close> bytes, or reports an error.
\<close>

record hash_lib =
  hl_blake3 :: "byte list \<Rightarrow> byte list"
  hl_hex_encode :: "byte list \<Rightarrow> string"
  hl_hex_decode :: "string \<Rightarrow> nat \<Rightarrow> byte list option"

definition hash_lib_ok :: "'x hash_lib_scheme \<Rightarrow> bool" where
  "hash_lib_ok lib \<longleftrightarrow>
     (\<forall>bs. length (hl_blake3 lib bs) = 32)
     \<and> (\<forall>bs. length (hl_hex_encode lib bs) = 2 * length bs)
     \<and> (\<forall>bs. hl_hex_decode lib (hl_hex_encode lib bs) (length bs) = Some bs)"

text \<open>The functions of \<^verbatim>\<open>silverscript-abi\<close> that the sources call.\<close>

record ('ty, 'val) sil_lib = hash_lib +
  sl_contract :: "'ty sil_abi \<Rightarrow> string \<Rightarrow> 'ty sil_contract option"
  sl_fixed_bytes :: "nat \<Rightarrow> 'ty"
  sl_script_parts :: "compiled_contract \<Rightarrow> byte list \<Rightarrow> (byte list \<times> byte list \<times> byte list) option"
  sl_template_hash :: "byte list \<Rightarrow> byte list \<Rightarrow> byte list"
  sl_decode_state :: "'ty sil_abi \<Rightarrow> 'ty runtime_state \<Rightarrow> byte list \<Rightarrow> (string, 'val) btree option"
  sl_encode_state :: "'ty sil_abi \<Rightarrow> 'ty runtime_state \<Rightarrow> (string, 'val) btree \<Rightarrow> byte list option"
  sl_bytes_value :: "byte list \<Rightarrow> 'val"

text \<open>The contract lookup of the ABI is the lookup in its map of contracts.\<close>

definition sil_lib_ok :: "('ty, 'val, 'x) sil_lib_scheme \<Rightarrow> bool" where
  "sil_lib_ok lib \<longleftrightarrow> hash_lib_ok lib \<and> (\<forall>abi n. sl_contract lib abi n = map_of (sil_contracts abi) n)"

text \<open>Decoding a runtime state gives a \<^verbatim>\<open>BTreeMap\<close> with one value for every field of the layout.\<close>

definition decode_keys_ok :: "('ty, 'val, 'x) sil_lib_scheme \<Rightarrow> bool" where
  "decode_keys_ok lib \<longleftrightarrow>
     (\<forall>abi st code m. sl_decode_state lib abi st code = Some m \<longrightarrow>
        sorted_wrt (<) (bm_keys m) \<and> set (bm_keys m) = rf_name ` set (rs_fields st))"

lemma hash_lib_okD:
  assumes "hash_lib_ok lib"
  shows "length (hl_blake3 lib bs) = 32"
    and "length (hl_hex_encode lib bs) = 2 * length bs"
    and "hl_hex_decode lib (hl_hex_encode lib bs) (length bs) = Some bs"
  using assms by (simp_all add: hash_lib_ok_def)

lemma hex_encode_inject:
  "hash_lib_ok lib \<Longrightarrow> hl_hex_encode lib xs = hl_hex_encode lib ys \<longleftrightarrow> xs = ys"
  by (metis hash_lib_okD(2,3) mult_cancel1 option.inject zero_neq_numeral)

end
