(* ===== verification/Artifact_Examples.thy ===== *)
theory Artifact_Examples
  imports Template_Errors
begin

text \<open>
  Concrete artifacts for the witnesses of the artifact theories; the type artifact of the
  Sil ABI is instantiated by a number (the length of a fixed byte array).
\<close>

definition plain_entry :: "string \<Rightarrow> 'ty entry_decl" where
  "plain_entry name =
     \<lparr>en_name = name, en_kind = Leader, en_abi = \<lparr>ea_contract = ''A'', ea_entry = name\<rparr>,
      en_route_plan = \<lparr>erp_active_input = None, erp_leader_input = None, erp_consumes = [],
        erp_outputs = [], erp_witness_recipe_ids = []\<rparr>,
      en_hidden_params = [], en_template_selectors = [], en_observes = [], en_spawns = [],
      en_witnesses = [], en_consumes = [], en_emits = EmitNone, en_routes = []\<rparr>"

definition plain_actor :: "string \<Rightarrow> string \<Rightarrow> 'ty entry_decl list \<Rightarrow> 'ty actor_decl" where
  "plain_actor name state entries =
     \<lparr>ac_name = name, ac_state = state, ac_abi_contract = name, ac_leader_for = [], ac_entries = entries\<rparr>"

definition empty_plan :: template_plan where
  "empty_plan = \<lparr>tp_templates = [], tp_runtime_states = [], tp_route_tables = [], tp_route_proofs = [],
     tp_route_families = [], tp_witness_recipes = []\<rparr>"

definition plain_artifact :: "'ty actor_decl list \<Rightarrow> (string, 'ty sil_contract) btree \<Rightarrow> template_plan \<Rightarrow> 'ty artifact" where
  "plain_artifact actors contracts plan =
     \<lparr>art_schema_version = 1, art_id = [], art_generator = \<lparr>ge_name = ''argentc'', ge_version = ''0.1.0''\<rparr>,
      art_app = ''Tiny'', art_dependencies = [], art_root = ''tiny.ag'', art_modules = [],
      art_argent = \<lparr>ap_templates = [], ap_template_plan = plan,
        ap_interfaces = \<lparr>is_exports = [], is_imports = []\<rparr>, ap_states = [], ap_state_expansions = [],
        ap_actor_enums = [], ap_actors = actors\<rparr>,
      art_sil_abi = \<lparr>sil_schema_version = 1, sil_contracts = contracts\<rparr>\<rparr>"

definition plain_contract :: "byte list \<Rightarrow> nat \<Rightarrow> nat \<Rightarrow> 'ty sil_contract" where
  "plain_contract code offset len =
     \<lparr>sc_runtime_state = \<lparr>rs_source = ''S'', rs_fields = []\<rparr>,
      sc_compiled = \<lparr>cc_bytecode = code, cc_template_hash = [],
        cc_state_span = \<lparr>span_offset = offset, span_len = len\<rparr>\<rparr>\<rparr>"

text \<open>
  Library code that satisfies its documented laws: hexadecimal text with one character per
  half byte, and a state encoding that concatenates 32-byte fields.
\<close>

definition demo_hex :: "byte \<Rightarrow> string" where
  "demo_hex b = [char_of (uint b div 16), char_of (uint b mod 16)]"

definition demo_unhex :: "char \<Rightarrow> char \<Rightarrow> byte" where
  "demo_unhex c d = word_of_int (of_char d + 16 * of_char c)"

definition demo_sil_lib :: "(nat, byte list) sil_lib" where
  "demo_sil_lib =
     \<lparr>hl_blake3 = (\<lambda>bs. replicate 31 0 @ [fold (\<lambda>b acc. 3 * acc + b) bs 7]),
      hl_hex_encode = (\<lambda>bs. concat (map demo_hex bs)),
      hl_hex_decode = (\<lambda>cs n. if length cs = 2 * n
        then Some (map (\<lambda>i. demo_unhex (cs ! (2 * i)) (cs ! Suc (2 * i))) [0..<n]) else None),
      sl_contract = (\<lambda>abi. map_of (sil_contracts abi)),
      sl_fixed_bytes = id,
      sl_script_parts = (\<lambda>c code. Some (take (span_offset (cc_state_span c)) code,
         take (span_len (cc_state_span c)) (drop (span_offset (cc_state_span c)) code),
         drop (span_offset (cc_state_span c) + span_len (cc_state_span c)) code)),
      sl_template_hash = (\<lambda>p s. replicate 31 0 @ [fold (\<lambda>b acc. 3 * acc + b) (p @ 0 # s) 7]),
      sl_decode_state = (\<lambda>abi st code. if length code = 32 * length (rs_fields st)
         then Some (fold (\<lambda>(i, f). bm_insert (rf_name f) (take 32 (drop (32 * i) code)))
           (List.enumerate 0 (rs_fields st)) [])
         else None),
      sl_encode_state = (\<lambda>abi st vals.
         if list_all (\<lambda>f. map_of vals (rf_name f) \<noteq> None) (rs_fields st)
         then Some (concat (map (\<lambda>f. the (map_of vals (rf_name f))) (rs_fields st))) else None),
      sl_bytes_value = id\<rparr>"

lemma demo_unhex_hex: "demo_unhex (demo_hex b ! 0) (demo_hex b ! 1) = b"
proof -
  have b: "0 \<le> uint b" "uint b < 256" using uint_lt2p [of b] by simp_all
  then have "uint b div 16 mod 256 = uint b div 16" "uint b mod 16 mod 256 = uint b mod 16"
    by (auto intro!: mod_pos_pos_trivial simp: pos_imp_zdiv_nonneg_iff)
  moreover have "uint b mod 16 + 16 * (uint b div 16) = uint b" by simp
  ultimately show ?thesis
    by (simp only: demo_unhex_def demo_hex_def nth_Cons_0 One_nat_def nth_Cons_Suc of_char_of word_of_int_uint)
qed

lemma demo_hex_length: "length (concat (map demo_hex bs)) = 2 * length bs"
  by (induction bs) (simp_all add: demo_hex_def)

lemma demo_hex_nth:
  "k < length bs \<Longrightarrow> concat (map demo_hex bs) ! (2 * k) = demo_hex (bs ! k) ! 0
     \<and> concat (map demo_hex bs) ! Suc (2 * k) = demo_hex (bs ! k) ! 1"
proof (induction bs arbitrary: k)
  case (Cons b bs)
  have "demo_hex b = [demo_hex b ! 0, demo_hex b ! 1]" by (simp add: demo_hex_def)
  with Cons show ?case by (cases k) (metis append_Cons append_Nil concat.simps(2) list.simps(9) nth_Cons_0 nth_Cons_Suc
    mult_0_right, simp add: demo_hex_def)
qed simp

lemma demo_hash_lib_ok: "hash_lib_ok demo_sil_lib"
proof -
  have "map (\<lambda>i. demo_unhex (concat (map demo_hex bs) ! (2 * i)) (concat (map demo_hex bs) ! Suc (2 * i))) [0..<length bs] = bs" for bs
    by (rule nth_equalityI) (simp_all add: demo_hex_nth demo_unhex_hex [simplified])
  then show ?thesis by (simp add: hash_lib_ok_def demo_sil_lib_def demo_hex_length)
qed

lemma demo_sil_lib_ok: "sil_lib_ok demo_sil_lib"
  using demo_hash_lib_ok by (simp add: sil_lib_ok_def) (simp add: demo_sil_lib_def)

definition demo_fill ::
  "byte list \<Rightarrow> (nat \<times> nat runtime_field) list \<Rightarrow> (string, byte list) btree \<Rightarrow> (string, byte list) btree" where
  "demo_fill code = fold (\<lambda>(i, f). bm_insert (rf_name f) (take 32 (drop (32 * i) code)))"

lemma demo_fill_keys:
  "sorted_wrt (<) (bm_keys m) \<Longrightarrow> sorted_wrt (<) (bm_keys (demo_fill code xs m))
     \<and> set (bm_keys (demo_fill code xs m)) = set (bm_keys m) \<union> rf_name ` snd ` set xs"
proof (induction xs arbitrary: m)
  case (Cons x xs)
  obtain i f where x: "x = (i, f)" by (cases x)
  show ?case
    using Cons.IH [OF bm_insert_sorted [OF Cons.prems], of "rf_name f" "take 32 (drop (32 * i) code)"]
    by (auto simp: x demo_fill_def)
qed (simp add: demo_fill_def)

lemma demo_decode_keys_ok: "decode_keys_ok demo_sil_lib"
proof -
  have "snd ` set (List.enumerate 0 fs) = set fs" for fs :: "nat runtime_field list"
    by (metis list.set_map map_snd_enumerate)
  then have "sorted_wrt (<) (bm_keys (demo_fill code (List.enumerate 0 fs) []))
      \<and> set (bm_keys (demo_fill code (List.enumerate 0 fs) [])) = rf_name ` set fs" for code fs
    using demo_fill_keys [of "[]" code "List.enumerate 0 fs"] by simp
  then show ?thesis
    by (auto simp: decode_keys_ok_def demo_sil_lib_def simp flip: demo_fill_def split: if_splits)
qed

end
