(* ===== verification/Route_Proofs.thy ===== *)
theory Route_Proofs
  imports Artifact_Examples
begin

text \<open>
  Route-template proofs, the Merkle part of \<^verbatim>\<open>crates/argent-artifact/src/lib.rs\<close>: layers,
  membership proofs and their resolution, the proof built from a route table and the
  verification of a proof receipt. Hashing and hexadecimal text are parameters. An index out
  of range is a panic; the lemmas show that none is reached.
\<close>

definition slice_at :: "'a list \<Rightarrow> nat \<Rightarrow> 'a option" where
  "slice_at xs i = (if i < length xs then Some (xs ! i) else None)"

section \<open>Hexadecimal text\<close>

definition encode_hex :: "'x hash_lib_scheme \<Rightarrow> byte list \<Rightarrow> string" where
  "encode_hex lib bytes = hl_hex_encode lib bytes"

definition decode_hex_for_template ::
  "'x hash_lib_scheme \<Rightarrow> string \<Rightarrow> string \<Rightarrow> (template_plan_error, byte list) outcome" where
  "decode_hex_for_template lib i hex =
     ok_or (hl_hex_decode lib hex (length hex div 2)) (InvalidHex i HexDecoding)"

definition decode_hash_hex ::
  "'x hash_lib_scheme \<Rightarrow> string \<Rightarrow> string \<Rightarrow> (template_plan_error, byte list) outcome" where
  "decode_hash_hex lib i hex =
     and_then (decode_hex_for_template lib i hex) (\<lambda>bytes.
       if length bytes \<noteq> 32 then Err (InvalidHex i (HashLength (length bytes))) else Ok bytes)"

section \<open>The Merkle tree\<close>

definition merkle_parent :: "'x hash_lib_scheme \<Rightarrow> byte list \<Rightarrow> byte list \<Rightarrow> byte list" where
  "merkle_parent lib left right = hl_blake3 lib (left @ right)"

text \<open>One pass over the pairs of a layer; a last node without a partner is paired with itself.\<close>

fun next_layer :: "'x hash_lib_scheme \<Rightarrow> byte list list \<Rightarrow> byte list list" where
  "next_layer lib [] = []"
| "next_layer lib [left] = [merkle_parent lib left left]"
| "next_layer lib (left # right # rest) = merkle_parent lib left right # next_layer lib rest"

lemma length_next_layer [simp]: "length (next_layer lib layer) = (length layer + 1) div 2"
  by (induction lib layer rule: next_layer.induct) auto

function layers_from :: "'x hash_lib_scheme \<Rightarrow> byte list list \<Rightarrow> byte list list list" where
  "layers_from lib current =
     (if 1 < length current then current # layers_from lib (next_layer lib current) else [current])"
  by pat_completeness auto
termination
  by (relation "measure (\<lambda>(lib, current). length current)") auto

declare layers_from.simps [simp del]

definition merkle_layers :: "'x hash_lib_scheme \<Rightarrow> byte list list \<Rightarrow> byte list list list" where
  "merkle_layers lib leaves = (if leaves = [] then [] else layers_from lib leaves)"

definition empty_merkle_root_hex :: "'x hash_lib_scheme \<Rightarrow> string" where
  "empty_merkle_root_hex lib = encode_hex lib (hl_blake3 lib [])"

definition merkle_root_hex :: "'x hash_lib_scheme \<Rightarrow> byte list list list \<Rightarrow> string" where
  "merkle_root_hex lib layers =
     (case rev layers of
        (hash # _) # _ \<Rightarrow> encode_hex lib hash
      | _ \<Rightarrow> empty_merkle_root_hex lib)"

definition proof_step ::
  "'x hash_lib_scheme \<Rightarrow> byte list list \<Rightarrow> nat \<Rightarrow> (template_plan_error, route_proof_step) outcome" where
  "proof_step lib layer index =
     (let is_left_child = even index;
          sibling_index = (if is_left_child then min (index + 1) (length layer - 1) else index - 1) in
      and_then (expect (slice_at layer sibling_index)) (\<lambda>sibling.
        Ok \<lparr>ps_side = (if is_left_child then SideRight else SideLeft), ps_hash_hex = encode_hex lib sibling\<rparr>))"

fun merkle_proof ::
  "'x hash_lib_scheme \<Rightarrow> byte list list list \<Rightarrow> nat
     \<Rightarrow> (template_plan_error, route_proof_step list) outcome" where
  "merkle_proof lib (layer # next # layers) index =
     and_then (proof_step lib layer index) (\<lambda>step.
     and_then (merkle_proof lib (next # layers) (index div 2)) (\<lambda>steps. Ok (step # steps)))"
| "merkle_proof lib layers index = Ok []"

definition resolve_step ::
  "'x hash_lib_scheme \<Rightarrow> string \<Rightarrow> byte list \<Rightarrow> route_proof_step \<Rightarrow> (template_plan_error, byte list) outcome" where
  "resolve_step lib i resolved step =
     and_then (decode_hash_hex lib i (ps_hash_hex step)) (\<lambda>sibling.
       Ok (case ps_side step of
             SideLeft \<Rightarrow> merkle_parent lib sibling resolved
           | SideRight \<Rightarrow> merkle_parent lib resolved sibling))"

definition merkle_proof_root ::
  "'x hash_lib_scheme \<Rightarrow> string \<Rightarrow> string \<Rightarrow> route_proof_step list
     \<Rightarrow> (template_plan_error, byte list) outcome" where
  "merkle_proof_root lib i leaf_hash_hex steps =
     and_then (decode_hash_hex lib i leaf_hash_hex) (\<lambda>leaf. try_fold (resolve_step lib i) leaf steps)"

section \<open>Proofs of a route table\<close>

definition leaf_hash ::
  "'x hash_lib_scheme \<Rightarrow> string \<Rightarrow> (string \<Rightarrow> template_hash_ref option) \<Rightarrow> (string, string) btree
     \<Rightarrow> route_template_leaf \<Rightarrow> (template_plan_error, byte list) outcome" where
  "leaf_hash lib table_id by_id digest_roots leaf =
     (case leaf of
        TemplateLeaf actor template_id \<Rightarrow>
          and_then (ok_or (by_id template_id) (MissingRouteTableTemplate table_id actor template_id)) (\<lambda>template.
            if th_actor template \<noteq> actor
            then Err (RouteTableTemplateMismatch table_id actor template_id (th_actor template))
            else Ok (th_hash template))
      | RouteFamilyLeaf family_id proof_id \<Rightarrow>
          and_then (ok_or (map_of digest_roots proof_id)
                     (RouteTableFamilyProofMismatch table_id family_id proof_id [])) (\<lambda>root_hex.
            decode_hash_hex lib proof_id root_hex))"

definition table_leaf_hashes ::
  "'x hash_lib_scheme \<Rightarrow> route_template_table \<Rightarrow> (string \<Rightarrow> template_hash_ref option)
     \<Rightarrow> (string, string) btree \<Rightarrow> (template_plan_error, byte list list) outcome" where
  "table_leaf_hashes lib table by_id digest_roots =
     try_map (\<lambda>entry. leaf_hash lib (rt_id table) by_id digest_roots (te_leaf entry)) (rt_entries table)"

definition proof_leaf ::
  "'x hash_lib_scheme \<Rightarrow> byte list list list \<Rightarrow> nat \<times> route_table_entry \<times> byte list
     \<Rightarrow> (template_plan_error, route_proof_leaf) outcome" where
  "proof_leaf lib layers x =
     (case x of (position, entry, template_hash) \<Rightarrow>
        and_then (merkle_proof lib layers position) (\<lambda>steps.
          Ok \<lparr>pl_index = te_index entry, pl_leaf = te_leaf entry,
              pl_hash_hex = encode_hex lib template_hash, pl_proof = steps\<rparr>))"

definition route_proof_from_table ::
  "'x hash_lib_scheme \<Rightarrow> route_template_table \<Rightarrow> (string \<Rightarrow> template_hash_ref option)
     \<Rightarrow> (string, string) btree \<Rightarrow> (template_plan_error, route_template_proof) outcome" where
  "route_proof_from_table lib table by_id digest_roots =
     and_then (table_leaf_hashes lib table by_id digest_roots) (\<lambda>leaf_hashes.
       let layers = merkle_layers lib leaf_hashes in
       and_then (try_map (proof_leaf lib layers) (List.enumerate 0 (zip (rt_entries table) leaf_hashes))) (\<lambda>leaves.
         Ok \<lparr>rp_id = route_proof_receipt_id (rt_state table) (rt_field table), rp_table_id = rt_id table,
             rp_state = rt_state table, rp_field = rt_field table,
             rp_root_hex = merkle_root_hex lib layers, rp_leaves = leaves\<rparr>))"

text \<open>The checks on one leaf of a proof, in the order of the source.\<close>

definition verify_leaf ::
  "'x hash_lib_scheme \<Rightarrow> route_template_proof \<Rightarrow> byte list list \<Rightarrow> byte list list list \<Rightarrow> byte list
     \<Rightarrow> nat \<times> route_proof_leaf \<times> route_table_entry \<Rightarrow> (template_plan_error, unit) outcome" where
  "verify_leaf lib prf leaf_hashes layers root x =
     (case x of (index, leaf, entry) \<Rightarrow>
       if pl_index leaf \<noteq> te_index entry \<or> pl_leaf leaf \<noteq> te_leaf entry
       then Err (RouteProofTableMismatch (rp_id prf) (rp_table_id prf))
       else and_then
         (case pl_leaf leaf of
            RouteFamilyLeaf family_id proof_id \<Rightarrow>
              ensure (proof_id \<noteq> rp_id prf) (RecursiveRouteFamilyLeaf (rp_id prf) family_id)
          | TemplateLeaf _ _ \<Rightarrow> Ok ()) (\<lambda>_.
       and_then (expect (slice_at leaf_hashes index)) (\<lambda>expected_hash.
       if pl_hash_hex leaf \<noteq> encode_hex lib expected_hash
       then Err (RouteProofLeafHashMismatch (rp_id prf) index (encode_hex lib expected_hash) (pl_hash_hex leaf))
       else and_then (merkle_proof lib layers index) (\<lambda>expected_proof.
         and_then (merkle_proof_root lib (rp_id prf) (pl_hash_hex leaf) (pl_proof leaf)) (\<lambda>resolved.
           if pl_proof leaf \<noteq> expected_proof \<or> resolved \<noteq> root
           then Err (RouteProofMismatch (rp_id prf) index (encode_hex lib root) (encode_hex lib resolved))
           else Ok ())))))"

definition verify_route_proof ::
  "'x hash_lib_scheme \<Rightarrow> route_template_proof \<Rightarrow> route_template_table
     \<Rightarrow> (string \<Rightarrow> template_hash_ref option) \<Rightarrow> (string, route_template_proof) btree
     \<Rightarrow> (template_plan_error, unit) outcome" where
  "verify_route_proof lib prf table by_id route_proofs_by_id =
     (if rp_id prf \<noteq> route_proof_receipt_id (rt_state table) (rt_field table)
         \<or> rp_table_id prf \<noteq> rt_id table \<or> rp_state prf \<noteq> rt_state table \<or> rp_field prf \<noteq> rt_field table
         \<or> length (rp_leaves prf) \<noteq> length (rt_entries table)
      then Err (RouteProofTableMismatch (rp_id prf) (rp_table_id prf))
      else
        let digest_roots = map (\<lambda>(i, p). (i, rp_root_hex p)) route_proofs_by_id in
        and_then (table_leaf_hashes lib table by_id digest_roots) (\<lambda>leaf_hashes.
          let layers = merkle_layers lib leaf_hashes; expected_root_hex = merkle_root_hex lib layers in
          if rp_root_hex prf \<noteq> expected_root_hex
          then Err (RouteProofRootMismatch (rp_id prf) expected_root_hex (rp_root_hex prf))
          else and_then (decode_hash_hex lib (rp_id prf) (rp_root_hex prf)) (\<lambda>root.
            try_each (verify_leaf lib prf leaf_hashes layers root)
              (List.enumerate 0 (zip (rp_leaves prf) (rt_entries table))))))"

section \<open>Layers and proofs\<close>

abbreviation hashes32 :: "byte list list \<Rightarrow> bool" where
  "hashes32 hs \<equiv> \<forall>h \<in> set hs. length h = 32"

definition merkle_root :: "'x hash_lib_scheme \<Rightarrow> byte list list \<Rightarrow> byte list" where
  "merkle_root lib leaves = (if leaves = [] then hl_blake3 lib [] else hd (last (layers_from lib leaves)))"

lemma layers_from_long: "1 < length cur \<Longrightarrow> layers_from lib cur = cur # layers_from lib (next_layer lib cur)"
  by (subst layers_from.simps) simp

lemma layers_from_short: "\<not> 1 < length cur \<Longrightarrow> layers_from lib cur = [cur]"
  by (subst layers_from.simps) simp

lemma layers_from_Cons: "\<exists>ls. layers_from lib cur = cur # ls"
  by (cases "1 < length cur") (simp_all add: layers_from_long layers_from_short)

lemma next_layer_nth:
  "j < (length cur + 1) div 2 \<Longrightarrow>
     next_layer lib cur ! j = merkle_parent lib (cur ! (2 * j)) (cur ! min (Suc (2 * j)) (length cur - 1))"
proof (induction lib cur arbitrary: j rule: next_layer.induct)
  case (3 lib left right rest)
  then show ?case by (cases j) (auto simp: min_def nth_Cons split: nat.splits)
qed auto

lemma next_layer_hashes32: "hash_lib_ok lib \<Longrightarrow> hashes32 (next_layer lib cur)"
  by (induction lib cur rule: next_layer.induct) (auto simp: merkle_parent_def hash_lib_okD)

lemma length_last_layers_from: "cur \<noteq> [] \<Longrightarrow> length (last (layers_from lib cur)) = 1"
proof (induction lib cur rule: layers_from.induct)
  case (1 lib cur)
  show ?case
  proof (cases "1 < length cur")
    case True
    then have "next_layer lib cur \<noteq> []" using length_next_layer [of lib cur] by (cases "next_layer lib cur") auto
    moreover obtain ls where "layers_from lib (next_layer lib cur) = next_layer lib cur # ls"
      using layers_from_Cons by blast
    ultimately show ?thesis using 1(1) True by (simp add: layers_from_long)
  next
    case False
    with 1(2) show ?thesis by (simp add: layers_from_short Suc_leI le_antisym linorder_not_less)
  qed
qed

lemma merkle_root_long:
  assumes "1 < length cur" shows "merkle_root lib cur = merkle_root lib (next_layer lib cur)"
proof -
  have "next_layer lib cur \<noteq> []" using assms length_next_layer [of lib cur] by (cases "next_layer lib cur") auto
  moreover obtain ls where "layers_from lib (next_layer lib cur) = next_layer lib cur # ls"
    using layers_from_Cons by blast
  moreover have "cur \<noteq> []" using assms by auto
  ultimately show ?thesis using assms by (simp add: merkle_root_def layers_from_long)
qed

lemma merkle_root_single [simp]: "merkle_root lib [h] = h"
  by (simp add: merkle_root_def layers_from_short)

lemma merkle_root_hex_layers: "merkle_root_hex lib (merkle_layers lib leaves) = encode_hex lib (merkle_root lib leaves)"
proof (cases "leaves = []")
  case True
  then show ?thesis by (simp add: merkle_root_hex_def merkle_layers_def empty_merkle_root_hex_def merkle_root_def)
next
  case False
  obtain h where h: "last (layers_from lib leaves) = [h]"
    using length_last_layers_from [OF False, of lib] by (auto simp: length_Suc_conv)
  have "layers_from lib leaves \<noteq> []" using layers_from_Cons [of lib leaves] by auto
  then obtain ls where "layers_from lib leaves = ls @ [[h]]" using h by (metis append_butlast_last_id)
  with False h show ?thesis by (simp add: merkle_root_hex_def merkle_layers_def merkle_root_def)
qed

lemma merkle_root_length:
  assumes ok: "hash_lib_ok lib" and "hashes32 leaves" shows "length (merkle_root lib leaves) = 32"
  using assms(2)
proof (induction "length leaves" arbitrary: leaves rule: less_induct)
  case less
  show ?case
  proof (cases "1 < length leaves")
    case True
    then have "length (next_layer lib leaves) < length leaves" by simp
    from less(1) [OF this next_layer_hashes32 [OF ok]] show ?thesis
      using True by (simp add: merkle_root_long)
  next
    case False
    then show ?thesis using less(2) by (cases leaves) (auto simp: merkle_root_def layers_from_short hash_lib_okD [OF ok])
  qed
qed

lemma decode_encode_hash [simp]:
  "hash_lib_ok lib \<Longrightarrow> length h = 32 \<Longrightarrow> decode_hash_hex lib i (encode_hex lib h) = Ok h"
  using hash_lib_okD(2,3) [of lib h]
  by (simp add: decode_hash_hex_def decode_hex_for_template_def encode_hex_def ok_or_def)

lemma encode_hex_inject [simp]: "hash_lib_ok lib \<Longrightarrow> encode_hex lib a = encode_hex lib b \<longleftrightarrow> a = b"
  by (simp add: encode_hex_def hex_encode_inject)

text \<open>
  One step: the sibling named by \<open>proof_step\<close>, hashed on the side it names, is the parent
  in the next layer.
\<close>

lemma proof_step_resolves:
  assumes ok: "hash_lib_ok lib" and h: "hashes32 layer" and i: "i < length layer"
  obtains step where "proof_step lib layer i = Ok step"
    and "resolve_step lib ident (layer ! i) step = Ok (next_layer lib layer ! (i div 2))"
proof -
  let ?k = "if even i then min (i + 1) (length layer - 1) else i - 1"
  have k: "?k < length layer" using i by auto
  then have "length (layer ! ?k) = 32" using h nth_mem by blast
  moreover have j: "i div 2 < (length layer + 1) div 2" using i by linarith
  ultimately have "resolve_step lib ident (layer ! i)
      \<lparr>ps_side = (if even i then SideRight else SideLeft), ps_hash_hex = encode_hex lib (layer ! ?k)\<rparr>
      = Ok (next_layer lib layer ! (i div 2))"
  proof (cases "even i")
    case True
    then obtain c where "i = 2 * c" by blast
    with \<open>length (layer ! ?k) = 32\<close> j ok show ?thesis by (simp add: resolve_step_def next_layer_nth)
  next
    case False
    then obtain c where c: "i = 2 * c + 1" by (metis oddE)
    then have "min (Suc (2 * c)) (length layer - 1) = i" using i by auto
    with c \<open>length (layer ! ?k) = 32\<close> j ok show ?thesis by (simp add: resolve_step_def next_layer_nth)
  qed
  with k show ?thesis using that by (simp add: proof_step_def Let_def slice_at_def expect_def split: if_splits)
qed

lemma merkle_proof_resolves:
  assumes ok: "hash_lib_ok lib"
  shows "hashes32 layer \<Longrightarrow> i < length layer \<Longrightarrow>
    \<exists>steps. merkle_proof lib (layers_from lib layer) i = Ok steps
      \<and> try_fold (resolve_step lib ident) (layer ! i) steps = Ok (merkle_root lib layer)"
proof (induction "length layer" arbitrary: layer i rule: less_induct)
  case less
  show ?case
  proof (cases "1 < length layer")
    case True
    let ?next = "next_layer lib layer"
    obtain step where step: "proof_step lib layer i = Ok step"
      "resolve_step lib ident (layer ! i) step = Ok (?next ! (i div 2))"
      using proof_step_resolves [OF ok less(2,3)] .
    have "length ?next < length layer" "i div 2 < length ?next" using True less(3) by auto
    from less(1) [OF this(1) next_layer_hashes32 [OF ok] this(2)] obtain steps where
      steps: "merkle_proof lib (layers_from lib ?next) (i div 2) = Ok steps"
        "try_fold (resolve_step lib ident) (?next ! (i div 2)) steps = Ok (merkle_root lib ?next)" by blast
    obtain ls where "layers_from lib ?next = ?next # ls" using layers_from_Cons by blast
    with step steps True show ?thesis by (simp add: layers_from_long merkle_root_long)
  next
    case False
    with less(3) obtain h where "layer = [h]" "i = 0" by (cases layer) auto
    then show ?thesis by (simp add: layers_from_short)
  qed
qed

lemma merkle_proof_layers:
  assumes "hash_lib_ok lib" "hashes32 hs" "i < length hs"
  obtains steps where "merkle_proof lib (merkle_layers lib hs) i = Ok steps"
    and "merkle_proof_root lib ident (encode_hex lib (hs ! i)) steps = Ok (merkle_root lib hs)"
proof -
  have "length (hs ! i) = 32" using assms(2,3) nth_mem by blast
  moreover have "hs \<noteq> []" using assms(3) by auto
  moreover obtain steps where "merkle_proof lib (layers_from lib hs) i = Ok steps"
    "try_fold (resolve_step lib ident) (hs ! i) steps = Ok (merkle_root lib hs)"
    using merkle_proof_resolves [OF assms] by blast
  ultimately show ?thesis using that assms(1) by (simp add: merkle_layers_def merkle_proof_root_def)
qed

text \<open>
  Completeness of route membership proofs: for every table of 32-byte leaf hashes and
  every position, \<^verbatim>\<open>route_template_merkle_proof\<close> returns (it never indexes out of range)
  a path that \<^verbatim>\<open>route_template_merkle_proof_root\<close> resolves, from the leaf's hexadecimal
  hash, to the root whose text \<^verbatim>\<open>route_template_merkle_root_hex\<close> prints.
\<close>

theorem merkle_proof_complete:
  assumes "hash_lib_ok lib" and "hashes32 leaves" and "i < length leaves"
  shows "\<exists>steps root. merkle_proof lib (merkle_layers lib leaves) i = Ok steps
    \<and> merkle_proof_root lib ident (encode_hex lib (leaves ! i)) steps = Ok root
    \<and> merkle_root_hex lib (merkle_layers lib leaves) = encode_hex lib root"
  using merkle_proof_layers [OF assms, of ident] merkle_root_hex_layers by metis

definition demo_leaf :: "byte \<Rightarrow> byte list" where
  "demo_leaf b = replicate 31 0 @ [b]"

lemma merkle_proof_complete_witness:
  "\<exists>steps root. merkle_proof demo_sil_lib (merkle_layers demo_sil_lib [demo_leaf 1, demo_leaf 2, demo_leaf 3]) 2 = Ok steps
    \<and> merkle_proof_root demo_sil_lib ''p'' (encode_hex demo_sil_lib (demo_leaf 3)) steps = Ok root
    \<and> merkle_root_hex demo_sil_lib (merkle_layers demo_sil_lib [demo_leaf 1, demo_leaf 2, demo_leaf 3])
        = encode_hex demo_sil_lib root"
  using merkle_proof_complete [OF demo_hash_lib_ok, of "[demo_leaf 1, demo_leaf 2, demo_leaf 3]" 2 "''p''"]
  by (simp add: demo_leaf_def)

section \<open>Verification of a proof receipt\<close>

text \<open>Receipts hold 32-byte hashes (\<^verbatim>\<open>[u8; 32]\<close> in the source).\<close>

abbreviation receipts32 :: "(string \<Rightarrow> template_hash_ref option) \<Rightarrow> bool" where
  "receipts32 by_id \<equiv> \<forall>i r. by_id i = Some r \<longrightarrow> length (th_hash r) = 32"

abbreviation proof_roots :: "(string, route_template_proof) btree \<Rightarrow> (string, string) btree" where
  "proof_roots proofs \<equiv> map (\<lambda>(i, p). (i, rp_root_hex p)) proofs"

lemma decode_hash_hex_Ok_length: "decode_hash_hex lib i t = Ok h \<Longrightarrow> length h = 32"
  by (auto simp: decode_hash_hex_def outcome_simps split: if_splits)

lemma decode_hash_hex_not_Panic: "decode_hash_hex lib i t \<noteq> Panic"
  by (auto simp: decode_hash_hex_def decode_hex_for_template_def outcome_simps split: if_splits)

lemma leaf_hash_length:
  assumes "receipts32 by_id" "leaf_hash lib table by_id roots leaf = Ok h" shows "length h = 32"
proof (cases leaf)
  case (TemplateLeaf a i)
  then obtain r where "by_id i = Some r" "h = th_hash r"
    using assms(2) by (auto simp: leaf_hash_def outcome_simps split: if_splits)
  with assms(1) show ?thesis by blast
next
  case (RouteFamilyLeaf f i)
  with assms(2) show ?thesis by (auto simp: leaf_hash_def outcome_simps dest: decode_hash_hex_Ok_length)
qed

lemma leaf_hash_not_Panic: "leaf_hash lib table by_id roots leaf \<noteq> Panic"
  by (auto simp: leaf_hash_def outcome_simps decode_hash_hex_not_Panic split: route_template_leaf.splits if_splits)

lemma table_leaf_hashes_OkD:
  assumes "table_leaf_hashes lib table by_id roots = Ok hs"
  shows "length hs = length (rt_entries table)" and "receipts32 by_id \<Longrightarrow> hashes32 hs"
proof -
  have all: "list_all2 (\<lambda>e h. leaf_hash lib (rt_id table) by_id roots (te_leaf e) = Ok h) (rt_entries table) hs"
    using assms unfolding table_leaf_hashes_def try_map_Ok_iff .
  then show "length hs = length (rt_entries table)" by (simp add: list_all2_lengthD)
  assume r: "receipts32 by_id"
  show "hashes32 hs"
  proof
    fix h assume "h \<in> set hs"
    then obtain j where "j < length hs" "hs ! j = h" by (auto simp: in_set_conv_nth)
    then have "leaf_hash lib (rt_id table) by_id roots (te_leaf (rt_entries table ! j)) = Ok h"
      using all by (auto simp: list_all2_conv_all_nth)
    with r show "length h = 32" by (rule leaf_hash_length)
  qed
qed

lemma merkle_proof_root_not_Panic: "merkle_proof_root lib i t steps \<noteq> Panic"
proof -
  have "try_fold (resolve_step lib i) h steps \<noteq> Panic" for h
    by (induction steps arbitrary: h)
      (auto simp: resolve_step_def outcome_simps decode_hash_hex_not_Panic)
  then show ?thesis by (auto simp: merkle_proof_root_def outcome_simps decode_hash_hex_not_Panic)
qed

lemma verify_leaf_iff:
  assumes ok: "hash_lib_ok lib" and hs: "hashes32 hs" and i: "i < length hs"
  shows "verify_leaf lib prf hs (merkle_layers lib hs) (merkle_root lib hs) (i, leaf, entry) = Ok () \<longleftrightarrow>
      proof_leaf lib (merkle_layers lib hs) (i, entry, hs ! i) = Ok leaf
      \<and> (\<forall>f. te_leaf entry \<noteq> RouteFamilyLeaf f (rp_id prf))" (is ?A)
    and "verify_leaf lib prf hs (merkle_layers lib hs) (merkle_root lib hs) (i, leaf, entry) \<noteq> Panic" (is ?B)
proof -
  obtain steps where steps: "merkle_proof lib (merkle_layers lib hs) i = Ok steps"
    "merkle_proof_root lib (rp_id prf) (encode_hex lib (hs ! i)) steps = Ok (merkle_root lib hs)"
    using merkle_proof_layers [OF ok hs i] .
  show ?A
    using steps i by (cases "te_leaf entry"; cases leaf)
      (auto simp: verify_leaf_def proof_leaf_def slice_at_def outcome_simps split: if_splits)
  show ?B
    using steps i merkle_proof_root_not_Panic
    by (auto simp: verify_leaf_def slice_at_def outcome_simps split: if_splits route_template_leaf.splits)
qed

lemma proof_from_table_Ok:
  assumes "table_leaf_hashes lib table by_id roots = Ok hs"
  shows "route_proof_from_table lib table by_id roots = Ok prf \<longleftrightarrow>
     rp_id prf = route_proof_receipt_id (rt_state table) (rt_field table) \<and> rp_table_id prf = rt_id table
     \<and> rp_state prf = rt_state table \<and> rp_field prf = rt_field table
     \<and> rp_root_hex prf = merkle_root_hex lib (merkle_layers lib hs)
     \<and> length (rp_leaves prf) = length (rt_entries table)
     \<and> (\<forall>i < length (rt_entries table).
          proof_leaf lib (merkle_layers lib hs) (i, rt_entries table ! i, hs ! i) = Ok (rp_leaves prf ! i))"
proof (cases "prf")
  case (fields i t s f r ls)
  then show ?thesis
    using assms table_leaf_hashes_OkD(1) [OF assms]
    by (auto simp: route_proof_from_table_def Let_def outcome_simps list_all2_conv_all_nth nth_enumerate_eq)
qed

lemma route_proof_verdict:
  assumes ok: "hash_lib_ok lib" and r: "receipts32 by_id"
  shows "(verify_route_proof lib prf table by_id proofs = Ok ()
      \<longleftrightarrow> route_proof_from_table lib table by_id (proof_roots proofs) = Ok prf
        \<and> (\<forall>entry \<in> set (rt_entries table). \<forall>f. te_leaf entry \<noteq> RouteFamilyLeaf f (rp_id prf)))
    \<and> verify_route_proof lib prf table by_id proofs \<noteq> Panic"
proof (cases "table_leaf_hashes lib table by_id (proof_roots proofs)")
  case (Ok hs)
  note hs = table_leaf_hashes_OkD [OF Ok]
  have "decode_hash_hex lib i (encode_hex lib (merkle_root lib hs)) = Ok (merkle_root lib hs)" for i
    using merkle_root_length [OF ok hs(2) [OF r]] ok by simp
  moreover have
    "try_each (verify_leaf lib prf hs (merkle_layers lib hs) (merkle_root lib hs))
       (List.enumerate 0 (zip (rp_leaves prf) (rt_entries table))) = Ok () \<longleftrightarrow>
     (\<forall>i < length (rt_entries table).
        proof_leaf lib (merkle_layers lib hs) (i, rt_entries table ! i, hs ! i) = Ok (rp_leaves prf ! i)
        \<and> (\<forall>f. te_leaf (rt_entries table ! i) \<noteq> RouteFamilyLeaf f (rp_id prf)))"
    if "length (rp_leaves prf) = length (rt_entries table)"
    using that hs(1) verify_leaf_iff(1) [OF ok hs(2) [OF r]]
    by (simp add: outcome_simps all_set_conv_all_nth nth_enumerate_eq)
  moreover have
    "try_each (verify_leaf lib prf hs (merkle_layers lib hs) (merkle_root lib hs))
       (List.enumerate 0 (zip (rp_leaves prf) (rt_entries table))) \<noteq> Panic"
    by (rule try_each_not_Panic)
      (use hs(1) verify_leaf_iff(2) [OF ok hs(2) [OF r]] in \<open>auto simp: in_set_enumerate_eq\<close>)
  ultimately show ?thesis using Ok ok
    by (simp add: verify_route_proof_def Let_def proof_from_table_Ok [OF Ok] merkle_root_hex_layers
        all_set_conv_all_nth) blast
next
  case (Err e)
  then show ?thesis by (auto simp: verify_route_proof_def route_proof_from_table_def Let_def)
next
  case Panic
  then show ?thesis
    using leaf_hash_not_Panic try_map_not_Panic unfolding table_leaf_hashes_def by metis
qed

lemma route_proof_not_Panic:
  "hash_lib_ok lib \<Longrightarrow> receipts32 by_id \<Longrightarrow> verify_route_proof lib prf table by_id proofs \<noteq> Panic"
  using route_proof_verdict by blast

text \<open>
  C14: Verification of a proof receipt is regeneration: \<^verbatim>\<open>verify_route_template_proof\<close>
  accepts a receipt exactly when it is the one \<^verbatim>\<open>route_template_proof_from_table\<close> computes
  from the table (every field, hash and Merkle path) and no leaf of the table refers back to
  this proof; and it never panics, whatever the receipt.
\<close>

theorem route_proof_verified_iff:
  assumes "hash_lib_ok lib" and "receipts32 by_id"
  shows "(verify_route_proof lib prf table by_id proofs = Ok ()
      \<longleftrightarrow> route_proof_from_table lib table by_id (proof_roots proofs) = Ok prf
        \<and> (\<forall>entry \<in> set (rt_entries table). \<forall>f. te_leaf entry \<noteq> RouteFamilyLeaf f (rp_id prf)))
    \<and> verify_route_proof lib prf table by_id proofs \<noteq> Panic"
  by (rule route_proof_verdict [OF assms])

definition demo_table :: route_template_table where
  "demo_table = \<lparr>rt_id = ''t'', rt_state = ''S'', rt_field = ''routes'', rt_byte_len = 64,
     rt_entries = [\<lparr>te_index = 0, te_offset = 0, te_leaf = TemplateLeaf ''A'' ''a''\<rparr>,
                   \<lparr>te_index = 1, te_offset = 32, te_leaf = TemplateLeaf ''B'' ''b''\<rparr>]\<rparr>"

definition demo_by_id :: "string \<Rightarrow> template_hash_ref option" where
  "demo_by_id i =
     (if i = ''a'' then Some \<lparr>th_id = ''a'', th_actor = ''A'', th_hash = demo_leaf 1\<rparr>
      else if i = ''b'' then Some \<lparr>th_id = ''b'', th_actor = ''B'', th_hash = demo_leaf 2\<rparr> else None)"

lemma demo_by_id_32: "receipts32 demo_by_id"
  by (simp add: demo_by_id_def demo_leaf_def)

lemma route_proof_verified_iff_witness:
  "\<exists>receipt. verify_route_proof demo_sil_lib receipt demo_table demo_by_id [] = Ok ()"
proof -
  have "table_leaf_hashes demo_sil_lib demo_table demo_by_id [] = Ok [demo_leaf 1, demo_leaf 2]"
    by (simp add: table_leaf_hashes_def demo_table_def leaf_hash_def demo_by_id_def ok_or_def)
  then obtain receipt where "route_proof_from_table demo_sil_lib demo_table demo_by_id [] = Ok receipt"
    by (simp add: route_proof_from_table_def demo_table_def merkle_layers_def layers_from_long layers_from_short
        proof_leaf_def proof_step_def slice_at_def expect_def)
  moreover have "\<forall>entry \<in> set (rt_entries demo_table). \<forall>f i. te_leaf entry \<noteq> RouteFamilyLeaf f i"
    by (simp add: demo_table_def)
  ultimately show ?thesis
    using route_proof_verified_iff [OF demo_hash_lib_ok demo_by_id_32, of receipt demo_table "[]"] by auto
qed

section \<open>What the root commits to\<close>

text \<open>The contents hashed for one layer, and for the whole tree.\<close>

fun pair_inputs :: "byte list list \<Rightarrow> byte list list" where
  "pair_inputs [] = []"
| "pair_inputs [left] = [left @ left]"
| "pair_inputs (left # right # rest) = (left @ right) # pair_inputs rest"

definition tree_inputs :: "'x hash_lib_scheme \<Rightarrow> byte list list \<Rightarrow> byte list list" where
  "tree_inputs lib leaves = concat (map pair_inputs (butlast (layers_from lib leaves)))"

definition collision :: "'x hash_lib_scheme \<Rightarrow> byte list list \<Rightarrow> byte list list \<Rightarrow> bool" where
  "collision lib xs ys \<longleftrightarrow> (\<exists>a \<in> set xs. \<exists>b \<in> set ys. a \<noteq> b \<and> hl_blake3 lib a = hl_blake3 lib b)"

lemma next_layer_inputs: "next_layer lib cur = map (hl_blake3 lib) (pair_inputs cur)"
  by (induction lib cur rule: next_layer.induct) (simp_all add: merkle_parent_def)

lemma pair_inputs_inject:
  "hashes32 xs \<Longrightarrow> hashes32 ys \<Longrightarrow> length xs = length ys \<Longrightarrow> pair_inputs xs = pair_inputs ys \<Longrightarrow> xs = ys"
proof (induction xs arbitrary: ys rule: pair_inputs.induct)
  case (2 x)
  then show ?case by (cases ys) auto
next
  case (3 x x' xs)
  from 3(4) obtain y y' ys' where "ys = y # y' # ys'" by (cases ys; cases "tl ys") auto
  with 3(1) [of ys'] 3(2-5) show ?case by simp
qed simp

lemma tree_inputs_long:
  assumes "1 < length cur"
  shows "set (tree_inputs lib cur) = set (pair_inputs cur) \<union> set (tree_inputs lib (next_layer lib cur))"
proof -
  obtain ls where "layers_from lib (next_layer lib cur) = next_layer lib cur # ls" using layers_from_Cons by blast
  with assms show ?thesis by (simp add: tree_inputs_def layers_from_long)
qed

lemma collision_mono:
  "collision lib xs ys \<Longrightarrow> set xs \<subseteq> set xs' \<Longrightarrow> set ys \<subseteq> set ys' \<Longrightarrow> collision lib xs' ys'"
  unfolding collision_def by blast

lemma map_eq_or_collision:
  "length xs = length ys \<Longrightarrow> map (hl_blake3 lib) xs = map (hl_blake3 lib) ys \<Longrightarrow> xs = ys \<or> collision lib xs ys"
  by (induction xs ys rule: list_induct2) (auto simp: collision_def)

lemma merkle_root_binds:
  assumes ok: "hash_lib_ok lib"
  shows "hashes32 xs \<Longrightarrow> hashes32 ys \<Longrightarrow> length xs = length ys \<Longrightarrow> merkle_root lib xs = merkle_root lib ys
    \<Longrightarrow> xs = ys \<or> collision lib (tree_inputs lib xs) (tree_inputs lib ys)"
proof (induction "length xs" arbitrary: xs ys rule: less_induct)
  case less
  show ?case
  proof (cases "1 < length xs")
    case True
    let ?nx = "next_layer lib xs" and ?ny = "next_layer lib ys"
    have long: "1 < length ys" using True less(4) by simp
    have sub: "set (pair_inputs xs) \<subseteq> set (tree_inputs lib xs)" "set (pair_inputs ys) \<subseteq> set (tree_inputs lib ys)"
      "set (tree_inputs lib ?nx) \<subseteq> set (tree_inputs lib xs)" "set (tree_inputs lib ?ny) \<subseteq> set (tree_inputs lib ys)"
      using True long by (simp_all add: tree_inputs_long)
    have "length ?nx < length xs" "length ?nx = length ?ny" using True less(4) by simp_all
    moreover have "merkle_root lib ?nx = merkle_root lib ?ny"
      using less(5) True long by (simp add: merkle_root_long)
    ultimately have "?nx = ?ny \<or> collision lib (tree_inputs lib ?nx) (tree_inputs lib ?ny)"
      using less(1) next_layer_hashes32 [OF ok] by blast
    then show ?thesis
    proof
      assume "?nx = ?ny"
      moreover have "length (pair_inputs xs) = length (pair_inputs ys)"
        using \<open>length ?nx = length ?ny\<close> by (simp add: next_layer_inputs)
      ultimately have "pair_inputs xs = pair_inputs ys \<or> collision lib (pair_inputs xs) (pair_inputs ys)"
        using map_eq_or_collision by (simp add: next_layer_inputs)
      then show ?thesis
        using pair_inputs_inject [OF less(2,3,4)] collision_mono sub(1,2) by blast
    next
      assume "collision lib (tree_inputs lib ?nx) (tree_inputs lib ?ny)"
      then show ?thesis using collision_mono sub(3,4) by blast
    qed
  next
    case False
    with less(4) have "xs = [] \<and> ys = [] \<or> (\<exists>x y. xs = [x] \<and> ys = [y])"
      by (cases xs; cases ys) auto
    with less(5) show ?thesis by auto
  qed
qed

text \<open>
  C15: A route root binds its leaves: two tables with the same number of 32-byte leaf hashes
  and the same printed root have the same leaf hashes in the same order, unless two different
  node contents hashed while building exactly these two trees collide under blake3.
\<close>

theorem route_root_binding:
  assumes "hash_lib_ok lib" and "hashes32 xs" and "hashes32 ys" and "length xs = length ys"
    and "merkle_root_hex lib (merkle_layers lib xs) = merkle_root_hex lib (merkle_layers lib ys)"
  shows "xs = ys \<or> collision lib (tree_inputs lib xs) (tree_inputs lib ys)"
  using merkle_root_binds [OF assms(1-4)] assms(1,5) by (simp add: merkle_root_hex_layers)

lemma route_root_binding_witness:
  "collision demo_sil_lib (tree_inputs demo_sil_lib [demo_leaf 2, demo_leaf 0])
     (tree_inputs demo_sil_lib [demo_leaf 0, demo_leaf 2])"
proof -
  have "merkle_root_hex demo_sil_lib (merkle_layers demo_sil_lib [demo_leaf 2, demo_leaf 0])
      = merkle_root_hex demo_sil_lib (merkle_layers demo_sil_lib [demo_leaf 0, demo_leaf 2])" by code_simp
  moreover have "demo_leaf 2 \<noteq> demo_leaf 0" by code_simp
  ultimately show ?thesis
    using route_root_binding [OF demo_hash_lib_ok, of "[demo_leaf 2, demo_leaf 0]" "[demo_leaf 0, demo_leaf 2]"]
    by (simp add: demo_leaf_def)
qed

text \<open>
  The number of leaves is not part of the commitment: a last leaf without a partner may be
  repeated.
\<close>

lemma merkle_root_repeated_leaf: "merkle_root lib [a, b, c] = merkle_root lib [a, b, c, c]"
  by (simp add: merkle_root_long)

end
