(* ===== verification/Template_Plan.thy ===== *)
theory Template_Plan
  imports Route_Proofs
begin

text \<open>
  The structural phases of \<^verbatim>\<open>TemplatePlanArtifact::check_consistency\<close>
  (\<^verbatim>\<open>crates/argent-artifact/src/lib.rs\<close>): template receipts and references, route families,
  runtime-state plans, route tables and their binding to runtime fields, route proofs and
  family tables. A set of ids that the source keeps beside a map with the same keys is the
  domain of the map.
\<close>

section \<open>Loops the phases share\<close>

text \<open>Indexing: a repeated key is an error, an item that passes its check is entered.\<close>

definition index_step ::
  "('a \<Rightarrow> string) \<Rightarrow> ('a \<Rightarrow> 'e) \<Rightarrow> ('a \<Rightarrow> ('e, unit) outcome) \<Rightarrow> (string, 'a) btree \<Rightarrow> 'a
     \<Rightarrow> ('e, (string, 'a) btree) outcome" where
  "index_step key dup chk m x =
     (if map_of m (key x) \<noteq> None then Err (dup x)
      else and_then (chk x) (\<lambda>_. Ok (bm_insert (key x) x m)))"

definition index_unique ::
  "('a \<Rightarrow> string) \<Rightarrow> ('a \<Rightarrow> 'e) \<Rightarrow> ('a \<Rightarrow> ('e, unit) outcome) \<Rightarrow> 'a list \<Rightarrow> ('e, (string, 'a) btree) outcome" where
  "index_unique key dup chk xs = try_fold (index_step key dup chk) [] xs"

text \<open>A loop that rejects repetitions through a set, with a check on every new element.\<close>

definition each_once_step :: "('a \<Rightarrow> 'e) \<Rightarrow> ('a \<Rightarrow> ('e, unit) outcome) \<Rightarrow> 'a set \<Rightarrow> 'a \<Rightarrow> ('e, 'a set) outcome" where
  "each_once_step dup chk seen x =
     (if x \<in> seen then Err (dup x) else and_then (chk x) (\<lambda>_. Ok (insert x seen)))"

definition each_once :: "('a \<Rightarrow> 'e) \<Rightarrow> ('a \<Rightarrow> ('e, unit) outcome) \<Rightarrow> 'a list \<Rightarrow> ('e, unit) outcome" where
  "each_once dup chk xs = and_then (try_fold (each_once_step dup chk) {} xs) (\<lambda>_. Ok ())"

definition collect_map :: "('k::linorder \<times> 'v) list \<Rightarrow> ('k, 'v) btree" where
  "collect_map kvs = fold (\<lambda>(k, v). bm_insert k v) kvs []"

section \<open>Template receipts and references\<close>

definition check_template_receipt ::
  "('ty, 'val, 'x) sil_lib_scheme \<Rightarrow> 'ty sil_abi \<Rightarrow> template_receipt \<Rightarrow> (template_plan_error, unit) outcome" where
  "check_template_receipt lib abi template =
     and_then (ok_or (sl_contract lib abi (tr_contract template)) (UnknownContract (tr_contract template))) (\<lambda>contract.
       if tr_actor template \<noteq> tr_contract template
       then Err (TemplateContractMismatch (tr_id template) (tr_actor template) (tr_contract template))
       else let expected_hash = cc_template_hash (sc_compiled contract) in
         ensure (tr_sil_template_hash template = expected_hash)
           (TemplateHashMismatch (tr_id template) (encode_hex lib expected_hash)
             (encode_hex lib (tr_sil_template_hash template))))"

definition index_templates ::
  "('ty, 'val, 'x) sil_lib_scheme \<Rightarrow> 'ty sil_abi \<Rightarrow> template_receipt list
     \<Rightarrow> (template_plan_error, (string, template_receipt) btree) outcome" where
  "index_templates lib abi templates =
     index_unique tr_id (\<lambda>t. DuplicateTemplateId (tr_id t)) (check_template_receipt lib abi) templates"

definition check_template_ref ::
  "(string, template_receipt) btree \<Rightarrow> template_ref \<Rightarrow> (template_plan_error, unit) outcome" where
  "check_template_ref templates_by_id ref =
     and_then (ok_or (map_of templates_by_id (tf_id ref)) (MissingTemplateReceipt (tf_actor ref) (tf_id ref))) (\<lambda>template.
       ensure (tr_actor template = tf_actor ref \<and> tr_symbol template = tf_symbol ref)
         (TemplateRefMismatch (tr_id template) (tf_actor ref)))"

definition check_template_refs ::
  "(string, template_receipt) btree \<Rightarrow> template_ref list \<Rightarrow> template_receipt list
     \<Rightarrow> (template_plan_error, unit) outcome" where
  "check_template_refs templates_by_id refs templates =
     and_then (try_each (check_template_ref templates_by_id) refs) (\<lambda>_.
       try_each (\<lambda>t. ensure (tr_id t \<in> set (map tf_id refs)) (UnreferencedTemplateReceipt (tr_id t))) templates)"

section \<open>Route families\<close>

definition actor_states :: "'ty actor_decl list \<Rightarrow> (string, string) btree" where
  "actor_states actors = collect_map (map (\<lambda>a. (ac_name a, ac_state a)) actors)"

definition check_family ::
  "(string, string) btree \<Rightarrow> route_template_family \<Rightarrow> (template_plan_error, unit) outcome" where
  "check_family states family =
     (let i = rfm_id family; actors = rfm_actors family in
      if length actors < 2 then Err (RouteFamilyTooSmall i)
      else and_then (each_once (DuplicateRouteFamilyActor i) (\<lambda>_. Ok ()) actors) (\<lambda>_.
        and_then (ensure (rfm_representative_actor family \<in> set actors)
            (RouteFamilyRepresentativeOutsideFamily i (rfm_representative_actor family))) (\<lambda>_.
        and_then (each_once (DuplicateRouteFamilyEntryActor i)
            (\<lambda>a. ensure (a \<in> set actors) (MissingRouteFamilyEntryActor i a)) (rfm_entry_actors family)) (\<lambda>_.
        try_each (\<lambda>a. and_then (ok_or (map_of states a) (MissingRouteFamilyActor i a)) (\<lambda>found_state.
            ensure (found_state = rfm_state family) (RouteFamilyStateMismatch i a (rfm_state family) found_state)))
          actors))))"

definition index_families ::
  "(string, string) btree \<Rightarrow> route_template_family list
     \<Rightarrow> (template_plan_error, (string, route_template_family) btree) outcome" where
  "index_families states families =
     index_unique rfm_id (\<lambda>f. DuplicateRouteFamilyId (rfm_id f)) (check_family states) families"

section \<open>Runtime-state plans\<close>

definition sil_fields_by_name :: "'ty sil_contract \<Rightarrow> (string, 'ty runtime_field) btree" where
  "sil_fields_by_name contract =
     collect_map (map (\<lambda>f. (rf_name f, f)) (rs_fields (sc_runtime_state contract)))"

definition check_runtime_state ::
  "'ty sil_abi \<Rightarrow> (string, string) btree \<Rightarrow> runtime_state_plan \<Rightarrow> (template_plan_error, unit) outcome" where
  "check_runtime_state abi states rs =
     (let contract_name = rsp_contract rs; invalid = RuntimeStatePlanMismatch contract_name in
      and_then (ok_or (map_of (sil_contracts abi) contract_name) (UnknownContract contract_name)) (\<lambda>contract.
      and_then (ok_or (map_of states contract_name) (invalid NoMatchingActor)) (\<lambda>actor_state.
      and_then (ensure (rsp_source rs = actor_state) (invalid (SourceStateMismatch (rsp_source rs) actor_state))) (\<lambda>_.
        each_once (\<lambda>name. invalid (FieldRoleDuplicated name))
          (\<lambda>name. ensure (map_of (sil_fields_by_name contract) name \<noteq> None) (invalid (FieldRoleUnknown name)))
          (map fr_name (rsp_field_roles rs))))))"

definition index_runtime_states ::
  "'ty sil_abi \<Rightarrow> (string, string) btree \<Rightarrow> runtime_state_plan list
     \<Rightarrow> (template_plan_error, (string, runtime_state_plan) btree) outcome" where
  "index_runtime_states abi states plans =
     index_unique rsp_contract (\<lambda>r. DuplicateRuntimeStatePlan (rsp_contract r)) (check_runtime_state abi states) plans"

section \<open>Route tables\<close>

definition index_tables ::
  "route_template_table list \<Rightarrow> (template_plan_error, (string, route_template_table) btree) outcome" where
  "index_tables tables = index_unique rt_id (\<lambda>t. DuplicateRouteTableId (rt_id t)) (\<lambda>_. Ok ()) tables"

definition check_table_leaf ::
  "(string, template_receipt) btree \<Rightarrow> (string, route_template_family) btree \<Rightarrow> (string, route_template_table) btree
     \<Rightarrow> string \<Rightarrow> route_template_leaf \<Rightarrow> (template_plan_error, unit) outcome" where
  "check_table_leaf templates families tables table_id leaf =
     (case leaf of
        TemplateLeaf actor template_id \<Rightarrow>
          and_then (ok_or (map_of templates template_id) (MissingRouteTableTemplate table_id actor template_id)) (\<lambda>template.
            ensure (tr_actor template = actor)
              (RouteTableTemplateMismatch table_id actor template_id (tr_actor template)))
      | RouteFamilyLeaf family_id proof_id \<Rightarrow>
          and_then (ok_or (map_of families family_id) (MissingRouteTableFamily table_id family_id)) (\<lambda>family.
          and_then (ok_or (map_of tables (rfm_table_id family))
              (MissingRouteFamilyTable (rfm_id family) (rfm_table_id family))) (\<lambda>family_table.
            let expected_proof_id = route_proof_receipt_id (rt_state family_table) (rt_field family_table) in
            ensure (proof_id = expected_proof_id)
              (RouteTableFamilyProofMismatch table_id family_id proof_id expected_proof_id))))"

definition check_table_entry ::
  "(string, template_receipt) btree \<Rightarrow> (string, route_template_family) btree \<Rightarrow> (string, route_template_table) btree
     \<Rightarrow> string \<Rightarrow> nat \<times> route_table_entry \<Rightarrow> (template_plan_error, unit) outcome" where
  "check_table_entry templates families tables table_id x =
     (case x of (expected_index, entry) \<Rightarrow>
        let expected_offset = expected_index * 32 in
        if te_index entry \<noteq> expected_index \<or> te_offset entry \<noteq> expected_offset
        then Err (RouteTableOffsetMismatch table_id (te_index entry) (te_offset entry) expected_offset)
        else check_table_leaf templates families tables table_id (te_leaf entry))"

definition check_table ::
  "(string, template_receipt) btree \<Rightarrow> (string, route_template_family) btree \<Rightarrow> (string, route_template_table) btree
     \<Rightarrow> route_template_table \<Rightarrow> (template_plan_error, unit) outcome" where
  "check_table templates families tables table =
     (let expected_byte_len = length (rt_entries table) * 32 in
      if rt_byte_len table \<noteq> expected_byte_len
      then Err (RouteTableLenMismatch (rt_id table) (rt_byte_len table) expected_byte_len)
      else try_each (check_table_entry templates families tables (rt_id table))
        (List.enumerate 0 (rt_entries table)))"

section \<open>Runtime fields and their tables\<close>

definition runtime_leaf_for_route_leaf :: "route_template_leaf \<Rightarrow> runtime_route_leaf" where
  "runtime_leaf_for_route_leaf leaf =
     (case leaf of
        TemplateLeaf actor _ \<Rightarrow> ContractLeaf actor
      | RouteFamilyLeaf family_id _ \<Rightarrow> DigestLeaf family_id)"

text \<open>The table a field with the given leaves and type is bound to.\<close>

definition bind_table ::
  "(string, route_template_table) btree \<Rightarrow> runtime_state_plan \<Rightarrow> 'ty runtime_field \<Rightarrow> string
     \<Rightarrow> runtime_route_leaf list \<Rightarrow> 'ty \<Rightarrow> (template_plan_error, string) outcome" where
  "bind_table tables rs sil_field name role_leaves expected_ty =
     (let i = route_table_receipt_id (rsp_source rs) name in
      and_then (ok_or (map_of tables i) (MissingRuntimeRouteTable (rsp_contract rs) name i)) (\<lambda>table.
        let table_leaves = map (\<lambda>e. runtime_leaf_for_route_leaf (te_leaf e)) (rt_entries table) in
        if rt_state table \<noteq> rsp_source rs \<or> rt_field table \<noteq> name \<or> table_leaves \<noteq> role_leaves
           \<or> rt_byte_len table \<noteq> length role_leaves * 32 \<or> rf_ty sil_field \<noteq> expected_ty
        then Err (RuntimeRouteTableMismatch (rsp_contract rs) name (rt_id table))
        else Ok (rt_id table)))"

definition bind_field_role ::
  "('ty, 'val, 'x) sil_lib_scheme \<Rightarrow> (string, route_template_family) btree \<Rightarrow> (string, route_template_table) btree
     \<Rightarrow> runtime_state_plan \<Rightarrow> 'ty runtime_field \<Rightarrow> runtime_field_role_plan
     \<Rightarrow> (template_plan_error, string option) outcome" where
  "bind_field_role lib families tables rs sil_field field =
     (case fr_role field of
        TemplateTableRole contracts \<Rightarrow>
          and_then (bind_table tables rs sil_field (fr_name field) (map ContractLeaf contracts)
              (sl_fixed_bytes lib (length contracts * 32))) (\<lambda>i. Ok (Some i))
      | TemplateDigestRole i \<Rightarrow>
          if map_of families i = None then Err (MissingWitnessRouteFamily (fr_name field) i)
          else if rf_ty sil_field \<noteq> sl_fixed_bytes lib 32
          then Err (RuntimeRouteTableMismatch (rsp_contract rs) (fr_name field) i)
          else Ok None
      | TemplateRootRole leaves \<Rightarrow>
          and_then (bind_table tables rs sil_field (fr_name field) leaves (sl_fixed_bytes lib 32)) (\<lambda>i. Ok (Some i))
      | TemplateRole _ \<Rightarrow>
          if rf_ty sil_field \<noteq> sl_fixed_bytes lib 32
          then Err (RuntimeStatePlanMismatch (rsp_contract rs) (TemplateFieldType (fr_name field)))
          else Ok None)"

definition bind_role_step ::
  "('ty, 'val, 'x) sil_lib_scheme \<Rightarrow> (string, route_template_family) btree \<Rightarrow> (string, route_template_table) btree
     \<Rightarrow> runtime_state_plan \<Rightarrow> (string, 'ty runtime_field) btree \<Rightarrow> string set \<Rightarrow> runtime_field_role_plan
     \<Rightarrow> (template_plan_error, string set) outcome" where
  "bind_role_step lib families tables rs sil_fields referenced field =
     and_then (expect (map_of sil_fields (fr_name field))) (\<lambda>sil_field.
     and_then (bind_field_role lib families tables rs sil_field field) (\<lambda>r.
       Ok (case r of None \<Rightarrow> referenced | Some i \<Rightarrow> insert i referenced)))"

definition bind_runtime_state ::
  "('ty, 'val, 'x) sil_lib_scheme \<Rightarrow> 'ty sil_abi \<Rightarrow> (string, route_template_family) btree
     \<Rightarrow> (string, route_template_table) btree \<Rightarrow> string set \<Rightarrow> runtime_state_plan
     \<Rightarrow> (template_plan_error, string set) outcome" where
  "bind_runtime_state lib abi families tables referenced rs =
     and_then (expect (map_of (sil_contracts abi) (rsp_contract rs))) (\<lambda>contract.
       try_fold (bind_role_step lib families tables rs (sil_fields_by_name contract)) referenced (rsp_field_roles rs))"

definition bind_tables ::
  "('ty, 'val, 'x) sil_lib_scheme \<Rightarrow> 'ty sil_abi \<Rightarrow> (string, route_template_family) btree
     \<Rightarrow> (string, route_template_table) btree \<Rightarrow> runtime_state_plan list \<Rightarrow> route_template_table list
     \<Rightarrow> (template_plan_error, unit) outcome" where
  "bind_tables lib abi families tables_by_id runtime_states tables =
     and_then (try_fold (bind_runtime_state lib abi families tables_by_id) {} runtime_states) (\<lambda>referenced.
       try_each (\<lambda>t. ensure (rt_id t \<in> referenced) (UnreferencedRouteTable (rt_id t))) tables)"

section \<open>Route proofs and family tables\<close>

definition index_proofs ::
  "(string, route_template_table) btree \<Rightarrow> route_template_proof list
     \<Rightarrow> (template_plan_error, (string, route_template_proof) btree) outcome" where
  "index_proofs tables proofs =
     index_unique rp_id (\<lambda>p. DuplicateRouteProofId (rp_id p))
       (\<lambda>p. ensure (map_of tables (rp_table_id p) \<noteq> None) (MissingRouteProofTable (rp_id p) (rp_table_id p))) proofs"

definition check_proof ::
  "('ty, 'val, 'x) sil_lib_scheme \<Rightarrow> (string, template_receipt) btree \<Rightarrow> (string, route_template_table) btree
     \<Rightarrow> (string, route_template_proof) btree \<Rightarrow> route_template_proof \<Rightarrow> (template_plan_error, unit) outcome" where
  "check_proof lib templates tables proofs prf =
     and_then (expect (map_of tables (rp_table_id prf))) (\<lambda>table.
       verify_route_proof lib prf table (map_template_hash_by_id templates) proofs)"

definition check_table_proved ::
  "(string, route_template_proof) btree \<Rightarrow> route_template_table \<Rightarrow> (template_plan_error, unit) outcome" where
  "check_table_proved proofs table =
     ensure (map_of proofs (route_proof_receipt_id (rt_state table) (rt_field table)) \<noteq> None)
       (MissingRouteProof (rt_id table))"

fun template_actors :: "route_table_entry list \<Rightarrow> string list" where
  "template_actors [] = []"
| "template_actors (e # es) =
     (case te_leaf e of
        TemplateLeaf actor _ \<Rightarrow> actor # template_actors es
      | RouteFamilyLeaf _ _ \<Rightarrow> template_actors es)"

definition check_family_entry :: "route_template_family \<Rightarrow> route_table_entry \<Rightarrow> (template_plan_error, unit) outcome" where
  "check_family_entry family entry =
     (case te_leaf entry of
        TemplateLeaf _ _ \<Rightarrow> Ok ()
      | RouteFamilyLeaf family_id _ \<Rightarrow> Err (NestedRouteFamilyLeaf (rfm_id family) (rfm_table_id family) family_id))"

definition check_family_table ::
  "(string, route_template_table) btree \<Rightarrow> route_template_family \<Rightarrow> (template_plan_error, unit) outcome" where
  "check_family_table tables family =
     and_then (ok_or (map_of tables (rfm_table_id family))
         (MissingRouteFamilyTable (rfm_id family) (rfm_table_id family))) (\<lambda>table.
     and_then (try_each (check_family_entry family) (rt_entries table)) (\<lambda>_.
       let table_actors = template_actors (rt_entries table);
           expected_table_actors = filter (\<lambda>a. a \<notin> set (rfm_entry_actors family)) (rfm_actors family) in
       if rt_state table \<noteq> rfm_state family \<or> length table_actors \<noteq> card (set expected_table_actors)
          \<or> set table_actors \<noteq> set expected_table_actors
       then Err (RouteFamilyTableMismatch (rfm_id family) (rfm_table_id family) (rfm_state family) expected_table_actors)
       else Ok ()))"

section \<open>What the shared loops establish\<close>

definition indexes :: "('a \<Rightarrow> string) \<Rightarrow> 'a list \<Rightarrow> (string, 'a) btree \<Rightarrow> bool" where
  "indexes key xs m \<longleftrightarrow> distinct (map key xs) \<and> (\<forall>k x. map_of m k = Some x \<longleftrightarrow> x \<in> set xs \<and> key x = k)"

lemma index_steps_Ok:
  "try_fold (index_step key dup chk) m xs = Ok m' \<longleftrightarrow>
     distinct (map key xs) \<and> (\<forall>x \<in> set xs. map_of m (key x) = None \<and> chk x = Ok ())
     \<and> m' = fold (\<lambda>x. bm_insert (key x) x) xs m"
proof (induction xs arbitrary: m)
  case (Cons x xs)
  have step: "index_step key dup chk m x = Ok m1 \<longleftrightarrow>
      map_of m (key x) = None \<and> chk x = Ok () \<and> m1 = bm_insert (key x) x m" for m1
    by (auto simp: index_step_def outcome_simps)
  have new: "(\<forall>y \<in> set xs. map_of (bm_insert (key x) x m) (key y) = None \<and> chk y = Ok ()) \<longleftrightarrow>
      key x \<notin> key ` set xs \<and> (\<forall>y \<in> set xs. map_of m (key y) = None \<and> chk y = Ok ())"
  proof -
    have "map_of (bm_insert (key x) x m) (key y) = None \<longleftrightarrow> key x \<noteq> key y \<and> map_of m (key y) = None" for y
      by auto
    then show ?thesis by (simp only: image_iff) blast
  qed
  show ?case
    unfolding try_fold.simps and_then_Ok_iff step using Cons.IH [of "bm_insert (key x) x m", unfolded new]
    by auto
qed auto

lemma index_unique_Ok_iff:
  "index_unique key dup chk xs = Ok m \<longleftrightarrow>
     distinct (map key xs) \<and> (\<forall>x \<in> set xs. chk x = Ok ()) \<and> m = fold (\<lambda>x. bm_insert (key x) x) xs []"
  unfolding index_unique_def index_steps_Ok by auto

lemma index_unique_OkD:
  assumes "index_unique key dup chk xs = Ok m"
  shows "indexes key xs m" and "x \<in> set xs \<Longrightarrow> chk x = Ok ()"
proof -
  have d: "distinct (map key xs)" and m: "m = fold (\<lambda>(k, v). bm_insert k v) (map (\<lambda>x. (key x, x)) xs) []"
    using assms by (auto simp: index_unique_Ok_iff fold_map comp_def)
  have "map_of m k = map_of (map (\<lambda>x. (key x, x)) xs) k" for k
    unfolding m by (rule bm.get_filled_distinct) (use d in \<open>simp add: comp_def\<close>)
  moreover have "map_of (map (\<lambda>x. (key x, x)) xs) k = Some x \<longleftrightarrow> x \<in> set xs \<and> key x = k" for k x
    using d by (subst map_of_eq_Some_iff) (auto simp: comp_def)
  ultimately show "indexes key xs m" using d by (simp add: indexes_def)
  show "x \<in> set xs \<Longrightarrow> chk x = Ok ()" using assms by (simp add: index_unique_Ok_iff)
qed

lemma indexesD:
  assumes "indexes key xs m"
  shows "x \<in> set xs \<Longrightarrow> map_of m (key x) = Some x" and "map_of m k = Some x \<Longrightarrow> x \<in> set xs \<and> key x = k"
    and "distinct (map key xs)"
  using assms unfolding indexes_def by blast+

lemma index_unique_not_Panic:
  "(\<And>x. x \<in> set xs \<Longrightarrow> chk x \<noteq> Panic) \<Longrightarrow> index_unique key dup chk xs \<noteq> Panic"
proof -
  assume *: "\<And>x. x \<in> set xs \<Longrightarrow> chk x \<noteq> Panic"
  have "try_fold (index_step key dup chk) m xs \<noteq> Panic" for m
    using * by (induction xs arbitrary: m) (auto simp: index_step_def outcome_simps split: if_splits)
  then show ?thesis by (simp add: index_unique_def)
qed

lemma each_once_Ok_iff: "each_once dup chk xs = Ok () \<longleftrightarrow> distinct xs \<and> (\<forall>x \<in> set xs. chk x = Ok ())"
proof -
  have "(\<exists>s. try_fold (each_once_step dup chk) seen xs = Ok s) \<longleftrightarrow>
      distinct xs \<and> set xs \<inter> seen = {} \<and> (\<forall>x \<in> set xs. chk x = Ok ())" for seen
  proof (induction xs arbitrary: seen)
    case (Cons x xs)
    show ?case using Cons.IH [of "insert x seen"] by (auto simp: each_once_step_def outcome_simps)
  qed auto
  from this [of "{}"] show ?thesis by (auto simp: each_once_def outcome_simps)
qed

lemma each_once_not_Panic:
  "(\<And>x. x \<in> set xs \<Longrightarrow> chk x \<noteq> Panic) \<Longrightarrow> each_once dup chk xs \<noteq> Panic"
proof -
  assume *: "\<And>x. x \<in> set xs \<Longrightarrow> chk x \<noteq> Panic"
  have "try_fold (each_once_step dup chk) seen xs \<noteq> Panic" for seen
    using * by (induction xs arbitrary: seen) (auto simp: each_once_step_def outcome_simps split: if_splits)
  then show ?thesis by (simp add: each_once_def outcome_simps)
qed

lemma map_of_collect_map: "map_of (collect_map kvs) k = map_of (rev kvs) k"
  unfolding collect_map_def by (rule bm.get_filled)

lemma collect_map_None: "map_of (collect_map kvs) k = None \<longleftrightarrow> k \<notin> fst ` set kvs"
  by (simp add: map_of_collect_map map_of_eq_None_iff)

lemma collect_map_SomeD: "map_of (collect_map kvs) k = Some v \<Longrightarrow> (k, v) \<in> set kvs"
  unfolding map_of_collect_map by (drule map_of_SomeD) simp

section \<open>No phase panics\<close>

lemma structural_phases_not_Panic [simp]:
  "index_templates lib abi templates \<noteq> Panic"
  "check_template_refs by_id refs templates \<noteq> Panic"
  "index_families states families \<noteq> Panic"
  "index_runtime_states abi states plans \<noteq> Panic"
  "index_tables tables \<noteq> Panic"
  "check_table ts fs bs table \<noteq> Panic"
  "index_proofs bs proofs \<noteq> Panic"
  "check_table_proved ps table \<noteq> Panic"
  "check_family_table bs family \<noteq> Panic"
proof -
  show "index_templates lib abi templates \<noteq> Panic"
    unfolding index_templates_def
    by (rule index_unique_not_Panic) (auto simp: check_template_receipt_def outcome_simps Let_def)
  show "check_template_refs by_id refs templates \<noteq> Panic"
    by (auto simp: check_template_refs_def check_template_ref_def outcome_simps intro!: try_each_not_Panic)
  have "check_family states family \<noteq> Panic" for family
    by (auto simp: check_family_def Let_def outcome_simps intro!: each_once_not_Panic try_each_not_Panic)
  then show "index_families states families \<noteq> Panic"
    unfolding index_families_def by (rule index_unique_not_Panic)
  have "check_runtime_state abi states rs \<noteq> Panic" for rs
    by (auto simp: check_runtime_state_def Let_def outcome_simps intro!: each_once_not_Panic)
  then show "index_runtime_states abi states plans \<noteq> Panic"
    unfolding index_runtime_states_def by (rule index_unique_not_Panic)
  show "index_tables tables \<noteq> Panic"
    unfolding index_tables_def by (rule index_unique_not_Panic) simp
  have "check_table_leaf ts fs bs i leaf \<noteq> Panic" for i leaf
    by (auto simp: check_table_leaf_def Let_def outcome_simps split: route_template_leaf.splits)
  then show "check_table ts fs bs table \<noteq> Panic"
    by (auto simp: check_table_def check_table_entry_def Let_def intro!: try_each_not_Panic split: if_splits)
  show "index_proofs bs proofs \<noteq> Panic"
    unfolding index_proofs_def by (rule index_unique_not_Panic) simp
  show "check_table_proved ps table \<noteq> Panic" by (simp add: check_table_proved_def)
  have "check_family_entry family e \<noteq> Panic" for e
    by (auto simp: check_family_entry_def split: route_template_leaf.splits)
  then show "check_family_table bs family \<noteq> Panic"
    by (auto simp: check_family_table_def Let_def outcome_simps intro!: try_each_not_Panic)
qed

section \<open>What an accepted phase establishes\<close>

lemma check_family_OkD:
  assumes "check_family states family = Ok ()"
  shows "2 \<le> length (rfm_actors family)" and "distinct (rfm_actors family)"
    and "rfm_representative_actor family \<in> set (rfm_actors family)"
    and "distinct (rfm_entry_actors family)" and "set (rfm_entry_actors family) \<subseteq> set (rfm_actors family)"
    and "a \<in> set (rfm_actors family) \<Longrightarrow> map_of states a = Some (rfm_state family)"
  using assms by (auto simp: check_family_def Let_def outcome_simps each_once_Ok_iff split: if_splits)

lemma check_table_OkD:
  assumes "check_table ts fs bs table = Ok ()"
  shows "rt_byte_len table = length (rt_entries table) * 32"
    and "j < length (rt_entries table) \<Longrightarrow>
      te_index (rt_entries table ! j) = j \<and> te_offset (rt_entries table ! j) = j * 32"
    and "e \<in> set (rt_entries table) \<Longrightarrow> check_table_leaf ts fs bs (rt_id table) (te_leaf e) = Ok ()"
proof -
  show "rt_byte_len table = length (rt_entries table) * 32"
    using assms by (simp add: check_table_def Let_def split: if_splits)
  have all: "\<forall>x \<in> set (List.enumerate 0 (rt_entries table)). check_table_entry ts fs bs (rt_id table) x = Ok ()"
    using assms by (simp add: check_table_def Let_def outcome_simps split: if_splits)
  have at: "check_table_entry ts fs bs (rt_id table) (j, rt_entries table ! j) = Ok ()"
    if "j < length (rt_entries table)" for j
    using all that by (auto simp: in_set_enumerate_eq)
  show "te_index (rt_entries table ! j) = j \<and> te_offset (rt_entries table ! j) = j * 32"
    if "j < length (rt_entries table)"
    using at [OF that] by (simp add: check_table_entry_def Let_def split: if_splits)
  show "check_table_leaf ts fs bs (rt_id table) (te_leaf e) = Ok ()" if e: "e \<in> set (rt_entries table)"
  proof -
    obtain j where "j < length (rt_entries table)" "rt_entries table ! j = e"
      using e unfolding in_set_conv_nth by blast
    with at [of j] show ?thesis by (simp add: check_table_entry_def Let_def split: if_splits)
  qed
qed

lemma check_table_leaf_TemplateD:
  assumes "check_table_leaf ts fs bs i (TemplateLeaf actor template_id) = Ok ()"
  obtains t where "map_of ts template_id = Some t" and "tr_actor t = actor"
  using assms by (auto simp: check_table_leaf_def outcome_simps)

lemma check_table_leaf_FamilyD:
  assumes "check_table_leaf ts fs bs i (RouteFamilyLeaf family_id proof_id) = Ok ()"
  obtains f t where "map_of fs family_id = Some f" and "map_of bs (rfm_table_id f) = Some t"
    and "proof_id = route_proof_receipt_id (rt_state t) (rt_field t)"
  using assms by (auto simp: check_table_leaf_def Let_def outcome_simps)

text \<open>Receipt ids are built from a state and a field; the ids of tables and proofs agree.\<close>

lemma receipt_ids_agree:
  "route_table_receipt_id s f = route_table_receipt_id s' f' \<longleftrightarrow> route_proof_receipt_id s f = route_proof_receipt_id s' f'"
  by (simp add: route_table_receipt_id_def route_proof_receipt_id_def)

lemma bind_table_OkD:
  assumes "indexes rt_id tables bt" and "bind_table bt rs sil_field name leaves ty = Ok i"
  obtains t where "t \<in> set tables" and "rt_id t = i" and "i = route_table_receipt_id (rt_state t) (rt_field t)"
    and "rt_state t = rsp_source rs" and "rt_field t = name"
    and "map (\<lambda>e. runtime_leaf_for_route_leaf (te_leaf e)) (rt_entries t) = leaves"
    and "rf_ty sil_field = ty"
proof -
  obtain t where t: "map_of bt (route_table_receipt_id (rsp_source rs) name) = Some t"
    "rt_state t = rsp_source rs" "rt_field t = name" "rf_ty sil_field = ty" "i = rt_id t"
    "map (\<lambda>e. runtime_leaf_for_route_leaf (te_leaf e)) (rt_entries t) = leaves"
    using assms(2) by (auto simp: bind_table_def Let_def outcome_simps split: if_splits)
  with indexesD(2) [OF assms(1) t(1)] show ?thesis using that [of t] by simp
qed

lemma bind_field_role_OkD:
  assumes "indexes rt_id tables bt" and "bind_field_role lib fs bt rs sil_field field = Ok (Some i)"
  shows "\<exists>t \<in> set tables. rt_id t = i \<and> i = route_table_receipt_id (rt_state t) (rt_field t)"
proof -
  obtain leaves ty where "bind_table bt rs sil_field (fr_name field) leaves ty = Ok i"
    using assms(2) by (auto simp: bind_field_role_def and_then_Ok_iff split: runtime_field_role.splits if_splits)
  from bind_table_OkD [OF assms(1) this] show ?thesis by blast
qed

lemma bind_tables_OkD:
  assumes ix: "indexes rt_id tables bt" and ok: "bind_tables lib abi fs bt rss tables = Ok ()"
  shows "t \<in> set tables \<Longrightarrow> rt_id t = route_table_receipt_id (rt_state t) (rt_field t)"
    and "rs \<in> set rss \<Longrightarrow> field \<in> set (rsp_field_roles rs) \<Longrightarrow>
      \<exists>contract sil_field r. map_of (sil_contracts abi) (rsp_contract rs) = Some contract
        \<and> map_of (sil_fields_by_name contract) (fr_name field) = Some sil_field
        \<and> bind_field_role lib fs bt rs sil_field field = Ok r"
proof -
  obtain referenced where referenced: "try_fold (bind_runtime_state lib abi fs bt) {} rss = Ok referenced"
    "\<forall>t \<in> set tables. rt_id t \<in> referenced"
    using ok by (auto simp: bind_tables_def outcome_simps)
  let ?P = "\<lambda>s. \<forall>i \<in> s. \<exists>t \<in> set tables. rt_id t = i \<and> i = route_table_receipt_id (rt_state t) (rt_field t)"
  have role: "?P s'" if "?P s" "bind_role_step lib fs bt rs sf s field = Ok s'" for rs sf s field s'
    using that bind_field_role_OkD [OF ix]
    by (auto simp: bind_role_step_def and_then_Ok_iff split: option.splits)
  have "?P referenced"
  proof (rule try_fold_Ok_invariant [OF referenced(1)])
    show "?P {}" by simp
    show "?P s'" if P: "?P s" and step: "bind_runtime_state lib abi fs bt s rs = Ok s'" for s rs s'
    proof -
      obtain contract where
        "try_fold (bind_role_step lib fs bt rs (sil_fields_by_name contract)) s (rsp_field_roles rs) = Ok s'"
        using step by (auto simp: bind_runtime_state_def and_then_Ok_iff)
      then show ?thesis by (rule try_fold_Ok_invariant) (use P role in blast)+
    qed
  qed
  then show "rt_id t = route_table_receipt_id (rt_state t) (rt_field t)" if "t \<in> set tables"
    using referenced(2) that indexesD(3) [OF ix] by (metis distinct_map inj_onD)
  show "\<exists>contract sil_field r. map_of (sil_contracts abi) (rsp_contract rs) = Some contract
        \<and> map_of (sil_fields_by_name contract) (fr_name field) = Some sil_field
        \<and> bind_field_role lib fs bt rs sil_field field = Ok r"
    if rs: "rs \<in> set rss" and field: "field \<in> set (rsp_field_roles rs)"
  proof -
    obtain s s' where "bind_runtime_state lib abi fs bt s rs = Ok s'"
      using try_fold_Ok_each [OF referenced(1) rs] by blast
    then obtain contract where contract: "map_of (sil_contracts abi) (rsp_contract rs) = Some contract"
      "try_fold (bind_role_step lib fs bt rs (sil_fields_by_name contract)) s (rsp_field_roles rs) = Ok s'"
      by (auto simp: bind_runtime_state_def and_then_Ok_iff)
    then show ?thesis using try_fold_Ok_each [OF contract(2) field]
      by (auto simp: bind_role_step_def and_then_Ok_iff)
  qed
qed

text \<open>The binding phase looks up only what the indexing of runtime states has checked.\<close>

lemma check_runtime_state_OkD:
  assumes "check_runtime_state abi states rs = Ok ()"
  obtains contract where "map_of (sil_contracts abi) (rsp_contract rs) = Some contract"
    and "map_of states (rsp_contract rs) = Some (rsp_source rs)"
    and "distinct (map fr_name (rsp_field_roles rs))"
    and "\<forall>field \<in> set (rsp_field_roles rs). map_of (sil_fields_by_name contract) (fr_name field) \<noteq> None"
  using assms by (auto simp: check_runtime_state_def Let_def outcome_simps each_once_Ok_iff)

lemma bind_tables_not_Panic:
  assumes "\<And>rs. rs \<in> set rss \<Longrightarrow> check_runtime_state abi states rs = Ok ()"
  shows "bind_tables lib abi fs bt rss tables \<noteq> Panic"
proof -
  have "bind_field_role lib fs bt rs sf field \<noteq> Panic" for rs sf field
    by (auto simp: bind_field_role_def bind_table_def Let_def outcome_simps split: runtime_field_role.splits if_splits)
  note role = this
  have "bind_runtime_state lib abi fs bt s rs \<noteq> Panic" if rs: "rs \<in> set rss" for s rs
  proof -
    obtain contract where contract: "map_of (sil_contracts abi) (rsp_contract rs) = Some contract"
      "\<forall>field \<in> set (rsp_field_roles rs). map_of (sil_fields_by_name contract) (fr_name field) \<noteq> None"
      using check_runtime_state_OkD [OF assms [OF rs]] by blast
    have "bind_role_step lib fs bt rs (sil_fields_by_name contract) s field \<noteq> Panic"
      if "field \<in> set (rsp_field_roles rs)" for s field
      using contract(2) that role by (auto simp: bind_role_step_def and_then_Panic_iff)
    then show ?thesis using contract(1) by (auto simp: bind_runtime_state_def and_then_Panic_iff intro!: try_fold_not_Panic)
  qed
  then have "try_fold (bind_runtime_state lib abi fs bt) {} rss \<noteq> Panic" by (rule try_fold_not_Panic)
  then show ?thesis by (auto simp: bind_tables_def and_then_Panic_iff intro!: try_each_not_Panic)
qed

lemma template_actors_set: "set (template_actors es) = {a. \<exists>e \<in> set es. \<exists>i. te_leaf e = TemplateLeaf a i}"
  by (induction es) (auto split: route_template_leaf.splits)

lemma check_family_table_OkD:
  assumes "check_family_table bt family = Ok ()"
  obtains t where "map_of bt (rfm_table_id family) = Some t"
    and "\<forall>e \<in> set (rt_entries t). \<exists>a i. te_leaf e = TemplateLeaf a i"
    and "rt_state t = rfm_state family" and "distinct (template_actors (rt_entries t))"
    and "set (template_actors (rt_entries t)) = set (rfm_actors family) - set (rfm_entry_actors family)"
proof -
  obtain t where t: "map_of bt (rfm_table_id family) = Some t"
    "try_each (check_family_entry family) (rt_entries t) = Ok ()" "rt_state t = rfm_state family"
    "length (template_actors (rt_entries t)) = card (set (filter (\<lambda>a. a \<notin> set (rfm_entry_actors family)) (rfm_actors family)))"
    "set (template_actors (rt_entries t)) = set (filter (\<lambda>a. a \<notin> set (rfm_entry_actors family)) (rfm_actors family))"
    using assms by (auto simp: check_family_table_def Let_def outcome_simps split: if_splits)
  moreover have "\<exists>a i. te_leaf e = TemplateLeaf a i" if "e \<in> set (rt_entries t)" for e
    using t(2) that by (cases "te_leaf e") (auto simp: outcome_simps check_family_entry_def)
  moreover have "distinct (template_actors (rt_entries t))"
    using t(4,5) by (metis card_distinct)
  ultimately show ?thesis using that by auto
qed

end
