(* ===== verification/Actor_Handles.thy ===== *)
theory Actor_Handles
  imports Template_Plan
begin

text \<open>
  Values of compiler-owned runtime fields that the route plan fixes, and the verification of
  actor-type handles (\<^verbatim>\<open>fixed_runtime_context_value\<close> and \<^verbatim>\<open>verify_actor_type_handle\<close> of
  \<^verbatim>\<open>crates/argent-artifact/src/lib.rs\<close>).
\<close>

section \<open>Fixed context values\<close>

definition sil_template_hash_bytes :: "template_plan \<Rightarrow> string \<Rightarrow> (template_plan_error, byte list) outcome" where
  "sil_template_hash_bytes plan actor =
     and_then (ok_or (template_hash_by_actor (tp_templates plan) actor) (UnknownContract actor)) (\<lambda>template.
       Ok (th_hash template))"

definition fixed_entry_bytes ::
  "template_plan \<Rightarrow> runtime_state_plan \<Rightarrow> route_template_table \<Rightarrow> route_table_entry
     \<Rightarrow> (template_plan_error, byte list) outcome" where
  "fixed_entry_bytes plan rs table entry =
     (case te_leaf entry of
        TemplateLeaf actor _ \<Rightarrow> sil_template_hash_bytes plan actor
      | RouteFamilyLeaf family_id _ \<Rightarrow>
          Err (RuntimeStatePlanMismatch (rsp_contract rs)
            (TableContainsNestedFamily (rt_field table) (rt_id table) family_id)))"

definition fixed_route_table_bytes ::
  "template_plan \<Rightarrow> runtime_state_plan \<Rightarrow> route_template_table \<Rightarrow> (template_plan_error, byte list) outcome" where
  "fixed_route_table_bytes plan rs table =
     try_fold (\<lambda>bytes entry. and_then (fixed_entry_bytes plan rs table entry) (\<lambda>h. Ok (bytes @ h))) []
       (rt_entries table)"

definition fixed_runtime_context_value ::
  "'x hash_lib_scheme \<Rightarrow> template_plan \<Rightarrow> runtime_state_plan \<Rightarrow> runtime_field_role_plan
     \<Rightarrow> (template_plan_error, byte list) outcome" where
  "fixed_runtime_context_value lib plan rs field =
     (let invalid = \<lambda>m. RuntimeStatePlanMismatch (rsp_contract rs) (m (fr_name field)) in
      case fr_role field of
        TemplateRole contract \<Rightarrow> sil_template_hash_bytes plan contract
      | TemplateTableRole contracts \<Rightarrow>
          try_fold (\<lambda>table contract. and_then (sil_template_hash_bytes plan contract) (\<lambda>h. Ok (table @ h))) [] contracts
      | TemplateDigestRole i \<Rightarrow>
          and_then (ok_or (find (\<lambda>f. rfm_id f = i) (tp_route_families plan))
              (invalid (\<lambda>n. CannotFixMissingFamily n i))) (\<lambda>family.
          and_then (ok_or (find (\<lambda>t. rt_id t = rfm_table_id family) (tp_route_tables plan))
              (invalid (\<lambda>n. CannotFixMissingTable n (rfm_table_id family)))) (\<lambda>table.
          and_then (fixed_route_table_bytes plan rs table) (\<lambda>bytes. Ok (hl_blake3 lib bytes))))
      | TemplateRootRole _ \<Rightarrow>
          (let proof_id = route_proof_receipt_id (rsp_source rs) (fr_name field) in
           and_then (ok_or (find (\<lambda>p. rp_id p = proof_id) (tp_route_proofs plan))
               (invalid (\<lambda>n. CannotFixMissingProof n proof_id))) (\<lambda>p.
             decode_hash_hex lib proof_id (rp_root_hex p))))"

section \<open>Actor-type handles\<close>

definition handle_error :: "template_receipt \<Rightarrow> handle_problem \<Rightarrow> template_plan_error" where
  "handle_error template message = ActorTypeHandleMismatch (tr_id template) message"

definition slice_from :: "nat \<Rightarrow> 'a list \<Rightarrow> 'a list option" where
  "slice_from n xs = (if n \<le> length xs then Some (drop n xs) else None)"

definition source_state_of :: "'ty artifact \<Rightarrow> 'ty actor_decl \<Rightarrow> string" where
  "source_state_of artifact actor =
     (case map_option se_base (find (\<lambda>e. se_state e = ac_state actor) (ap_state_expansions (art_argent artifact))) of
        Some base \<Rightarrow> base
      | None \<Rightarrow> ac_state actor)"

definition find_runtime_plan :: "template_plan \<Rightarrow> string \<Rightarrow> runtime_state_plan option" where
  "find_runtime_plan plan contract_name = find (\<lambda>r. rsp_contract r = contract_name) (tp_runtime_states plan)"

definition expected_context_fields :: "runtime_state_plan option \<Rightarrow> string list" where
  "expected_context_fields runtime_plan =
     (case runtime_plan of None \<Rightarrow> [] | Some rs \<Rightarrow> map fr_name (rsp_field_roles rs))"

text \<open>The fields after the context are those of the state the handle leaves open.\<close>

definition check_open_fields ::
  "'ty artifact \<Rightarrow> template_receipt \<Rightarrow> 'ty sil_contract \<Rightarrow> (template_plan_error, unit) outcome" where
  "check_open_fields artifact template contract =
     (let handle = tr_actor_type_handle template; mismatch = handle_error template in
      and_then (ok_or (find (\<lambda>s. as_name s = ah_state handle) (ap_states (art_argent artifact)))
          (mismatch (HandleMissingLayout (ah_state handle)))) (\<lambda>handle_state.
      and_then (expect (slice_from (length (ah_context_fields handle)) (rs_fields (sc_runtime_state contract)))) (\<lambda>open_fields.
        ensure (length open_fields = length (as_fields handle_state)
            \<and> \<not> list_ex (\<lambda>(runtime, src). rf_name runtime \<noteq> af_name src \<or> rf_ty runtime \<noteq> af_ty src)
                (zip open_fields (as_fields handle_state)))
          (mismatch (HandleOpenFields (ah_state handle))))))"

text \<open>The handle's state and the split of the physical state into context and open fields.\<close>

definition check_handle_layout ::
  "template_plan \<Rightarrow> 'ty artifact \<Rightarrow> template_receipt \<Rightarrow> string \<Rightarrow> 'ty sil_contract
     \<Rightarrow> (template_plan_error, unit) outcome" where
  "check_handle_layout plan artifact template contract_name contract =
     (let handle = tr_actor_type_handle template; mismatch = handle_error template;
          runtime_fields = rs_fields (sc_runtime_state contract); n = length (ah_context_fields handle);
          leading = take n runtime_fields in
      and_then (ok_or (find (\<lambda>a. ac_name a = tr_actor template) (ap_actors (art_argent artifact)))
          (mismatch (HandleMissingActor (tr_actor template)))) (\<lambda>actor.
      let source_state = source_state_of artifact actor;
          expected = expected_context_fields (find_runtime_plan plan contract_name) in
      if source_state \<noteq> ah_state handle
      then Err (mismatch (HandleStateMismatch (ah_state handle) (ac_name actor) source_state))
      else if ah_context_fields handle \<noteq> expected
      then Err (mismatch (HandleContextFields (ah_context_fields handle) expected))
      else if length leading \<noteq> n \<or> list_ex (\<lambda>(field, name). rf_name field \<noteq> name) (zip leading (ah_context_fields handle))
      then Err (mismatch HandleNotLeading)
      else check_open_fields artifact template contract))"

text \<open>The cut of the handle's template; the result is the script of the fixed context.\<close>

definition check_handle_template ::
  "('ty, 'val, 'x) sil_lib_scheme \<Rightarrow> template_receipt \<Rightarrow> 'ty sil_contract \<Rightarrow> (template_plan_error, byte list) outcome" where
  "check_handle_template lib template contract =
     (let handle = ah_template (tr_actor_type_handle template); mismatch = handle_error template;
          compiled = sc_compiled contract in
      and_then (ok_or (sl_script_parts lib compiled (cc_bytecode compiled)) (mismatch HandleSpanOutside))
        (\<lambda>(sil_prefix, _, sil_suffix).
          if take (length sil_prefix) (at_prefix handle) \<noteq> sil_prefix then Err (mismatch HandlePrefixDiffers)
          else if at_suffix handle \<noteq> sil_suffix then Err (mismatch HandleSuffixDiffers)
          else
            let expected_hash = sl_template_hash lib (at_prefix handle) (at_suffix handle) in
            if at_hash handle \<noteq> expected_hash
            then Err (mismatch (HandleHashDiffers (encode_hex lib expected_hash) (encode_hex lib (at_hash handle))))
            else expect (slice_from (length sil_prefix) (at_prefix handle))))"

definition context_state :: "template_receipt \<Rightarrow> 'ty sil_contract \<Rightarrow> 'ty runtime_state" where
  "context_state template contract =
     \<lparr>rs_source = ah_state (tr_actor_type_handle template),
      rs_fields = take (length (ah_context_fields (tr_actor_type_handle template)))
        (rs_fields (sc_runtime_state contract))\<rparr>"

definition check_context_field ::
  "('ty, 'val, 'x) sil_lib_scheme \<Rightarrow> template_plan \<Rightarrow> template_receipt \<Rightarrow> (string, 'val) btree \<Rightarrow> runtime_state_plan
     \<Rightarrow> runtime_field_role_plan \<Rightarrow> (template_plan_error, unit) outcome" where
  "check_context_field lib plan template decoded rs field =
     and_then (fixed_runtime_context_value lib plan rs field) (\<lambda>expected.
       ensure (map_of decoded (fr_name field) = Some (sl_bytes_value lib expected))
         (handle_error template (HandleContextField (fr_name field))))"

definition verify_actor_type_handle ::
  "('ty, 'val, 'x) sil_lib_scheme \<Rightarrow> template_plan \<Rightarrow> 'ty artifact \<Rightarrow> template_receipt \<Rightarrow> string \<Rightarrow> 'ty sil_contract
     \<Rightarrow> (template_plan_error, unit) outcome" where
  "verify_actor_type_handle lib plan artifact template contract_name contract =
     (let mismatch = handle_error template; abi = art_sil_abi artifact; st = context_state template contract in
      and_then (check_handle_layout plan artifact template contract_name contract) (\<lambda>_.
      and_then (check_handle_template lib template contract) (\<lambda>context_script.
      and_then (ok_or (sl_decode_state lib abi st context_script) (mismatch HandleContextUndecodable)) (\<lambda>decoded.
      and_then (ok_or (sl_encode_state lib abi st decoded) (mismatch HandleContextUnencodable)) (\<lambda>canonical.
      if canonical \<noteq> context_script then Err (mismatch HandleContextNotCanonical)
      else
        (case find_runtime_plan plan contract_name of
           None \<Rightarrow> Ok ()
         | Some rs \<Rightarrow> try_each (check_context_field lib plan template decoded rs) (rsp_field_roles rs)))))))"

section \<open>Handles never panic\<close>

lemma slice_from_Some [simp]: "slice_from n xs = Some ys \<longleftrightarrow> n \<le> length xs \<and> ys = drop n xs"
  by (auto simp: slice_from_def)

lemma slice_from_None [simp]: "slice_from n xs = None \<longleftrightarrow> length xs < n"
  by (auto simp: slice_from_def)

lemma fixed_context_not_Panic [simp]: "fixed_runtime_context_value lib plan rs field \<noteq> Panic"
proof -
  have hash: "sil_template_hash_bytes plan a \<noteq> Panic" for a
    by (simp add: sil_template_hash_bytes_def outcome_simps)
  then have "fixed_entry_bytes plan rs table e \<noteq> Panic" for table e
    by (simp add: fixed_entry_bytes_def split: route_template_leaf.splits)
  then have "fixed_route_table_bytes plan rs table \<noteq> Panic" for table
    unfolding fixed_route_table_bytes_def by (intro try_fold_not_Panic) (simp add: and_then_Panic_iff)
  moreover have "try_fold (\<lambda>table c. and_then (sil_template_hash_bytes plan c) (\<lambda>h. Ok (table @ h))) bs cs \<noteq> Panic" for bs cs
    by (rule try_fold_not_Panic) (simp add: and_then_Panic_iff hash)
  ultimately show ?thesis
    using hash decode_hash_hex_not_Panic [of lib]
    by (auto simp: fixed_runtime_context_value_def Let_def and_then_Panic_iff split: runtime_field_role.splits)
qed

lemma verify_handle_not_Panic [simp]: "verify_actor_type_handle lib plan artifact template name contract \<noteq> Panic"
proof -
  have layout: "check_handle_layout plan artifact template name contract \<noteq> Panic"
    by (auto simp: check_handle_layout_def check_open_fields_def Let_def and_then_Panic_iff split: if_splits)
  have template: "check_handle_template lib template contract \<noteq> Panic"
  proof -
    have "length p \<le> length q" if "take (length p) q = p" for p q :: "byte list"
      using that by (metis length_take min.cobounded1)
    then show ?thesis
      by (force simp: check_handle_template_def Let_def and_then_Panic_iff split: if_splits)
  qed
  have "check_context_field lib plan template decoded rs field \<noteq> Panic" for decoded rs field
    by (simp add: check_context_field_def and_then_Panic_iff)
  then show ?thesis using layout template
    by (auto simp: verify_actor_type_handle_def Let_def and_then_Panic_iff split: if_splits option.splits
        dest: try_each_not_Panic [THEN notE, rotated])
qed

section \<open>What a verified handle establishes\<close>

lemma zip_agree:
  "length xs = length ys \<Longrightarrow> \<not> list_ex (\<lambda>(x, y). f x \<noteq> y) (zip xs ys) \<longleftrightarrow> map f xs = ys"
  by (induction xs ys rule: list_induct2) auto

lemma zip_agree2:
  "length xs = length ys \<Longrightarrow> \<not> list_ex (\<lambda>(x, y). f x \<noteq> f' y \<or> g x \<noteq> g' y) (zip xs ys)
     \<longleftrightarrow> map f xs = map f' ys \<and> map g xs = map g' ys"
  by (induction xs ys rule: list_induct2) auto

lemma handle_layout_OkD:
  assumes "check_handle_layout plan artifact template name contract = Ok ()"
  obtains actor layout where
    "find (\<lambda>a. ac_name a = tr_actor template) (ap_actors (art_argent artifact)) = Some actor"
    "ah_state (tr_actor_type_handle template) = source_state_of artifact actor"
    "ah_context_fields (tr_actor_type_handle template) = expected_context_fields (find_runtime_plan plan name)"
    "find (\<lambda>s. as_name s = ah_state (tr_actor_type_handle template)) (ap_states (art_argent artifact)) = Some layout"
    "map rf_name (rs_fields (sc_runtime_state contract))
       = ah_context_fields (tr_actor_type_handle template) @ map af_name (as_fields layout)"
    "map rf_ty (drop (length (ah_context_fields (tr_actor_type_handle template))) (rs_fields (sc_runtime_state contract)))
       = map af_ty (as_fields layout)"
proof -
  let ?h = "tr_actor_type_handle template" and ?fs = "rs_fields (sc_runtime_state contract)"
  let ?n = "length (ah_context_fields ?h)"
  let ?names = "list_ex (\<lambda>(field, name). rf_name field \<noteq> name) (zip (take ?n ?fs) (ah_context_fields ?h))"
  obtain actor where actor:
    "find (\<lambda>a. ac_name a = tr_actor template) (ap_actors (art_argent artifact)) = Some actor"
    using assms unfolding check_handle_layout_def Let_def and_then_Ok_iff ok_or_iff by blast
  have conds: "source_state_of artifact actor = ah_state ?h"
    "ah_context_fields ?h = expected_context_fields (find_runtime_plan plan name)"
    "length (take ?n ?fs) = ?n" "\<not> ?names" and rest: "check_open_fields artifact template contract = Ok ()"
    using assms unfolding check_handle_layout_def Let_def and_then_Ok_iff ok_or_iff guard_Ok_iff actor option.inject
    by blast+
  obtain layout where layout:
    "find (\<lambda>s. as_name s = ah_state ?h) (ap_states (art_argent artifact)) = Some layout"
    "length (drop ?n ?fs) = length (as_fields layout)
      \<and> \<not> list_ex (\<lambda>(runtime, src). rf_name runtime \<noteq> af_name src \<or> rf_ty runtime \<noteq> af_ty src)
          (zip (drop ?n ?fs) (as_fields layout))"
    using rest unfolding check_open_fields_def Let_def and_then_Ok_iff ok_or_iff expect_iff
      slice_from_Some ensure_iff by blast
  note * = actor conds layout(1) conjunct1 [OF layout(2)] conjunct2 [OF layout(2)]
  have "map rf_name (take ?n ?fs) = ah_context_fields ?h"
    using *(4,5) by (simp only: zip_agree)
  moreover have "map rf_name (drop ?n ?fs) = map af_name (as_fields layout)"
    "map rf_ty (drop ?n ?fs) = map af_ty (as_fields layout)"
    using *(7,8) by (simp_all only: zip_agree2)
  moreover have "map rf_name ?fs = map rf_name (take ?n ?fs) @ map rf_name (drop ?n ?fs)"
    by (metis append_take_drop_id map_append)
  ultimately show ?thesis using that *(1,2,3,6) by simp
qed

text \<open>The cut of a verified handle: its prefix extends the Sil prefix by the canonical context.\<close>

definition handle_context ::
  "('ty, 'val, 'x) sil_lib_scheme \<Rightarrow> 'ty artifact \<Rightarrow> template_receipt \<Rightarrow> 'ty sil_contract \<Rightarrow> (string, 'val) btree \<Rightarrow> bool" where
  "handle_context lib artifact template contract decoded \<longleftrightarrow>
     (\<exists>sil_prefix state ctx.
        sl_script_parts lib (sc_compiled contract) (cc_bytecode (sc_compiled contract))
          = Some (sil_prefix, state, at_suffix (ah_template (tr_actor_type_handle template)))
        \<and> at_prefix (ah_template (tr_actor_type_handle template)) = sil_prefix @ ctx
        \<and> sl_decode_state lib (art_sil_abi artifact) (context_state template contract) ctx = Some decoded
        \<and> sl_encode_state lib (art_sil_abi artifact) (context_state template contract) decoded = Some ctx)"

lemma handle_template_OkD:
  assumes "check_handle_template lib template contract = Ok ctx"
  obtains sil_prefix state where
    "sl_script_parts lib (sc_compiled contract) (cc_bytecode (sc_compiled contract))
       = Some (sil_prefix, state, at_suffix (ah_template (tr_actor_type_handle template)))"
    "at_prefix (ah_template (tr_actor_type_handle template)) = sil_prefix @ ctx"
    "at_hash (ah_template (tr_actor_type_handle template))
       = sl_template_hash lib (at_prefix (ah_template (tr_actor_type_handle template)))
           (at_suffix (ah_template (tr_actor_type_handle template)))"
proof -
  obtain parts where parts: "sl_script_parts lib (sc_compiled contract) (cc_bytecode (sc_compiled contract)) = Some parts"
    using assms unfolding check_handle_template_def Let_def and_then_Ok_iff ok_or_iff by blast
  obtain p st q where pq: "parts = (p, st, q)" by (cases parts)
  have "take (length p) (at_prefix (ah_template (tr_actor_type_handle template))) = p"
    "at_suffix (ah_template (tr_actor_type_handle template)) = q"
    "at_hash (ah_template (tr_actor_type_handle template))
       = sl_template_hash lib (at_prefix (ah_template (tr_actor_type_handle template)))
           (at_suffix (ah_template (tr_actor_type_handle template)))"
    "ctx = drop (length p) (at_prefix (ah_template (tr_actor_type_handle template)))"
    using assms unfolding check_handle_template_def Let_def and_then_Ok_iff ok_or_iff parts pq option.inject
    by (auto simp: guard_Ok_iff)
  then show ?thesis using that parts pq by (metis append_take_drop_id)
qed

lemma verify_handle_OkD:
  assumes "verify_actor_type_handle lib plan artifact template name contract = Ok ()"
  obtains decoded where "handle_context lib artifact template contract decoded"
    and "check_handle_layout plan artifact template name contract = Ok ()"
    and "at_hash (ah_template (tr_actor_type_handle template))
       = sl_template_hash lib (at_prefix (ah_template (tr_actor_type_handle template)))
           (at_suffix (ah_template (tr_actor_type_handle template)))"
    and "\<And>rs field. find_runtime_plan plan name = Some rs \<Longrightarrow> field \<in> set (rsp_field_roles rs) \<Longrightarrow>
      \<exists>v. fixed_runtime_context_value lib plan rs field = Ok v \<and> map_of decoded (fr_name field) = Some (sl_bytes_value lib v)"
proof -
  obtain ctx decoded where *:
    "check_handle_layout plan artifact template name contract = Ok ()"
    "check_handle_template lib template contract = Ok ctx"
    "sl_decode_state lib (art_sil_abi artifact) (context_state template contract) ctx = Some decoded"
    "sl_encode_state lib (art_sil_abi artifact) (context_state template contract) decoded = Some ctx"
    "(case find_runtime_plan plan name of None \<Rightarrow> Ok ()
      | Some rs \<Rightarrow> try_each (check_context_field lib plan template decoded rs) (rsp_field_roles rs)) = Ok ()"
    using assms unfolding verify_actor_type_handle_def Let_def and_then_Ok_iff ok_or_iff guard_Ok_iff by auto
  have "\<exists>v. fixed_runtime_context_value lib plan rs field = Ok v \<and> map_of decoded (fr_name field) = Some (sl_bytes_value lib v)"
    if "find_runtime_plan plan name = Some rs" "field \<in> set (rsp_field_roles rs)" for rs field
    using *(5) that by (auto simp: outcome_simps check_context_field_def)
  with handle_template_OkD [OF *(2)] *(1,3,4) that show ?thesis
    unfolding handle_context_def by metis
qed

text \<open>
  C22: A verified actor-type handle commits to the route plan: its prefix is the compiled
  prefix followed by a context that decodes, under the leading runtime fields, to the
  canonical value the plan fixes for every compiler-owned field, and that is the canonical
  encoding of these values; its suffix is the compiled suffix and its hash the hash of both.
\<close>

theorem actor_handle_commits_plan:
  assumes "verify_actor_type_handle lib plan artifact template name contract = Ok ()"
    and "find_runtime_plan plan name = Some rs"
  shows "\<exists>decoded. handle_context lib artifact template contract decoded
    \<and> ah_context_fields (tr_actor_type_handle template) = map fr_name (rsp_field_roles rs)
    \<and> at_hash (ah_template (tr_actor_type_handle template))
       = sl_template_hash lib (at_prefix (ah_template (tr_actor_type_handle template)))
           (at_suffix (ah_template (tr_actor_type_handle template)))
    \<and> (\<forall>field \<in> set (rsp_field_roles rs). \<exists>v. fixed_runtime_context_value lib plan rs field = Ok v
        \<and> map_of decoded (fr_name field) = Some (sl_bytes_value lib v))"
proof -
  obtain decoded where "handle_context lib artifact template contract decoded"
    "check_handle_layout plan artifact template name contract = Ok ()"
    "at_hash (ah_template (tr_actor_type_handle template))
       = sl_template_hash lib (at_prefix (ah_template (tr_actor_type_handle template)))
           (at_suffix (ah_template (tr_actor_type_handle template)))"
    "\<forall>field \<in> set (rsp_field_roles rs). \<exists>v. fixed_runtime_context_value lib plan rs field = Ok v
        \<and> map_of decoded (fr_name field) = Some (sl_bytes_value lib v)"
    using verify_handle_OkD [OF assms(1)] assms(2) by metis
  moreover from handle_layout_OkD [OF this(2)]
  have "ah_context_fields (tr_actor_type_handle template) = map fr_name (rsp_field_roles rs)"
    using assms(2) by (simp add: expected_context_fields_def)
  ultimately show ?thesis by blast
qed

lemma context_decoded_keys:
  assumes "decode_keys_ok lib" "handle_context lib artifact template contract decoded"
    and "check_handle_layout plan artifact template name contract = Ok ()"
  shows "sorted_wrt (<) (bm_keys decoded)"
    and "set (bm_keys decoded) = set (ah_context_fields (tr_actor_type_handle template))"
proof -
  let ?names = "ah_context_fields (tr_actor_type_handle template)" and ?fs = "rs_fields (sc_runtime_state contract)"
  obtain rest where "map rf_name ?fs = ?names @ rest" using handle_layout_OkD [OF assms(3)] by metis
  then have "map rf_name (take (length ?names) ?fs) = ?names" by (metis append_eq_conv_conj take_map)
  moreover have "sorted_wrt (<) (bm_keys decoded)
      \<and> set (bm_keys decoded) = rf_name ` set (rs_fields (context_state template contract))"
    using assms(1,2) unfolding decode_keys_ok_def handle_context_def by blast
  ultimately show "sorted_wrt (<) (bm_keys decoded)" "set (bm_keys decoded) = set ?names"
    by (auto simp: context_state_def simp flip: set_map)
qed

text \<open>
  The handle of an actor is determined by the artifact: two receipts of one actor whose
  handles verify against the same contract, plan and artifact carry the same handle, byte by
  byte, so an importing app cannot be given a second template for the actor.
\<close>

theorem actor_handle_unique:
  assumes keys: "decode_keys_ok lib"
    and ok: "verify_actor_type_handle lib plan artifact t name contract = Ok ()"
      "verify_actor_type_handle lib plan artifact t' name contract = Ok ()"
    and actor: "tr_actor t = tr_actor t'"
  shows "tr_actor_type_handle t = tr_actor_type_handle t'"
proof -
  let ?h = "tr_actor_type_handle t" and ?h' = "tr_actor_type_handle t'"
  obtain d where d: "handle_context lib artifact t contract d"
    "check_handle_layout plan artifact t name contract = Ok ()"
    "at_hash (ah_template ?h) = sl_template_hash lib (at_prefix (ah_template ?h)) (at_suffix (ah_template ?h))"
    "\<And>rs field. find_runtime_plan plan name = Some rs \<Longrightarrow> field \<in> set (rsp_field_roles rs) \<Longrightarrow>
      \<exists>v. fixed_runtime_context_value lib plan rs field = Ok v \<and> map_of d (fr_name field) = Some (sl_bytes_value lib v)"
    using verify_handle_OkD [OF ok(1)] by metis
  obtain d' where d': "handle_context lib artifact t' contract d'"
    "check_handle_layout plan artifact t' name contract = Ok ()"
    "at_hash (ah_template ?h') = sl_template_hash lib (at_prefix (ah_template ?h')) (at_suffix (ah_template ?h'))"
    "\<And>rs field. find_runtime_plan plan name = Some rs \<Longrightarrow> field \<in> set (rsp_field_roles rs) \<Longrightarrow>
      \<exists>v. fixed_runtime_context_value lib plan rs field = Ok v \<and> map_of d' (fr_name field) = Some (sl_bytes_value lib v)"
    using verify_handle_OkD [OF ok(2)] by metis
  have state: "ah_state ?h = ah_state ?h'"
    using handle_layout_OkD [OF d(2)] handle_layout_OkD [OF d'(2)] actor by (metis option.inject)
  have fields: "ah_context_fields ?h = ah_context_fields ?h'"
    "ah_context_fields ?h = expected_context_fields (find_runtime_plan plan name)"
    using handle_layout_OkD [OF d(2)] handle_layout_OkD [OF d'(2)] by metis+
  note k = context_decoded_keys [OF keys d(1,2)] and k' = context_decoded_keys [OF keys d'(1,2)]
  have "map_of d x = map_of d' x" for x
  proof (cases "x \<in> set (ah_context_fields ?h)")
    case True
    then obtain rs field where "find_runtime_plan plan name = Some rs" "field \<in> set (rsp_field_roles rs)" "x = fr_name field"
      by (cases "find_runtime_plan plan name") (auto simp: fields(2) expected_context_fields_def)
    with d(4) d'(4) show ?thesis by fastforce
  next
    case False
    then have "map_of d x = None" "map_of d' x = None"
      using k(2) k'(2) fields(1) by (simp_all add: map_of_eq_None_iff)
    then show ?thesis by simp
  qed
  then have dd: "d = d'" by (intro btree_eqI k(1) k'(1)) auto
  have cs: "context_state t contract = context_state t' contract"
    by (simp add: context_state_def state fields(1))
  have "at_suffix (ah_template ?h) = at_suffix (ah_template ?h') \<and> at_prefix (ah_template ?h) = at_prefix (ah_template ?h')"
    using d(1) d'(1) unfolding handle_context_def cs dd by auto
  with d(3) d'(3) state fields(1) show ?thesis
    by (cases ?h; cases ?h'; cases "ah_template ?h"; cases "ah_template ?h'") simp
qed

section \<open>An artifact with a handle\<close>

definition handle_hash :: "byte list" where
  "handle_hash = replicate 31 0 @ [5]"

definition handle_contract :: "nat sil_contract" where
  "handle_contract =
     \<lparr>sc_runtime_state = \<lparr>rs_source = ''S'', rs_fields = [\<lparr>rf_name = ''tmpl'', rf_ty = 32\<rparr>, \<lparr>rf_name = ''n'', rf_ty = 8\<rparr>]\<rparr>,
      sc_compiled = \<lparr>cc_bytecode = [7, 0, 0, 9], cc_template_hash = handle_hash,
        cc_state_span = \<lparr>span_offset = 1, span_len = 2\<rparr>\<rparr>\<rparr>"

definition handle_receipt :: template_receipt where
  "handle_receipt =
     \<lparr>tr_id = ''tpl'', tr_actor = ''A'', tr_contract = ''A'', tr_symbol = ''a'', tr_sil_template_hash = handle_hash,
      tr_actor_type_handle = \<lparr>ah_state = ''S'', ah_context_fields = [''tmpl''],
        ah_template = \<lparr>at_prefix = 7 # handle_hash, at_suffix = [9],
          at_hash = sl_template_hash demo_sil_lib (7 # handle_hash) [9]\<rparr>\<rparr>\<rparr>"

definition handle_plan :: template_plan where
  "handle_plan = empty_plan
     \<lparr>tp_templates := [handle_receipt],
      tp_runtime_states := [\<lparr>rsp_contract = ''A'', rsp_source = ''S'',
        rsp_field_roles = [\<lparr>fr_name = ''tmpl'', fr_role = TemplateRole ''A''\<rparr>]\<rparr>]\<rparr>"

definition handle_artifact :: "nat artifact" where
  "handle_artifact = plain_artifact [plain_actor ''A'' ''S'' []] [(''A'', handle_contract)] handle_plan
     \<lparr>art_argent := (art_argent (plain_artifact [plain_actor ''A'' ''S'' []] [(''A'', handle_contract)] handle_plan))
        \<lparr>ap_templates := [\<lparr>tf_id = ''tpl'', tf_actor = ''A'', tf_symbol = ''a''\<rparr>],
         ap_states := [\<lparr>as_name = ''S'', as_fields =
           [\<lparr>af_name = ''n'', af_ty = 8, af_source_type = None, af_virtual_slot = False\<rparr>]\<rparr>]\<rparr>\<rparr>"

lemma handle_verified:
  "verify_actor_type_handle demo_sil_lib handle_plan handle_artifact handle_receipt ''A'' handle_contract = Ok ()"
  by code_simp

lemma handle_verified_again:
  "verify_actor_type_handle demo_sil_lib handle_plan handle_artifact (handle_receipt\<lparr>tr_id := ''other''\<rparr>)
     ''A'' handle_contract = Ok ()"
  by code_simp

lemma actor_handle_commits_plan_witness:
  "\<exists>decoded. handle_context demo_sil_lib handle_artifact handle_receipt handle_contract decoded
     \<and> map_of decoded ''tmpl'' = Some handle_hash"
proof -
  have "find_runtime_plan handle_plan ''A'' = Some \<lparr>rsp_contract = ''A'', rsp_source = ''S'',
        rsp_field_roles = [\<lparr>fr_name = ''tmpl'', fr_role = TemplateRole ''A''\<rparr>]\<rparr>" (is "_ = Some ?rs")
    by (simp add: find_runtime_plan_def handle_plan_def)
  from actor_handle_commits_plan [OF handle_verified this] obtain decoded v where
    "handle_context demo_sil_lib handle_artifact handle_receipt handle_contract decoded"
    "fixed_runtime_context_value demo_sil_lib handle_plan ?rs \<lparr>fr_name = ''tmpl'', fr_role = TemplateRole ''A''\<rparr> = Ok v"
    "map_of decoded ''tmpl'' = Some (sl_bytes_value demo_sil_lib v)" by auto
  moreover have "fixed_runtime_context_value demo_sil_lib handle_plan ?rs
      \<lparr>fr_name = ''tmpl'', fr_role = TemplateRole ''A''\<rparr> = Ok handle_hash" by code_simp
  ultimately show ?thesis by (auto simp: demo_sil_lib_def)
qed

lemma actor_handle_unique_witness:
  "tr_actor_type_handle handle_receipt = tr_actor_type_handle (handle_receipt\<lparr>tr_id := ''other''\<rparr>)"
  by (rule actor_handle_unique [OF demo_decode_keys_ok handle_verified handle_verified_again]) simp

end
