(* ===== verification/Spawn_Check.thy ===== *)
theory Spawn_Check
  imports Artifact_Examples "HOL-Library.Multiset"
begin

text \<open>
  The verification of the spawn declarations of an entry,
  \<^verbatim>\<open>crates/argent-artifact/src/verify_spawns.rs\<close>: the index of the spawned outputs, the
  witnesses of output indices and of actor templates, and the subjects of hidden parameters.
\<close>

section \<open>The index of spawned outputs\<close>

record spawn_index =
  si_outputs :: "(string \<times> string, spawn_output) btree"
  si_template_subjects :: "(string, string \<times> string \<times> string) btree"

definition invalid_spawn_metadata :: "string \<Rightarrow> spawn_problem \<Rightarrow> (template_plan_error, 'a) outcome" where
  "invalid_spawn_metadata entry_id message = Err (InvalidSpawnMetadata entry_id message)"

text \<open>The actor a template is looked up for; a dynamic canonical target has none.\<close>

definition template_actor :: "spawn_output \<Rightarrow> string option" where
  "template_actor out =
     (case so_target out of
        Some (StaticActor app actor) \<Rightarrow> Some (app @ ''::'' @ actor)
      | Some (DynamicActor _) \<Rightarrow> None
      | None \<Rightarrow> Some (so_actor out))"

text \<open>The two insertions: outputs are replaced, a template subject keeps its first output.\<close>

definition add_output :: "string \<Rightarrow> spawn_output \<Rightarrow> spawn_index \<Rightarrow> spawn_index" where
  "add_output spawn out index =
     \<lparr>si_outputs = bm_insert (spawn, so_name out) out (si_outputs index),
      si_template_subjects =
        (case template_actor out of
           None \<Rightarrow> si_template_subjects index
         | Some actor \<Rightarrow>
             if map_of (si_template_subjects index) actor = None
             then bm_insert actor (so_actor out, spawn, so_name out) (si_template_subjects index)
             else si_template_subjects index)\<rparr>"

definition index_output ::
  "string \<Rightarrow> string \<Rightarrow> spawn_index \<Rightarrow> nat \<times> spawn_output \<Rightarrow> (template_plan_error, spawn_index) outcome" where
  "index_output entry_id spawn index x =
     (case x of (expected, out) \<Rightarrow>
        if so_group_index out \<noteq> expected
        then invalid_spawn_metadata entry_id (WrongGroupIndex spawn (so_name out) (so_group_index out) expected)
        else if map_of (si_outputs index) (spawn, so_name out) \<noteq> None
        then invalid_spawn_metadata entry_id (RepeatedSpawnOutput spawn (so_name out))
        else if template_actor out = None
        then invalid_spawn_metadata entry_id (DynamicCanonicalTarget spawn (so_name out))
        else Ok (add_output spawn out index))"

definition index_spawn ::
  "string \<Rightarrow> string set \<times> string set \<times> spawn_index \<Rightarrow> spawn_decl
     \<Rightarrow> (template_plan_error, string set \<times> string set \<times> spawn_index) outcome" where
  "index_spawn entry_id state spawn =
     (case state of (names, covenants, index) \<Rightarrow>
        if sp_name spawn \<in> names
        then invalid_spawn_metadata entry_id (DuplicateSpawn (sp_name spawn))
        else if sp_covenant spawn \<in> covenants
        then invalid_spawn_metadata entry_id (DuplicateCovenantBinding (sp_covenant spawn))
        else if sp_outputs spawn = []
        then invalid_spawn_metadata entry_id (NoSpawnOutputs (sp_name spawn))
        else and_then (try_fold (index_output entry_id (sp_name spawn)) index (List.enumerate 0 (sp_outputs spawn)))
          (\<lambda>index. Ok (insert (sp_name spawn) names, insert (sp_covenant spawn) covenants, index)))"

definition index_spawn_outputs :: "string \<Rightarrow> 'ty entry_decl \<Rightarrow> (template_plan_error, spawn_index) outcome" where
  "index_spawn_outputs entry_id entry =
     and_then (try_fold (index_spawn entry_id)
         ({}, {}, \<lparr>si_outputs = [], si_template_subjects = []\<rparr>) (en_spawns entry))
       (\<lambda>(names, covenants, index). Ok index)"

section \<open>Output-index parameters\<close>

definition index_params :: "'ty entry_decl \<Rightarrow> string \<Rightarrow> string \<Rightarrow> string \<Rightarrow> 'ty hidden_param list" where
  "index_params entry spawn handle actor =
     filter (\<lambda>p. hp_subject p = SubjectSpawnActor spawn handle actor \<and> hp_purpose p = SpawnOutputIndex)
       (en_hidden_params entry)"

definition verify_spawn_output_index_params ::
  "string \<Rightarrow> 'ty entry_decl \<Rightarrow> spawn_index \<Rightarrow> (template_plan_error, unit) outcome" where
  "verify_spawn_output_index_params entry_id entry index =
     try_each (\<lambda>((spawn, handle), out).
         let count = length (index_params entry spawn handle (so_actor out)) in
         if count \<noteq> 1 then invalid_spawn_metadata entry_id (OutputIndexParams spawn handle count) else Ok ())
       (si_outputs index)"

section \<open>Template witnesses\<close>

definition source_scoped :: "string \<Rightarrow> 'ty hidden_param \<Rightarrow> bool" where
  "source_scoped actor_expr p =
     (case hp_subject p of
        SubjectObservedActor _ _ _ actor \<Rightarrow> actor = actor_expr
      | SubjectSpawnActor _ _ actor \<Rightarrow> actor = actor_expr
      | _ \<Rightarrow> False)"

definition source_template_params :: "'ty entry_decl \<Rightarrow> string \<Rightarrow> 'ty hidden_param list" where
  "source_template_params entry actor_expr =
     filter (\<lambda>p. source_scoped actor_expr p \<and> hp_purpose p \<in> {TemplatePrefixBytes, TemplateSuffixBytes})
       (en_hidden_params entry)"

definition actor_params :: "'ty entry_decl \<Rightarrow> string \<Rightarrow> 'ty hidden_param list" where
  "actor_params entry actor_subject =
     filter (\<lambda>p. hp_subject p = SubjectActor actor_subject
         \<and> hp_purpose p \<in> {TemplatePrefixBytes, TemplateSuffixBytes, TemplatePrefixLen, TemplateSuffixLen})
       (en_hidden_params entry)"

definition count_purpose :: "'ty hidden_param list \<Rightarrow> hidden_param_purpose \<Rightarrow> nat" where
  "count_purpose params purpose = length (filter (\<lambda>p. hp_purpose p = purpose) params)"

definition valid_observed_template_provider ::
  "'ty entry_decl \<Rightarrow> hidden_param_subject \<Rightarrow> string \<Rightarrow> bool" where
  "valid_observed_template_provider entry subject actor_expr =
     (case subject of
        SubjectObservedActor observe SideOutput handle actor \<Rightarrow>
          actor = actor_expr
          \<and> (case find (\<lambda>c. ob_name c = observe) (en_observes entry) of
               None \<Rightarrow> False
             | Some ob \<Rightarrow>
                 (case find (\<lambda>out. oa_name out = handle) (ob_outputs ob) of
                    None \<Rightarrow> False
                  | Some out \<Rightarrow> (case oa_target out of DynamicActor _ \<Rightarrow> True | StaticActor _ _ \<Rightarrow> False)))
      | _ \<Rightarrow> False)"

definition check_template_purpose ::
  "string \<Rightarrow> 'ty entry_decl \<Rightarrow> string \<times> string \<times> string \<Rightarrow> hidden_param_purpose
     \<Rightarrow> (template_plan_error, unit) outcome" where
  "check_template_purpose entry_id entry x purpose =
     (case x of (actor_expr, spawn, handle) \<Rightarrow>
        let params = filter (\<lambda>p. source_scoped actor_expr p \<and> hp_purpose p = purpose) (en_hidden_params entry) in
        case params of
          [param] \<Rightarrow>
            if hp_subject param \<noteq> SubjectSpawnActor spawn handle actor_expr
               \<and> \<not> valid_observed_template_provider entry (hp_subject param) actor_expr
            then invalid_spawn_metadata entry_id (TemplateWitnessSubject actor_expr purpose spawn handle)
            else Ok ()
        | _ \<Rightarrow> invalid_spawn_metadata entry_id (TemplateWitnessCount actor_expr (length params) purpose))"

definition check_template_subject ::
  "string \<Rightarrow> 'ty entry_decl \<Rightarrow> string \<times> string \<times> string \<times> string \<Rightarrow> (template_plan_error, unit) outcome" where
  "check_template_subject entry_id entry x =
     (case x of (actor_subject, actor_expr, spawn, handle) \<Rightarrow>
        let source = source_template_params entry actor_expr; shared = actor_params entry actor_subject in
        if shared \<noteq> [] then
          if source \<noteq> [] then invalid_spawn_metadata entry_id (MixedTemplateWitnesses actor_subject)
          else
            let bytes = (count_purpose shared TemplatePrefixBytes, count_purpose shared TemplateSuffixBytes);
                lengths = (count_purpose shared TemplatePrefixLen, count_purpose shared TemplateSuffixLen) in
            if (bytes, lengths) \<noteq> ((1, 1), (0, 0)) \<and> (bytes, lengths) \<noteq> ((0, 0), (1, 1))
            then invalid_spawn_metadata entry_id (InvalidActorWitnessPair actor_subject)
            else Ok ()
        else if actor_subject = ea_contract (en_abi entry) then
          if source \<noteq> [] then invalid_spawn_metadata entry_id (SelfSpawnWitnesses actor_subject) else Ok ()
        else
          let prefix_subject = map_option hp_subject (find (\<lambda>p. hp_purpose p = TemplatePrefixBytes) source);
              suffix_subject = map_option hp_subject (find (\<lambda>p. hp_purpose p = TemplateSuffixBytes) source) in
          if prefix_subject \<noteq> None \<and> suffix_subject \<noteq> None \<and> prefix_subject \<noteq> suffix_subject
          then invalid_spawn_metadata entry_id (DifferentProviders actor_expr)
          else try_each (check_template_purpose entry_id entry (actor_expr, spawn, handle))
            [TemplatePrefixBytes, TemplateSuffixBytes])"

definition verify_spawn_template_params ::
  "string \<Rightarrow> 'ty entry_decl \<Rightarrow> spawn_index \<Rightarrow> (template_plan_error, unit) outcome" where
  "verify_spawn_template_params entry_id entry index =
     try_each (check_template_subject entry_id entry) (si_template_subjects index)"

section \<open>Subjects of hidden parameters\<close>

definition check_param_subject ::
  "string \<Rightarrow> spawn_index \<Rightarrow> 'ty hidden_param \<Rightarrow> (template_plan_error, unit) outcome" where
  "check_param_subject entry_id index param =
     (case hp_subject param of
        SubjectSpawnActor spawn handle actor \<Rightarrow>
          (case map_of (si_outputs index) (spawn, handle) of
             None \<Rightarrow> invalid_spawn_metadata entry_id (UnknownSpawnOutput (hp_name param) spawn handle)
           | Some out \<Rightarrow>
               if actor \<noteq> so_actor out
                  \<or> hp_purpose param \<notin> {SpawnOutputIndex, TemplatePrefixBytes, TemplateSuffixBytes}
               then invalid_spawn_metadata entry_id (SpawnParamMismatch (hp_name param) spawn handle)
               else Ok ())
      | _ \<Rightarrow>
          if hp_purpose param = SpawnOutputIndex
          then invalid_spawn_metadata entry_id (NonSpawnOutputIndex (hp_name param)) else Ok ())"

definition verify_spawn_param_subjects ::
  "string \<Rightarrow> 'ty entry_decl \<Rightarrow> spawn_index \<Rightarrow> (template_plan_error, unit) outcome" where
  "verify_spawn_param_subjects entry_id entry index =
     try_each (check_param_subject entry_id index) (en_hidden_params entry)"

definition verify_entry_spawns :: "string \<Rightarrow> 'ty entry_decl \<Rightarrow> (template_plan_error, unit) outcome" where
  "verify_entry_spawns entry_id entry =
     and_then (index_spawn_outputs entry_id entry) (\<lambda>index.
     and_then (verify_spawn_output_index_params entry_id entry index) (\<lambda>_.
     and_then (verify_spawn_template_params entry_id entry index) (\<lambda>_.
       verify_spawn_param_subjects entry_id entry index)))"

section \<open>What the index holds\<close>

definition spawned :: "'ty entry_decl \<Rightarrow> (string \<times> spawn_output) list" where
  "spawned entry = concat (map (\<lambda>sp. map (Pair (sp_name sp)) (sp_outputs sp)) (en_spawns entry))"

definition output_key :: "string \<times> spawn_output \<Rightarrow> string \<times> string" where
  "output_key x = (fst x, so_name (snd x))"

definition group_ok :: "spawn_decl \<Rightarrow> bool" where
  "group_ok sp \<longleftrightarrow> sp_outputs sp \<noteq> []
     \<and> map so_group_index (sp_outputs sp) = [0..<length (sp_outputs sp)]
     \<and> distinct (map so_name (sp_outputs sp))
     \<and> (\<forall>out \<in> set (sp_outputs sp). template_actor out \<noteq> None)"

definition groups_ok :: "'ty entry_decl \<Rightarrow> bool" where
  "groups_ok entry \<longleftrightarrow> distinct (map sp_name (en_spawns entry)) \<and> distinct (map sp_covenant (en_spawns entry))
     \<and> (\<forall>sp \<in> set (en_spawns entry). group_ok sp)"

abbreviation add_outputs :: "(string \<times> spawn_output) list \<Rightarrow> spawn_index \<Rightarrow> spawn_index" where
  "add_outputs \<equiv> fold (\<lambda>(spawn, out). add_output spawn out)"

definition spawn_index_of :: "'ty entry_decl \<Rightarrow> spawn_index" where
  "spawn_index_of entry = add_outputs (spawned entry) \<lparr>si_outputs = [], si_template_subjects = []\<rparr>"

lemma add_output_outputs [simp]:
  "si_outputs (add_output spawn out index) = bm_insert (spawn, so_name out) out (si_outputs index)"
  by (simp add: add_output_def)

lemma index_outputs_Ok_iff:
  "try_fold (index_output entry_id spawn) index (List.enumerate n outs) = Ok index' \<longleftrightarrow>
     map so_group_index outs = [n..<n + length outs] \<and> distinct (map so_name outs)
     \<and> (\<forall>out \<in> set outs. map_of (si_outputs index) (spawn, so_name out) = None \<and> template_actor out \<noteq> None)
     \<and> index' = add_outputs (map (Pair spawn) outs) index"
proof (induction outs arbitrary: n index)
  case (Cons out outs)
  have "[n..<n + length (out # outs)] = n # [Suc n..<Suc n + length outs]"
    by (subst upt_conv_Cons) simp_all
  moreover have "(\<forall>x \<in> set outs. map_of (si_outputs (add_output spawn out index)) (spawn, so_name x) = None)
      \<longleftrightarrow> so_name out \<notin> so_name ` set outs \<and> (\<forall>x \<in> set outs. map_of (si_outputs index) (spawn, so_name x) = None)"
    by (fastforce split: if_splits simp: image_iff)
  ultimately show ?case
    using Cons [of "add_output spawn out index" "Suc n"]
    by (auto simp: index_output_def invalid_spawn_metadata_def outcome_simps)
qed auto

lemma index_spawn_Ok_iff:
  assumes "\<And>h. sp_name sp \<notin> names \<Longrightarrow> map_of (si_outputs index) (sp_name sp, h) = None"
  shows "index_spawn entry_id (names, covenants, index) sp = Ok state \<longleftrightarrow>
    sp_name sp \<notin> names \<and> sp_covenant sp \<notin> covenants \<and> group_ok sp
    \<and> state = (insert (sp_name sp) names, insert (sp_covenant sp) covenants,
        add_outputs (map (Pair (sp_name sp)) (sp_outputs sp)) index)"
  using assms by (auto simp: index_spawn_def invalid_spawn_metadata_def outcome_simps index_outputs_Ok_iff group_ok_def)

lemma add_outputs_outputs:
  "si_outputs (add_outputs xs index)
     = fold (\<lambda>(k, v). bm_insert k v) (map (\<lambda>x. (output_key x, snd x)) xs) (si_outputs index)"
  by (induction xs arbitrary: index) (auto simp: output_key_def)

lemma add_outputs_keys:
  "map_of (si_outputs (add_outputs xs index)) (s, h) \<noteq> None \<Longrightarrow>
     s \<in> fst ` set xs \<or> map_of (si_outputs index) (s, h) \<noteq> None"
  by (induction xs arbitrary: index) (fastforce split: if_splits)+

lemma index_spawns_Ok_iff:
  assumes "\<And>s h. map_of (si_outputs index) (s, h) \<noteq> None \<Longrightarrow> s \<in> names"
  shows "try_fold (index_spawn entry_id) (names, covenants, index) sps = Ok state \<longleftrightarrow>
    distinct (map sp_name sps) \<and> distinct (map sp_covenant sps) \<and> (\<forall>sp \<in> set sps. group_ok sp)
    \<and> sp_name ` set sps \<inter> names = {} \<and> sp_covenant ` set sps \<inter> covenants = {}
    \<and> state = (names \<union> sp_name ` set sps, covenants \<union> sp_covenant ` set sps,
        add_outputs (concat (map (\<lambda>sp. map (Pair (sp_name sp)) (sp_outputs sp)) sps)) index)"
  using assms
proof (induction sps arbitrary: names covenants index)
  case (Cons sp sps)
  let ?index = "add_outputs (map (Pair (sp_name sp)) (sp_outputs sp)) index"
  have first: "index_spawn entry_id (names, covenants, index) sp = Ok state \<longleftrightarrow>
      sp_name sp \<notin> names \<and> sp_covenant sp \<notin> covenants \<and> group_ok sp
      \<and> state = (insert (sp_name sp) names, insert (sp_covenant sp) covenants, ?index)" for state
    by (rule index_spawn_Ok_iff) (use Cons.prems in blast)
  have keys: "s \<in> insert (sp_name sp) names" if "map_of (si_outputs ?index) (s, h) \<noteq> None" for s h
    using add_outputs_keys [OF that] Cons.prems by auto
  show ?case
    unfolding try_fold.simps and_then_Ok_iff first
    using Cons.IH [of ?index "insert (sp_name sp) names" "insert (sp_covenant sp) covenants", OF keys] by auto
qed auto

lemma index_spawn_outputs_Ok_iff:
  "index_spawn_outputs entry_id entry = Ok index \<longleftrightarrow> groups_ok entry \<and> index = spawn_index_of entry"
proof -
  let ?start = "\<lparr>si_outputs = [], si_template_subjects = []\<rparr>"
  have "try_fold (index_spawn entry_id) ({}, {}, ?start) (en_spawns entry) = Ok (n, c, i) \<longleftrightarrow>
      groups_ok entry \<and> n = sp_name ` set (en_spawns entry) \<and> c = sp_covenant ` set (en_spawns entry)
      \<and> i = spawn_index_of entry" for n c i
    by (subst index_spawns_Ok_iff) (auto simp: groups_ok_def spawn_index_of_def spawned_def)
  then show ?thesis by (auto simp: index_spawn_outputs_def and_then_Ok_iff)
qed

lemma spawned_keys_distinct:
  assumes "groups_ok entry" shows "distinct (map output_key (spawned entry))"
proof -
  have "distinct (map output_key (concat (map (\<lambda>sp. map (Pair (sp_name sp)) (sp_outputs sp)) sps)))"
    if "distinct (map sp_name sps)" "\<forall>sp \<in> set sps. distinct (map so_name (sp_outputs sp))" for sps
    using that
  proof (induction sps)
    case (Cons sp sps)
    have "distinct (map output_key (map (Pair (sp_name sp)) (sp_outputs sp)))"
      using Cons.prems(2) by (simp add: output_key_def comp_def distinct_map inj_on_def)
    with Cons show ?case by (auto simp: output_key_def comp_def)
  qed simp
  moreover have "distinct (map sp_name (en_spawns entry))"
    "\<forall>sp \<in> set (en_spawns entry). distinct (map so_name (sp_outputs sp))"
    using assms unfolding groups_ok_def group_ok_def by blast+
  ultimately show ?thesis unfolding spawned_def by blast
qed

text \<open>The outputs of the index are the declared outputs, under their names.\<close>

lemma index_outputs_lookup:
  assumes "groups_ok entry"
  shows "map_of (si_outputs (spawn_index_of entry)) (s, h) = Some out \<longleftrightarrow>
      (s, out) \<in> set (spawned entry) \<and> so_name out = h" (is ?A)
    and "set (si_outputs (spawn_index_of entry)) = (\<lambda>x. (output_key x, snd x)) ` set (spawned entry)" (is ?B)
proof -
  let ?kvs = "map (\<lambda>x. (output_key x, snd x)) (spawned entry)"
  have d: "distinct (map fst ?kvs)" using spawned_keys_distinct [OF assms] by (simp add: comp_def)
  have i: "si_outputs (spawn_index_of entry) = fold (\<lambda>(k, v). bm_insert k v) ?kvs []"
    by (simp add: spawn_index_of_def add_outputs_outputs)
  have eq: "map_of (si_outputs (spawn_index_of entry)) k = map_of ?kvs k" for k
    unfolding i by (rule bm.get_filled_distinct [OF d])
  have "map_of ?kvs (s, h) = Some out \<longleftrightarrow> ((s, h), out) \<in> set ?kvs"
    by (rule map_of_eq_Some_iff [OF d])
  then show ?A by (force simp: eq output_key_def)
  have "distinct (map fst (si_outputs (spawn_index_of entry)))"
    unfolding i by (rule sorted_keys_distinct [OF bm.filled_sorted])
  then have "(k, v) \<in> set (si_outputs (spawn_index_of entry)) \<longleftrightarrow> (k, v) \<in> set ?kvs" for k v
    using eq [of k] map_of_eq_Some_iff [OF d, of k v] map_of_eq_Some_iff [of "si_outputs (spawn_index_of entry)" k v]
    by simp
  then have "set (si_outputs (spawn_index_of entry)) = set ?kvs" by (simp add: set_eq_iff split_paired_all)
  then show ?B by simp
qed

text \<open>The template subject of an actor is its first declared output.\<close>

definition first_output :: "'ty entry_decl \<Rightarrow> string \<Rightarrow> (string \<times> string \<times> string) option" where
  "first_output entry actor =
     map_option (\<lambda>(s, out). (so_actor out, s, so_name out))
       (find (\<lambda>(s, out). template_actor out = Some actor) (spawned entry))"

lemma add_output_subjects:
  "map_of (si_template_subjects (add_output s out index)) actor =
     (case map_of (si_template_subjects index) actor of
        Some v \<Rightarrow> Some v
      | None \<Rightarrow> if template_actor out = Some actor then Some (so_actor out, s, so_name out) else None)"
  by (cases "template_actor out") (auto simp: add_output_def split: option.splits)

lemma add_outputs_subjects:
  "map_of (si_template_subjects (add_outputs xs index)) actor =
     (case map_of (si_template_subjects index) actor of
        Some v \<Rightarrow> Some v
      | None \<Rightarrow> map_option (\<lambda>(s, out). (so_actor out, s, so_name out))
          (find (\<lambda>(s, out). template_actor out = Some actor) xs))"
proof (induction xs arbitrary: index)
  case (Cons x xs)
  obtain s out where x: "x = (s, out)" by (cases x)
  show ?case by (simp add: x Cons.IH add_output_subjects split: option.splits)
qed (auto split: option.splits)

lemma add_outputs_subjects_sorted:
  "sorted_wrt (<) (bm_keys (si_template_subjects index)) \<Longrightarrow>
     sorted_wrt (<) (bm_keys (si_template_subjects (add_outputs xs index)))"
proof (induction xs arbitrary: index)
  case (Cons x xs)
  obtain s out where x: "x = (s, out)" by (cases x)
  have "sorted_wrt (<) (bm_keys (si_template_subjects (add_output s out index)))"
    using Cons.prems bm_insert_sorted by (auto simp: add_output_def split: option.splits)
  from Cons.IH [OF this] show ?case by (simp add: x)
qed simp

lemma index_subjects_set:
  "(actor, v) \<in> set (si_template_subjects (spawn_index_of entry)) \<longleftrightarrow> first_output entry actor = Some v"
proof -
  have "distinct (bm_keys (si_template_subjects (spawn_index_of entry)))"
    unfolding spawn_index_of_def
    by (intro sorted_keys_distinct add_outputs_subjects_sorted) simp
  then show ?thesis
    by (subst map_of_eq_Some_iff [symmetric]) (auto simp: spawn_index_of_def add_outputs_subjects first_output_def)
qed

section \<open>What the checks decide\<close>

definition indices_ok :: "'ty entry_decl \<Rightarrow> bool" where
  "indices_ok entry \<longleftrightarrow>
     (\<forall>(s, out) \<in> set (spawned entry). length (index_params entry s (so_name out) (so_actor out)) = 1)"

definition shared_pair_ok :: "'ty hidden_param list \<Rightarrow> bool" where
  "shared_pair_ok shared \<longleftrightarrow>
     (\<exists>n m. (n, m) \<in> {(1, 0), (0, 1)} \<and> count_purpose shared TemplatePrefixBytes = n
       \<and> count_purpose shared TemplateSuffixBytes = n \<and> count_purpose shared TemplatePrefixLen = m
       \<and> count_purpose shared TemplateSuffixLen = m)"

text \<open>One prefix and one suffix witness from one provider: an observed output or the first spawn.\<close>

definition source_pair_ok :: "'ty entry_decl \<Rightarrow> string \<Rightarrow> string \<Rightarrow> string \<Rightarrow> bool" where
  "source_pair_ok entry actor_expr s h \<longleftrightarrow>
     (\<exists>p q. filter (\<lambda>p. source_scoped actor_expr p \<and> hp_purpose p = TemplatePrefixBytes) (en_hidden_params entry) = [p]
       \<and> filter (\<lambda>p. source_scoped actor_expr p \<and> hp_purpose p = TemplateSuffixBytes) (en_hidden_params entry) = [q]
       \<and> hp_subject p = hp_subject q
       \<and> (hp_subject p = SubjectSpawnActor s h actor_expr
          \<or> valid_observed_template_provider entry (hp_subject p) actor_expr))"

definition template_witnesses_ok :: "'ty entry_decl \<Rightarrow> string \<Rightarrow> string \<times> string \<times> string \<Rightarrow> bool" where
  "template_witnesses_ok entry actor x \<longleftrightarrow>
     (case x of (actor_expr, s, h) \<Rightarrow>
        if actor_params entry actor \<noteq> []
        then source_template_params entry actor_expr = [] \<and> shared_pair_ok (actor_params entry actor)
        else if actor = ea_contract (en_abi entry) then source_template_params entry actor_expr = []
        else source_pair_ok entry actor_expr s h)"

definition declares :: "'ty entry_decl \<Rightarrow> string \<Rightarrow> string \<Rightarrow> string \<Rightarrow> bool" where
  "declares entry s h actor \<longleftrightarrow>
     (\<exists>x \<in> set (spawned entry). fst x = s \<and> so_name (snd x) = h \<and> so_actor (snd x) = actor)"

lemma declares_iff:
  "declares entry s h actor \<longleftrightarrow> (\<exists>out. (s, out) \<in> set (spawned entry) \<and> so_name out = h \<and> so_actor out = actor)"
  unfolding declares_def by force

definition param_subject_ok :: "'ty entry_decl \<Rightarrow> 'ty hidden_param \<Rightarrow> bool" where
  "param_subject_ok entry p \<longleftrightarrow>
     (case hp_subject p of
        SubjectSpawnActor s h actor \<Rightarrow>
          declares entry s h actor \<and> hp_purpose p \<in> {SpawnOutputIndex, TemplatePrefixBytes, TemplateSuffixBytes}
      | _ \<Rightarrow> hp_purpose p \<noteq> SpawnOutputIndex)"

lemma invalid_not_Ok [simp]:
  "invalid_spawn_metadata e m \<noteq> Ok u" "invalid_spawn_metadata e m \<noteq> Panic"
  "Ok u \<noteq> invalid_spawn_metadata e m"
  by (simp_all add: invalid_spawn_metadata_def)

lemma index_params_check:
  assumes "groups_ok entry"
  shows "verify_spawn_output_index_params entry_id entry (spawn_index_of entry) = Ok () \<longleftrightarrow> indices_ok entry"
  by (auto simp: verify_spawn_output_index_params_def indices_ok_def outcome_simps Let_def
      index_outputs_lookup(2) [OF assms] output_key_def split: if_splits)

lemma filter_find_prefix:
  "find (\<lambda>p. P p) (filter Q xs) = (case filter (\<lambda>p. Q p \<and> P p) xs of [] \<Rightarrow> None | p # _ \<Rightarrow> Some p)"
  by (induction xs) auto

lemma source_purpose_filter:
  "purpose \<in> {TemplatePrefixBytes, TemplateSuffixBytes} \<Longrightarrow>
     find (\<lambda>p. hp_purpose p = purpose) (source_template_params entry actor_expr) =
       (case filter (\<lambda>p. source_scoped actor_expr p \<and> hp_purpose p = purpose) (en_hidden_params entry) of
          [] \<Rightarrow> None | p # _ \<Rightarrow> Some p)"
  unfolding source_template_params_def filter_find_prefix
  by (rule arg_cong [where f = "case_list None (\<lambda>p _. Some p)"], rule filter_cong) auto

lemma check_purpose_Ok_iff:
  "check_template_purpose entry_id entry (actor_expr, s, h) purpose = Ok () \<longleftrightarrow>
     (\<exists>p. filter (\<lambda>p. source_scoped actor_expr p \<and> hp_purpose p = purpose) (en_hidden_params entry) = [p]
       \<and> (hp_subject p = SubjectSpawnActor s h actor_expr
          \<or> valid_observed_template_provider entry (hp_subject p) actor_expr))"
  by (auto simp: check_template_purpose_def Let_def split: list.splits if_splits)

lemma check_template_subject_Ok_iff:
  "check_template_subject entry_id entry (actor, x) = Ok () \<longleftrightarrow> template_witnesses_ok entry actor x"
proof -
  obtain actor_expr s h where x: "x = (actor_expr, s, h)" by (cases x)
  let ?pre = "filter (\<lambda>p. source_scoped actor_expr p \<and> hp_purpose p = TemplatePrefixBytes) (en_hidden_params entry)"
  let ?suf = "filter (\<lambda>p. source_scoped actor_expr p \<and> hp_purpose p = TemplateSuffixBytes) (en_hidden_params entry)"
  have last: "(\<not> (map_option hp_subject (case ?pre of [] \<Rightarrow> None | p # _ \<Rightarrow> Some p) \<noteq> None
        \<and> map_option hp_subject (case ?suf of [] \<Rightarrow> None | p # _ \<Rightarrow> Some p) \<noteq> None
        \<and> map_option hp_subject (case ?pre of [] \<Rightarrow> None | p # _ \<Rightarrow> Some p)
            \<noteq> map_option hp_subject (case ?suf of [] \<Rightarrow> None | p # _ \<Rightarrow> Some p))
      \<and> try_each (check_template_purpose entry_id entry (actor_expr, s, h))
          [TemplatePrefixBytes, TemplateSuffixBytes] = Ok ())
      \<longleftrightarrow> source_pair_ok entry actor_expr s h"
    by (auto simp: source_pair_ok_def outcome_simps check_purpose_Ok_iff)
  consider (shared) "actor_params entry actor \<noteq> []"
    | (self) "actor_params entry actor = []" "actor = ea_contract (en_abi entry)"
    | (source) "actor_params entry actor = []" "actor \<noteq> ea_contract (en_abi entry)" by blast
  then show ?thesis
  proof cases
    case shared
    then show ?thesis
      by (auto simp: check_template_subject_def template_witnesses_ok_def x Let_def shared_pair_ok_def)
  next
    case self
    then show ?thesis by (simp add: check_template_subject_def template_witnesses_ok_def x Let_def)
  next
    case source
    have "check_template_subject entry_id entry (actor, x) = Ok () \<longleftrightarrow> source_pair_ok entry actor_expr s h"
      unfolding last [symmetric] check_template_subject_def x prod.case Let_def
      using source by (simp add: source_purpose_filter)
    with source show ?thesis by (simp add: template_witnesses_ok_def x)
  qed
qed

lemma template_params_check:
  "verify_spawn_template_params entry_id entry (spawn_index_of entry) = Ok () \<longleftrightarrow>
     (\<forall>actor x. first_output entry actor = Some x \<longrightarrow> template_witnesses_ok entry actor x)"
proof -
  have "verify_spawn_template_params entry_id entry (spawn_index_of entry) = Ok () \<longleftrightarrow>
      (\<forall>ax \<in> set (si_template_subjects (spawn_index_of entry)). check_template_subject entry_id entry ax = Ok ())"
    by (simp add: verify_spawn_template_params_def outcome_simps)
  also have "\<dots> \<longleftrightarrow> (\<forall>actor x. (actor, x) \<in> set (si_template_subjects (spawn_index_of entry))
      \<longrightarrow> template_witnesses_ok entry actor x)"
    using check_template_subject_Ok_iff [of entry_id entry] by fast
  finally show ?thesis by (simp add: index_subjects_set)
qed

lemma param_subjects_check:
  assumes "groups_ok entry"
  shows "verify_spawn_param_subjects entry_id entry (spawn_index_of entry) = Ok () \<longleftrightarrow>
    (\<forall>p \<in> set (en_hidden_params entry). param_subject_ok entry p)"
proof -
  have "check_param_subject entry_id (spawn_index_of entry) p = Ok () \<longleftrightarrow> param_subject_ok entry p" for p
  proof (cases "hp_subject p")
    case (SubjectSpawnActor s h actor)
    show ?thesis
    proof (cases "map_of (si_outputs (spawn_index_of entry)) (s, h)")
      case None
      then have "\<not> (\<exists>out. (s, out) \<in> set (spawned entry) \<and> so_name out = h)"
        using index_outputs_lookup(1) [OF assms, of s h] by auto
      with SubjectSpawnActor None show ?thesis by (auto simp: check_param_subject_def param_subject_ok_def declares_iff)
    next
      case (Some out)
      then have "(s, out') \<in> set (spawned entry) \<and> so_name out' = h \<longleftrightarrow> out' = out" for out'
        using index_outputs_lookup(1) [OF assms, of s h out'] by auto
      then have "(\<exists>out'. (s, out') \<in> set (spawned entry) \<and> so_name out' = h \<and> so_actor out' = actor)
          \<longleftrightarrow> so_actor out = actor" by metis
      with SubjectSpawnActor Some show ?thesis by (simp add: check_param_subject_def param_subject_ok_def declares_iff)
    qed
  qed (auto simp: check_param_subject_def param_subject_ok_def declares_iff)
  then show ?thesis by (simp add: verify_spawn_param_subjects_def outcome_simps)
qed

definition spawns_ok :: "'ty entry_decl \<Rightarrow> bool" where
  "spawns_ok entry \<longleftrightarrow> groups_ok entry \<and> indices_ok entry
     \<and> (\<forall>actor x. first_output entry actor = Some x \<longrightarrow> template_witnesses_ok entry actor x)
     \<and> (\<forall>p \<in> set (en_hidden_params entry). param_subject_ok entry p)"

lemma verify_entry_spawns_Ok_iff: "verify_entry_spawns entry_id entry = Ok () \<longleftrightarrow> spawns_ok entry"
proof (cases "groups_ok entry")
  case True
  then have "verify_entry_spawns entry_id entry = Ok () \<longleftrightarrow>
      verify_spawn_output_index_params entry_id entry (spawn_index_of entry) = Ok ()
      \<and> verify_spawn_template_params entry_id entry (spawn_index_of entry) = Ok ()
      \<and> verify_spawn_param_subjects entry_id entry (spawn_index_of entry) = Ok ()"
    by (auto simp: verify_entry_spawns_def and_then_Ok_iff index_spawn_outputs_Ok_iff)
  with True show ?thesis
    unfolding spawns_ok_def index_params_check [OF True] template_params_check param_subjects_check [OF True]
    by simp
next
  case False
  then show ?thesis by (auto simp: verify_entry_spawns_def and_then_Ok_iff index_spawn_outputs_Ok_iff spawns_ok_def)
qed

text \<open>Every failure is reported as spawn metadata of the entry; nothing panics.\<close>

definition spawn_outcome :: "string \<Rightarrow> (template_plan_error, 'a) outcome \<Rightarrow> bool" where
  "spawn_outcome entry_id r \<longleftrightarrow> r \<noteq> Panic \<and> (\<forall>e. r = Err e \<longrightarrow> (\<exists>m. e = InvalidSpawnMetadata entry_id m))"

lemma spawn_outcome_intros [intro, simp]:
  "spawn_outcome entry_id (Ok x)"
  "spawn_outcome entry_id (invalid_spawn_metadata entry_id m)"
  by (simp_all add: spawn_outcome_def invalid_spawn_metadata_def)

lemma spawn_outcome_and_then [intro]:
  "spawn_outcome entry_id r \<Longrightarrow> (\<And>x. r = Ok x \<Longrightarrow> spawn_outcome entry_id (f x)) \<Longrightarrow> spawn_outcome entry_id (and_then r f)"
  by (cases r) (auto simp: spawn_outcome_def)

lemma spawn_outcome_try_each [intro]:
  "(\<And>x. x \<in> set xs \<Longrightarrow> spawn_outcome entry_id (f x)) \<Longrightarrow> spawn_outcome entry_id (try_each f xs)"
  by (induction xs) auto

lemma spawn_outcome_try_fold [intro]:
  "(\<And>s x. spawn_outcome entry_id (f s x)) \<Longrightarrow> spawn_outcome entry_id (try_fold f s xs)"
  by (induction xs arbitrary: s) auto

lemma verify_entry_spawns_outcome: "spawn_outcome entry_id (verify_entry_spawns entry_id entry)"
proof -
  have "spawn_outcome entry_id (index_output entry_id s index x)" for s index x
    unfolding index_output_def by (auto split: prod.split)
  then have loop: "spawn_outcome entry_id (try_fold (index_output entry_id s) index xs)" for s index xs
    by (rule spawn_outcome_try_fold)
  have "spawn_outcome entry_id (index_spawn entry_id state sp)" for state sp
    unfolding index_spawn_def using loop by (auto intro!: spawn_outcome_and_then split: prod.split)
  then have "spawn_outcome entry_id (try_fold (index_spawn entry_id) state xs)" for state xs
    by (rule spawn_outcome_try_fold)
  then have 1: "spawn_outcome entry_id (index_spawn_outputs entry_id entry)"
    unfolding index_spawn_outputs_def by (auto intro!: spawn_outcome_and_then split: prod.split)
  have 2: "spawn_outcome entry_id (verify_spawn_output_index_params entry_id entry index)" for index
    unfolding verify_spawn_output_index_params_def by (auto simp: Let_def)
  have "spawn_outcome entry_id (check_template_purpose entry_id entry x purpose)" for x purpose
    unfolding check_template_purpose_def by (auto simp: Let_def split: list.split prod.split)
  then have "spawn_outcome entry_id (try_each (check_template_purpose entry_id entry x) purposes)" for x purposes
    by (rule spawn_outcome_try_each)
  then have "spawn_outcome entry_id (check_template_subject entry_id entry x)" for x
    unfolding check_template_subject_def Let_def by (auto simp del: try_each.simps split: prod.split)
  then have 3: "spawn_outcome entry_id (verify_spawn_template_params entry_id entry index)" for index
    unfolding verify_spawn_template_params_def by (rule spawn_outcome_try_each)
  have 4: "spawn_outcome entry_id (verify_spawn_param_subjects entry_id entry index)" for index
    unfolding verify_spawn_param_subjects_def check_param_subject_def
    by (auto split: hidden_param_subject.split option.split)
  show ?thesis unfolding verify_entry_spawns_def using 1 2 3 4 by (intro spawn_outcome_and_then)
qed

text \<open>
  C18: Spawn verification decides the declarative contract \<open>spawns_ok\<close>: unique spawn names and
  covenant bindings, non-empty groups indexed contiguously in declaration order with unique
  handles and no dynamic canonical target, one output-index witness per output, a template
  witness pair for the first output of every spawned actor, and no orphaned spawn parameter.
  Anything else is reported as spawn metadata of the entry, never a panic.
\<close>

theorem entry_spawns_decided:
  "if spawns_ok entry then verify_entry_spawns entry_id entry = Ok ()
   else \<exists>m. verify_entry_spawns entry_id entry = Err (InvalidSpawnMetadata entry_id m)"
  using verify_entry_spawns_outcome [of entry_id entry] verify_entry_spawns_Ok_iff [of entry_id entry]
  by (cases "verify_entry_spawns entry_id entry") (auto simp: spawn_outcome_def)

definition output_subject :: "string \<times> spawn_output \<Rightarrow> hidden_param_subject" where
  "output_subject x = SubjectSpawnActor (fst x) (so_name (snd x)) (so_actor (snd x))"

lemma count_subject:
  "count (mset (map hp_subject (filter (\<lambda>p. hp_purpose p = SpawnOutputIndex) params))) subject
     = length (filter (\<lambda>p. hp_subject p = subject \<and> hp_purpose p = SpawnOutputIndex) params)"
  by (induction params) auto

text \<open>
  C19: In a verified entry the output-index parameters correspond one to one to the spawned
  outputs: as a multiset, the subjects of the parameters of that purpose are the spawn
  outputs of the entry, each exactly once, so every output has one index and no index is
  unused.
\<close>

theorem spawn_index_witnesses_exact:
  assumes "verify_entry_spawns entry_id entry = Ok ()"
  shows "mset (map hp_subject (filter (\<lambda>p. hp_purpose p = SpawnOutputIndex) (en_hidden_params entry)))
     = mset (map output_subject (spawned entry))"
proof (rule multiset_eqI)
  fix subject
  have ok: "groups_ok entry" "indices_ok entry" "\<forall>p \<in> set (en_hidden_params entry). param_subject_ok entry p"
    using assms unfolding verify_entry_spawns_Ok_iff spawns_ok_def by blast+
  have "inj_on output_subject (set (spawned entry))"
    using spawned_keys_distinct [OF ok(1)]
    by (auto simp: inj_on_def distinct_map output_subject_def output_key_def)
  then have d: "distinct (map output_subject (spawned entry))"
    using spawned_keys_distinct [OF ok(1)] by (simp add: distinct_map)
  show "count (mset (map hp_subject (filter (\<lambda>p. hp_purpose p = SpawnOutputIndex) (en_hidden_params entry)))) subject
      = count (mset (map output_subject (spawned entry))) subject"
  proof (cases "subject \<in> output_subject ` set (spawned entry)")
    case True
    then obtain s out where out: "(s, out) \<in> set (spawned entry)" "subject = output_subject (s, out)" by auto
    then have "length (index_params entry s (so_name out) (so_actor out)) = 1"
      using ok(2) unfolding indices_ok_def by blast
    then have "length (filter (\<lambda>p. hp_subject p = subject \<and> hp_purpose p = SpawnOutputIndex)
        (en_hidden_params entry)) = 1"
      by (simp add: index_params_def out(2) output_subject_def)
    moreover have "count (mset (map output_subject (spawned entry))) subject = 1"
      using d True by (simp only: distinct_count_atmost_1 set_map if_True)
    ultimately show ?thesis by (simp only: count_subject)
  next
    case False
    have "\<not> (hp_subject p = subject \<and> hp_purpose p = SpawnOutputIndex)" if "p \<in> set (en_hidden_params entry)" for p
    proof -
      have "param_subject_ok entry p" using ok(3) that by blast
      with False show ?thesis
        by (cases "hp_subject p") (auto simp: param_subject_ok_def declares_iff output_subject_def image_iff)
    qed
    then have "filter (\<lambda>p. hp_subject p = subject \<and> hp_purpose p = SpawnOutputIndex) (en_hidden_params entry) = []"
      by (simp add: filter_empty_conv)
    moreover have "subject \<notin># mset (map output_subject (spawned entry))" using False by simp
    ultimately show ?thesis by (simp only: count_subject not_in_iff) simp
  qed
qed

definition spawning_entry :: "nat entry_decl" where
  "spawning_entry = (plain_entry ''mint'')
     \<lparr>en_spawns := [\<lparr>sp_name = ''kids'', sp_covenant = ''kid_id'', sp_outputs =
          [\<lparr>so_name = ''a'', so_actor = ''Kid'', so_state = ''S'', so_group_index = 0,
             so_cardinality = One, so_target = None\<rparr>,
           \<lparr>so_name = ''b'', so_actor = ''A'', so_state = ''S'', so_group_index = 1,
             so_cardinality = One, so_target = None\<rparr>]\<rparr>],
      en_hidden_params := map (\<lambda>(n, subject, purpose).
          \<lparr>hp_recipe_id = n, hp_name = n, hp_ty = 0, hp_subject = subject, hp_purpose = purpose,
           hp_route_proof_id = None\<rparr>)
        [(''i'', SubjectSpawnActor ''kids'' ''a'' ''Kid'', SpawnOutputIndex),
         (''j'', SubjectSpawnActor ''kids'' ''b'' ''A'', SpawnOutputIndex),
         (''p'', SubjectSpawnActor ''kids'' ''a'' ''Kid'', TemplatePrefixBytes),
         (''s'', SubjectSpawnActor ''kids'' ''a'' ''Kid'', TemplateSuffixBytes)]\<rparr>"

lemma spawning_entry_verified: "verify_entry_spawns ''A::mint'' spawning_entry = Ok ()"
proof -
  have "groups_ok spawning_entry"
    by (simp add: groups_ok_def group_ok_def spawning_entry_def plain_entry_def template_actor_def)
  moreover have "indices_ok spawning_entry"
    by (simp add: indices_ok_def spawned_def index_params_def spawning_entry_def plain_entry_def)
  moreover have first: "first_output spawning_entry actor = Some x \<longleftrightarrow>
      actor = ''Kid'' \<and> x = (''Kid'', ''kids'', ''a'') \<or> actor = ''A'' \<and> x = (''A'', ''kids'', ''b'')" for actor x
    by (auto simp: first_output_def spawned_def spawning_entry_def plain_entry_def template_actor_def)
  moreover have wit: "template_witnesses_ok spawning_entry ''Kid'' (''Kid'', ''kids'', ''a'')"
    "template_witnesses_ok spawning_entry ''A'' (''A'', ''kids'', ''b'')"
    by (simp_all add: template_witnesses_ok_def actor_params_def source_pair_ok_def source_template_params_def
        source_scoped_def spawning_entry_def plain_entry_def)
  moreover have "\<forall>p \<in> set (en_hidden_params spawning_entry). param_subject_ok spawning_entry p"
    by (simp add: param_subject_ok_def declares_def spawned_def spawning_entry_def plain_entry_def)
  moreover have "template_witnesses_ok spawning_entry actor x" if "first_output spawning_entry actor = Some x" for actor x
    using that wit unfolding first by (elim disjE conjE) simp_all
  ultimately show ?thesis unfolding verify_entry_spawns_Ok_iff spawns_ok_def by simp
qed

lemma spawn_index_witnesses_exact_witness:
  "mset (map hp_subject (filter (\<lambda>p. hp_purpose p = SpawnOutputIndex) (en_hidden_params spawning_entry)))
     = {#SubjectSpawnActor ''kids'' ''a'' ''Kid'', SubjectSpawnActor ''kids'' ''b'' ''A''#}"
  using spawn_index_witnesses_exact [OF spawning_entry_verified]
  by (simp add: spawned_def spawning_entry_def output_subject_def plain_entry_def)

end
