(* ===== verification/Artifact_Cardinality.thy ===== *)
theory Artifact_Cardinality
  imports Artifact_Examples
begin

text \<open>
  The cardinality check of an artifact, \<^verbatim>\<open>crates/argent-artifact/src/cardinality.rs\<close>: which
  interaction ranges an entry may declare. The check is proved to decide a declarative
  condition on the entry.
\<close>

definition max_entry_range_cardinality :: int where
  "max_entry_range_cardinality = 512"

datatype cardinality_error =
    InvalidRange string string string string int int
  | UnsupportedRange string string string string

section \<open>The check\<close>

definition is_range :: "cardinality \<Rightarrow> bool" where
  "is_range c = (case c of Range _ _ \<Rightarrow> True | One \<Rightarrow> False)"

definition check_range ::
  "string \<Rightarrow> string \<Rightarrow> string \<Rightarrow> string \<Rightarrow> cardinality \<Rightarrow> (cardinality_error, unit) outcome" where
  "check_range actor entry label handle c =
     (case c of
        Range minimum maximum \<Rightarrow>
          if minimum < 0 \<or> minimum > maximum \<or> maximum > max_entry_range_cardinality
          then Err (InvalidRange actor entry label handle minimum maximum) else Ok ()
      | One \<Rightarrow> Ok ())"

definition reject_unsupported_range ::
  "string \<Rightarrow> string \<Rightarrow> string \<Rightarrow> string \<Rightarrow> cardinality \<Rightarrow> (cardinality_error, unit) outcome" where
  "reject_unsupported_range actor entry label handle c =
     and_then (check_range actor entry label handle c) (\<lambda>_.
       if is_range c then Err (UnsupportedRange actor entry label handle) else Ok ())"

definition check_consume ::
  "string \<Rightarrow> string \<Rightarrow> entry_kind \<Rightarrow> bool \<Rightarrow> consume_decl \<Rightarrow> (cardinality_error, bool) outcome" where
  "check_consume actor entry kind has_consume_range consume =
     (if kind = Delegate
      then and_then
        (reject_unsupported_range actor entry ''delegate consume'' (co_name consume) (co_cardinality consume))
        (\<lambda>_. Ok has_consume_range)
      else and_then (check_range actor entry ''consume'' (co_name consume) (co_cardinality consume)) (\<lambda>_.
        if is_range (co_cardinality consume)
        then and_then
          (if has_consume_range
           then reject_unsupported_range actor entry ''consume'' (co_name consume) (co_cardinality consume)
           else Ok ())
          (\<lambda>_. Ok True)
        else Ok has_consume_range))"

definition check_emit_output ::
  "string \<Rightarrow> string \<Rightarrow> bool \<Rightarrow> emit_output \<Rightarrow> (cardinality_error, bool) outcome" where
  "check_emit_output actor entry has_emit_range out =
     and_then (check_range actor entry ''emit'' (eo_name out) (eo_cardinality out)) (\<lambda>_.
       if is_range (eo_cardinality out)
       then and_then
         (if has_emit_range \<or> length (eo_actors out) \<noteq> 1
          then reject_unsupported_range actor entry ''emit'' (eo_name out) (eo_cardinality out)
          else Ok ())
         (\<lambda>_. Ok True)
       else Ok has_emit_range)"

definition check_observe ::
  "string \<Rightarrow> string \<Rightarrow> observe_decl \<Rightarrow> (cardinality_error, unit) outcome" where
  "check_observe actor entry observe =
     and_then
       (try_each (\<lambda>i. reject_unsupported_range actor entry ''observed input''
          (ob_name observe @ ''.'' @ oa_name i) (oa_cardinality i)) (ob_inputs observe)) (\<lambda>_.
       try_each (\<lambda>out. reject_unsupported_range actor entry ''observed output''
          (ob_name observe @ ''.'' @ oa_name out) (oa_cardinality out)) (ob_outputs observe))"

definition check_spawn ::
  "string \<Rightarrow> string \<Rightarrow> spawn_decl \<Rightarrow> (cardinality_error, unit) outcome" where
  "check_spawn actor entry spawn =
     try_each (\<lambda>out. reject_unsupported_range actor entry ''spawn output''
       (sp_name spawn @ ''.'' @ so_name out) (so_cardinality out)) (sp_outputs spawn)"

definition check_entry_cardinality ::
  "string \<Rightarrow> 'ty entry_decl \<Rightarrow> (cardinality_error, unit) outcome" where
  "check_entry_cardinality actor entry =
     and_then (try_fold (check_consume actor (en_name entry) (en_kind entry)) False (en_consumes entry)) (\<lambda>_.
     and_then
       (case en_emits entry of
          EmitOutputs outputs \<Rightarrow>
            and_then (try_fold (check_emit_output actor (en_name entry)) False outputs) (\<lambda>_. Ok ())
        | EmitNone \<Rightarrow> Ok ()) (\<lambda>_.
     and_then (try_each (check_observe actor (en_name entry)) (en_observes entry)) (\<lambda>_.
       try_each (check_spawn actor (en_name entry)) (en_spawns entry))))"

definition check_cardinality_consistency :: "'ty artifact \<Rightarrow> (cardinality_error, unit) outcome" where
  "check_cardinality_consistency artifact =
     try_each (\<lambda>actor. try_each (check_entry_cardinality (ac_name actor)) (ac_entries actor))
       (ap_actors (art_argent artifact))"

section \<open>What the check decides\<close>

definition valid_range :: "cardinality \<Rightarrow> bool" where
  "valid_range c \<longleftrightarrow> (\<forall>a b. c = Range a b \<longrightarrow> 0 \<le> a \<and> a \<le> b \<and> b \<le> max_entry_range_cardinality)"

definition entry_cardinality_ok :: "'ty entry_decl \<Rightarrow> bool" where
  "entry_cardinality_ok entry \<longleftrightarrow>
     (\<forall>c \<in> set (en_consumes entry). valid_range (co_cardinality c))
     \<and> length (filter (\<lambda>c. is_range (co_cardinality c)) (en_consumes entry))
         \<le> (if en_kind entry = Delegate then 0 else 1)
     \<and> (\<forall>outputs. en_emits entry = EmitOutputs outputs \<longrightarrow>
          (\<forall>out \<in> set outputs. valid_range (eo_cardinality out)
             \<and> (is_range (eo_cardinality out) \<longrightarrow> length (eo_actors out) = 1))
          \<and> length (filter (\<lambda>out. is_range (eo_cardinality out)) outputs) \<le> 1)
     \<and> (\<forall>observe \<in> set (en_observes entry).
          \<forall>a \<in> set (ob_inputs observe @ ob_outputs observe). oa_cardinality a = One)
     \<and> (\<forall>spawn \<in> set (en_spawns entry). \<forall>out \<in> set (sp_outputs spawn). so_cardinality out = One)"

lemma check_range_iff [simp]:
  "check_range actor entry label handle c = Ok u \<longleftrightarrow> valid_range c"
  "check_range actor entry label handle c \<noteq> Panic"
  by (auto simp: check_range_def valid_range_def split: cardinality.splits)

lemma is_range_One: "\<not> is_range c \<longleftrightarrow> c = One"
  by (cases c) (simp_all add: is_range_def)

lemma reject_iff [simp]:
  "reject_unsupported_range actor entry label handle c = Ok u \<longleftrightarrow> c = One"
  "reject_unsupported_range actor entry label handle c \<noteq> Panic"
  by (cases c; auto simp: reject_unsupported_range_def outcome_simps is_range_def valid_range_def)+

lemma check_consume_Ok:
  "check_consume actor entry kind seen c = Ok seen' \<longleftrightarrow>
     valid_range (co_cardinality c)
     \<and> (is_range (co_cardinality c) \<longrightarrow> kind \<noteq> Delegate \<and> \<not> seen)
     \<and> seen' = (seen \<or> is_range (co_cardinality c))"
  by (cases "co_cardinality c")
    (auto simp: check_consume_def outcome_simps is_range_def valid_range_def split: if_splits)

lemma consumes_loop:
  "(\<exists>seen'. try_fold (check_consume actor entry kind) seen cs = Ok seen') \<longleftrightarrow>
     (\<forall>c \<in> set cs. valid_range (co_cardinality c))
     \<and> length (filter (\<lambda>c. is_range (co_cardinality c)) cs)
         \<le> (if kind = Delegate then 0 else if seen then 0 else 1)"
proof (induction cs arbitrary: seen)
  case (Cons c cs)
  from Cons.IH [of seen] Cons.IH [of True] show ?case
    by (cases "is_range (co_cardinality c)")
      (auto simp: outcome_simps check_consume_Ok simp del: ex_simps split: if_splits)
qed simp

lemma check_emit_Ok:
  "check_emit_output actor entry seen out = Ok seen' \<longleftrightarrow>
     valid_range (eo_cardinality out)
     \<and> (is_range (eo_cardinality out) \<longrightarrow> \<not> seen \<and> length (eo_actors out) = 1)
     \<and> seen' = (seen \<or> is_range (eo_cardinality out))"
  by (cases "eo_cardinality out")
    (auto simp: check_emit_output_def outcome_simps is_range_def valid_range_def split: if_splits)

lemma emits_loop:
  "(\<exists>seen'. try_fold (check_emit_output actor entry) seen outs = Ok seen') \<longleftrightarrow>
     (\<forall>out \<in> set outs. valid_range (eo_cardinality out)
        \<and> (is_range (eo_cardinality out) \<longrightarrow> length (eo_actors out) = 1))
     \<and> length (filter (\<lambda>out. is_range (eo_cardinality out)) outs) \<le> (if seen then 0 else 1)"
proof (induction outs arbitrary: seen)
  case (Cons out outs)
  from Cons.IH [of seen] Cons.IH [of True] show ?case
    by (cases "is_range (eo_cardinality out)")
      (auto simp: outcome_simps check_emit_Ok simp del: ex_simps split: if_splits)
qed simp

lemma check_entry_Ok:
  "check_entry_cardinality actor entry = Ok () \<longleftrightarrow> entry_cardinality_ok entry"
proof -
  have emits: "(case en_emits entry of
        EmitOutputs outputs \<Rightarrow>
          and_then (try_fold (check_emit_output actor (en_name entry)) False outputs) (\<lambda>_. Ok ())
      | EmitNone \<Rightarrow> Ok ()) = (Ok () :: (cardinality_error, unit) outcome)
      \<longleftrightarrow> (\<forall>outputs. en_emits entry = EmitOutputs outputs \<longrightarrow>
          (\<forall>out \<in> set outputs. valid_range (eo_cardinality out)
             \<and> (is_range (eo_cardinality out) \<longrightarrow> length (eo_actors out) = 1))
          \<and> length (filter (\<lambda>out. is_range (eo_cardinality out)) outputs) \<le> 1)"
    using emits_loop [of actor "en_name entry" False]
    by (cases "en_emits entry") (simp_all add: and_then_Ok_iff)
  have split: "and_then m f = (Ok () :: (cardinality_error, unit) outcome) \<longleftrightarrow> m = Ok () \<and> f () = Ok ()"
    for m :: "(cardinality_error, unit) outcome" and f
    by (cases m) auto
  have fold: "and_then m (\<lambda>_. k) = Ok () \<longleftrightarrow> (\<exists>s. m = Ok s) \<and> k = Ok ()"
    for m :: "(cardinality_error, bool) outcome" and k :: "(cardinality_error, unit) outcome"
    by (cases m) auto
  show ?thesis
    unfolding check_entry_cardinality_def fold split emits consumes_loop entry_cardinality_ok_def
    by (simp add: try_each_Ok_iff check_observe_def check_spawn_def split ball_Un)
qed

lemma check_entry_not_Panic: "check_entry_cardinality actor entry \<noteq> Panic"
  by (auto simp: check_entry_cardinality_def and_then_Panic_iff check_consume_def check_emit_output_def
      check_observe_def check_spawn_def split: emit_decl.splits if_splits
      intro!: try_fold_not_Panic try_each_not_Panic
      dest!: try_fold_not_Panic [THEN notE, rotated] try_each_not_Panic [THEN notE, rotated])

lemma check_cardinality_not_Panic: "check_cardinality_consistency artifact \<noteq> Panic"
  unfolding check_cardinality_consistency_def by (intro try_each_not_Panic check_entry_not_Panic)

section \<open>Properties\<close>

text \<open>
  C17: the cardinality check accepts exactly the artifacts whose entries have valid ranges of
  a supported shape: at most one ranged consume in a leader and none in a delegate, at most
  one ranged emit and only to a single actor, no ranged observation or spawn. Otherwise it
  returns an error; it never panics.
\<close>

theorem cardinality_check_decides:
  "if \<forall>actor \<in> set (ap_actors (art_argent artifact)). \<forall>entry \<in> set (ac_entries actor). entry_cardinality_ok entry
   then check_cardinality_consistency artifact = Ok ()
   else \<exists>e. check_cardinality_consistency artifact = Err e"
proof -
  have "check_cardinality_consistency artifact \<noteq> Panic" by (rule check_cardinality_not_Panic)
  moreover have "check_cardinality_consistency artifact = Ok () \<longleftrightarrow>
    (\<forall>actor \<in> set (ap_actors (art_argent artifact)). \<forall>entry \<in> set (ac_entries actor). entry_cardinality_ok entry)"
    by (simp add: check_cardinality_consistency_def try_each_Ok_iff check_entry_Ok)
  ultimately show ?thesis by (cases "check_cardinality_consistency artifact") auto
qed

definition ranged_entry :: "unit entry_decl" where
  "ranged_entry = (plain_entry ''go'')\<lparr>
     en_consumes := [\<lparr>co_name = ''xs'', co_actor = ''A'', co_cardinality = Range 1 512\<rparr>,
                     \<lparr>co_name = ''y'', co_actor = ''A'', co_cardinality = One\<rparr>],
     en_emits := EmitOutputs [\<lparr>eo_name = ''o'', eo_auth_index = None, eo_actors = [''A''], eo_cardinality = Range 0 3\<rparr>]\<rparr>"

lemma cardinality_check_decides_witness:
  "check_cardinality_consistency (plain_artifact [plain_actor ''A'' ''S'' [ranged_entry]] [] empty_plan) = Ok ()"
proof -
  have "entry_cardinality_ok ranged_entry"
    by (simp add: entry_cardinality_ok_def ranged_entry_def plain_entry_def valid_range_def is_range_def
        max_entry_range_cardinality_def)
  then show ?thesis
    using cardinality_check_decides [of "plain_artifact [plain_actor ''A'' ''S'' [ranged_entry]] [] empty_plan"]
    by (simp add: plain_artifact_def plain_actor_def)
qed

end
