(* ===== verification/Template_Frames.thy ===== *)
theory Template_Frames
  imports Artifact_Examples "HOL-Library.Sublist"
begin

text \<open>
  Verification of actor identity from template frames,
  \<^verbatim>\<open>crates/argent-artifact/src/template_frames.rs\<close>. The frame of an actor is the compiled
  script with its state cut out. The conservative rule of the source is proved sound: when
  it accepts, no script of a chain can be an instance of the frames of two actors.
\<close>

record frame_lengths =
  fl_prefix :: nat
  fl_state :: nat
  fl_suffix :: nat
  fl_total :: nat

datatype frame_error =
    MissingContract string string
  | InvalidStateSpan string string nat nat nat
  | Ambiguous string frame_lengths string frame_lengths

record actor_frame =
  fm_actor :: string
  fm_prefix :: "byte list"
  fm_state_len :: nat
  fm_suffix :: "byte list"
  fm_total_len :: nat

definition lengths :: "actor_frame \<Rightarrow> frame_lengths" where
  "lengths f = \<lparr>fl_prefix = length (fm_prefix f), fl_state = fm_state_len f,
     fl_suffix = length (fm_suffix f), fl_total = fm_total_len f\<rparr>"

definition conflicts_with :: "actor_frame \<Rightarrow> actor_frame \<Rightarrow> bool" where
  "conflicts_with f h \<longleftrightarrow> fm_total_len f = fm_total_len h
     \<and> (prefix (fm_prefix h) (fm_prefix f) \<or> prefix (fm_prefix f) (fm_prefix h))
     \<and> (suffix (fm_suffix h) (fm_suffix f) \<or> suffix (fm_suffix f) (fm_suffix h))"

text \<open>\<open>checked_add\<close> fails beyond the 64-bit \<open>usize\<close>.\<close>

definition usize_limit :: int where
  "usize_limit = 2 ^ 64"

definition checked_add :: "nat \<Rightarrow> nat \<Rightarrow> nat option" where
  "checked_add a b = (if int a + int b < usize_limit then Some (a + b) else None)"

definition extract_frame ::
  "'ty actor_decl \<Rightarrow> 'ty sil_contract \<Rightarrow> (frame_error, actor_frame) outcome" where
  "extract_frame actor contract =
     (let compiled = sc_compiled contract;
          offset = span_offset (cc_state_span compiled);
          state_len = span_len (cc_state_span compiled);
          total_len = length (cc_bytecode compiled);
          invalid = Err (InvalidStateSpan (ac_name actor) (ac_abi_contract actor) offset state_len total_len) in
      case checked_add offset state_len of
        None \<Rightarrow> invalid
      | Some state_end \<Rightarrow>
          if state_end \<le> total_len
          then Ok \<lparr>fm_actor = ac_name actor, fm_prefix = take offset (cc_bytecode compiled),
                   fm_state_len = state_len, fm_suffix = drop state_end (cc_bytecode compiled),
                   fm_total_len = total_len\<rparr>
          else invalid)"

definition frame_of ::
  "('ty, 'val, 'x) sil_lib_scheme \<Rightarrow> 'ty artifact \<Rightarrow> 'ty actor_decl \<Rightarrow> (frame_error, actor_frame) outcome" where
  "frame_of lib artifact actor =
     and_then (ok_or (sl_contract lib (art_sil_abi artifact) (ac_abi_contract actor))
                (MissingContract (ac_name actor) (ac_abi_contract actor)))
       (extract_frame actor)"

definition check_pair :: "actor_frame \<Rightarrow> actor_frame \<Rightarrow> (frame_error, unit) outcome" where
  "check_pair first second =
     (if conflicts_with first second
      then Err (Ambiguous (fm_actor first) (lengths first) (fm_actor second) (lengths second))
      else Ok ())"

definition verify_frames ::
  "('ty, 'val, 'x) sil_lib_scheme \<Rightarrow> 'ty artifact \<Rightarrow> (frame_error, unit) outcome" where
  "verify_frames lib artifact =
     and_then (try_map (frame_of lib artifact) (sort_key ac_name (ap_actors (art_argent artifact)))) (\<lambda>frames.
       try_each (\<lambda>(index, first). try_each (check_pair first) (drop (index + 1) frames))
         (List.enumerate 0 frames))"

section \<open>Frames and scripts\<close>

text \<open>A script is an instance of a frame when some state of any bytes fits in the gap.\<close>

definition instance_of :: "byte list \<Rightarrow> actor_frame \<Rightarrow> bool" where
  "instance_of script f \<longleftrightarrow> length script = fm_total_len f
     \<and> prefix (fm_prefix f) script \<and> suffix (fm_suffix f) script"

lemma instances_conflict:
  "instance_of script f \<Longrightarrow> instance_of script h \<Longrightarrow> conflicts_with f h"
  unfolding instance_of_def conflicts_with_def
  by (auto dest: prefix_same_cases suffix_same_cases)

lemma conflicts_sym: "conflicts_with f h = conflicts_with h f"
  by (auto simp: conflicts_with_def)

lemma extract_frame_total: "extract_frame actor contract \<noteq> Panic"
  by (simp add: extract_frame_def Let_def split: option.splits)

lemma frame_of_total: "frame_of lib artifact actor \<noteq> Panic"
  using extract_frame_total by (auto simp: frame_of_def and_then_Panic_iff)

text \<open>The compiled script itself is an instance of the extracted frame.\<close>

lemma extract_frame_instance:
  "extract_frame actor contract = Ok f \<Longrightarrow> instance_of (cc_bytecode (sc_compiled contract)) f"
  by (auto simp: extract_frame_def Let_def instance_of_def take_is_prefix suffix_drop
      split: option.splits if_splits)

lemma all_drop_nth:
  "(\<forall>x \<in> set (drop n xs). P x) \<longleftrightarrow> (\<forall>j. n \<le> j \<and> j < length xs \<longrightarrow> P (xs ! j))"
proof
  assume L: "\<forall>x \<in> set (drop n xs). P x"
  show "\<forall>j. n \<le> j \<and> j < length xs \<longrightarrow> P (xs ! j)"
  proof (intro allI impI)
    fix j assume "n \<le> j \<and> j < length xs"
    then have "drop n xs ! (j - n) = xs ! j" "j - n < length (drop n xs)" by auto
    with L show "P (xs ! j)" by (metis nth_mem)
  qed
next
  assume R: "\<forall>j. n \<le> j \<and> j < length xs \<longrightarrow> P (xs ! j)"
  show "\<forall>x \<in> set (drop n xs). P x"
  proof
    fix x assume "x \<in> set (drop n xs)"
    then obtain k where "k < length xs - n" "x = xs ! (n + k)" by (auto simp: in_set_conv_nth)
    with R show "P x" by simp
  qed
qed

lemma pair_loop_iff:
  "try_each (\<lambda>(index, first). try_each (check_pair first) (drop (index + 1) frames)) (List.enumerate 0 frames) = Ok u
     \<longleftrightarrow> (\<forall>i j. i < j \<and> j < length frames \<longrightarrow> \<not> conflicts_with (frames ! i) (frames ! j))"
proof -
  have ok: "check_pair f h = Ok () \<longleftrightarrow> \<not> conflicts_with f h" for f h by (simp add: check_pair_def)
  have "(\<forall>x \<in> set (List.enumerate 0 frames). Q x) \<longleftrightarrow> (\<forall>i < length frames. Q (i, frames ! i))"
    for Q :: "nat \<times> actor_frame \<Rightarrow> bool"
    by (simp add: all_set_conv_all_nth nth_enumerate_eq)
  then show ?thesis
    by (auto simp: try_each_Ok_iff ok all_drop_nth Suc_le_eq)
qed

lemma pair_loop_not_Panic:
  "try_each (\<lambda>(index, first). try_each (check_pair first) (drop (index + 1) frames)) (List.enumerate 0 frames) \<noteq> Panic"
  by (auto simp: check_pair_def intro!: try_each_not_Panic split: prod.splits if_splits)

lemma verify_frames_Ok:
  "verify_frames lib artifact = Ok () \<longleftrightarrow>
     (\<exists>frames. list_all2 (\<lambda>actor f. frame_of lib artifact actor = Ok f)
          (sort_key ac_name (ap_actors (art_argent artifact))) frames
        \<and> (\<forall>i j. i < j \<and> j < length frames \<longrightarrow> \<not> conflicts_with (frames ! i) (frames ! j)))"
  unfolding verify_frames_def and_then_Ok_iff try_map_Ok_iff pair_loop_iff ..

section \<open>Properties\<close>

text \<open>
  C16: the frame check is sound: once it accepts, two different actors never share a script.
  No byte string is an instance of the frames of both, whatever the states are.
\<close>

theorem template_frames_unambiguous:
  assumes "verify_frames lib artifact = Ok ()"
    and "a \<in> set (ap_actors (art_argent artifact))" "b \<in> set (ap_actors (art_argent artifact))" "a \<noteq> b"
  shows "\<exists>fa fb. frame_of lib artifact a = Ok fa \<and> frame_of lib artifact b = Ok fb
    \<and> \<not> (\<exists>script. instance_of script fa \<and> instance_of script fb)"
proof -
  let ?actors = "sort_key ac_name (ap_actors (art_argent artifact))"
  obtain frames where frames: "list_all2 (\<lambda>actor f. frame_of lib artifact actor = Ok f) ?actors frames"
    and apart: "\<And>i j. i < j \<Longrightarrow> j < length frames \<Longrightarrow> \<not> conflicts_with (frames ! i) (frames ! j)"
    using assms(1) unfolding verify_frames_Ok by blast
  have "set ?actors = set (ap_actors (art_argent artifact))" by simp
  with assms(2,3) obtain i j where ij: "i < length ?actors" "?actors ! i = a" "j < length ?actors" "?actors ! j = b"
    by (metis in_set_conv_nth)
  then have of: "frame_of lib artifact a = Ok (frames ! i)" "frame_of lib artifact b = Ok (frames ! j)"
    and len: "length frames = length ?actors"
    using frames by (auto simp: list_all2_conv_all_nth)
  have "i \<noteq> j" using ij assms(4) by blast
  then have "\<not> conflicts_with (frames ! i) (frames ! j)"
    using apart [of i j] apart [of j i] ij(1,3) len conflicts_sym by (metis linorder_neqE_nat)
  with of instances_conflict show ?thesis by blast
qed

lemma verify_frames_not_Panic: "verify_frames lib artifact \<noteq> Panic"
  using try_map_not_Panic [of _ "frame_of lib artifact"] frame_of_total pair_loop_not_Panic
  by (auto simp: verify_frames_def and_then_Panic_iff)

text \<open>
  The check decides its conservative rule: it succeeds exactly when every actor has a
  contract with a state span inside its script and no two frames conflict, and it returns
  an error otherwise, without a panic (also when the span overflows a \<open>usize\<close>).
\<close>

theorem verify_frames_decides:
  "if \<exists>frames. list_all2 (\<lambda>actor f. frame_of lib artifact actor = Ok f)
          (sort_key ac_name (ap_actors (art_argent artifact))) frames
        \<and> (\<forall>i j. i < j \<and> j < length frames \<longrightarrow> \<not> conflicts_with (frames ! i) (frames ! j))
   then verify_frames lib artifact = Ok () else \<exists>e. verify_frames lib artifact = Err e"
proof -
  have "verify_frames lib artifact \<noteq> Panic" by (rule verify_frames_not_Panic)
  then show ?thesis using verify_frames_Ok [of lib artifact]
    by (cases "verify_frames lib artifact") auto
qed

definition two_frames :: "nat artifact" where
  "two_frames = plain_artifact [plain_actor ''B'' ''S'' [], plain_actor ''A'' ''S'' []]
     [(''A'', plain_contract [1, 2, 3, 4] 1 2), (''B'', plain_contract [1, 9, 9, 5] 1 2)] empty_plan"

lemma two_frames_verified: "verify_frames demo_sil_lib two_frames = Ok ()"
  by code_simp

lemma template_frames_unambiguous_witness:
  "\<not> (\<exists>script. instance_of script
       \<lparr>fm_actor = ''A'', fm_prefix = [1], fm_state_len = 2, fm_suffix = [4], fm_total_len = 4\<rparr>
     \<and> instance_of script
       \<lparr>fm_actor = ''B'', fm_prefix = [1], fm_state_len = 2, fm_suffix = [5], fm_total_len = 4\<rparr>)"
proof -
  let ?a = "plain_actor ''A'' ''S'' []" and ?b = "plain_actor ''B'' ''S'' []"
  have "frame_of demo_sil_lib two_frames ?a = Ok
      \<lparr>fm_actor = ''A'', fm_prefix = [1], fm_state_len = 2, fm_suffix = [4], fm_total_len = 4\<rparr>"
    "frame_of demo_sil_lib two_frames ?b = Ok
      \<lparr>fm_actor = ''B'', fm_prefix = [1], fm_state_len = 2, fm_suffix = [5], fm_total_len = 4\<rparr>"
    by code_simp+
  moreover have "?a \<in> set (ap_actors (art_argent two_frames))" "?b \<in> set (ap_actors (art_argent two_frames))"
    "?a \<noteq> ?b"
    by (simp_all add: two_frames_def plain_artifact_def plain_actor_def)
  ultimately show ?thesis using template_frames_unambiguous [OF two_frames_verified] by fastforce
qed

lemma verify_frames_decides_witness: "verify_frames demo_sil_lib two_frames = Ok ()"
proof -
  have "\<exists>frames. list_all2 (\<lambda>actor f. frame_of demo_sil_lib two_frames actor = Ok f)
          (sort_key ac_name (ap_actors (art_argent two_frames))) frames
        \<and> (\<forall>i j. i < j \<and> j < length frames \<longrightarrow> \<not> conflicts_with (frames ! i) (frames ! j))"
    using two_frames_verified verify_frames_Ok by blast
  then show ?thesis using verify_frames_decides [of demo_sil_lib two_frames] by simp
qed

end
