(* ===== verification/Plan_Check.thy ===== *)
theory Plan_Check
  imports Actor_Handles Spawn_Check Artifact_Cardinality Template_Frames
begin

text \<open>
  The rest of \<^verbatim>\<open>TemplatePlanArtifact::check_consistency\<close> (witness recipes and entries), its
  composition, and the checks of a whole artifact
  (\<^verbatim>\<open>crates/argent-artifact/src/lib.rs\<close>).
\<close>

section \<open>Witness recipes\<close>

text \<open>\<^verbatim>\<open>str::split_once("::")\<close>: the text before and after the first separator.\<close>

fun split_once :: "string \<Rightarrow> (string \<times> string) option" where
  "split_once (a # b # s) =
     (if a = CHR '':'' \<and> b = CHR '':'' then Some ([], s)
      else map_option (\<lambda>(l, r). (a # l, r)) (split_once (b # s)))"
| "split_once s = None"

definition check_recipe_subject ::
  "(string, template_receipt) btree \<Rightarrow> (string, route_template_family) btree \<Rightarrow> (string \<times> string) set
     \<Rightarrow> witness_recipe \<Rightarrow> (template_plan_error, unit) outcome" where
  "check_recipe_subject templates families imported recipe =
     (case wr_subject recipe of
        SubjectActor actor \<Rightarrow>
          (case wr_template_id recipe of
             Some template_id \<Rightarrow>
               and_then (ok_or (map_of templates template_id) (MissingWitnessTemplate (wr_id recipe) template_id)) (\<lambda>t.
                 ensure (actor = tr_actor t) (WitnessTemplateMismatch (wr_id recipe) actor (tr_actor t)))
           | None \<Rightarrow>
               ensure (case split_once actor of None \<Rightarrow> False | Some x \<Rightarrow> x \<in> imported)
                 (MissingWitnessImportedTemplate (wr_id recipe) actor))
      | SubjectRouteFamily family_id \<Rightarrow>
          ensure (map_of families family_id \<noteq> None) (MissingWitnessRouteFamily (wr_id recipe) family_id)
      | _ \<Rightarrow> Ok ())"

definition check_recipe ::
  "(string, template_receipt) btree \<Rightarrow> (string, route_template_family) btree \<Rightarrow> (string \<times> string) set
     \<Rightarrow> (string, route_template_proof) btree \<Rightarrow> witness_recipe \<Rightarrow> (template_plan_error, unit) outcome" where
  "check_recipe templates families imported proofs recipe =
     and_then (check_recipe_subject templates families imported recipe) (\<lambda>_.
       case wr_route_proof_id recipe of
         None \<Rightarrow> Ok ()
       | Some i \<Rightarrow> ensure (map_of proofs i \<noteq> None) (MissingWitnessRouteProof (wr_id recipe) i))"

definition imported_templates :: "interface_set \<Rightarrow> (string \<times> string) set" where
  "imported_templates interfaces = (\<lambda>i. (ai_app i, ai_actor i)) ` set (is_imports interfaces)"

definition index_recipes ::
  "(string, template_receipt) btree \<Rightarrow> (string, route_template_family) btree \<Rightarrow> (string \<times> string) set
     \<Rightarrow> (string, route_template_proof) btree \<Rightarrow> witness_recipe list
     \<Rightarrow> (template_plan_error, (string, witness_recipe) btree) outcome" where
  "index_recipes templates families imported proofs recipes =
     index_unique wr_id (\<lambda>r. DuplicateWitnessRecipeId (wr_id r))
       (check_recipe templates families imported proofs) recipes"

section \<open>Entries\<close>

definition check_hidden_param ::
  "(string, witness_recipe) btree \<Rightarrow> string \<Rightarrow> 'ty hidden_param \<Rightarrow> (template_plan_error, unit) outcome" where
  "check_hidden_param recipes entry_id param =
     and_then (ok_or (map_of recipes (hp_recipe_id param))
         (MissingHiddenParamRecipe entry_id (hp_name param) (hp_recipe_id param))) (\<lambda>recipe.
       if wr_param recipe \<noteq> hp_name param \<or> wr_subject recipe \<noteq> hp_subject param
          \<or> wr_purpose recipe \<noteq> hp_purpose param \<or> wr_route_proof_id recipe \<noteq> hp_route_proof_id param
       then Err (HiddenParamRecipeMismatch entry_id (hp_name param) (hp_recipe_id param))
       else Ok ())"

definition check_witness ::
  "(string, witness_recipe) btree \<Rightarrow> string \<Rightarrow> witness_ref \<Rightarrow> (template_plan_error, unit) outcome" where
  "check_witness recipes entry_id witness =
     and_then (ok_or (map_of recipes (wi_recipe_id witness))
         (MissingEntryWitnessRecipe entry_id (wi_param witness) (wi_recipe_id witness))) (\<lambda>recipe.
       if wr_param recipe \<noteq> wi_param witness \<or> wr_subject recipe \<noteq> wi_subject witness
          \<or> wr_purpose recipe \<noteq> wi_purpose witness \<or> wr_route_proof_id recipe \<noteq> wi_route_proof_id witness
       then Err (EntryWitnessRecipeMismatch entry_id (wi_param witness) (wi_recipe_id witness))
       else Ok ())"

definition verify_route_recipe_ids ::
  "string \<Rightarrow> string list \<Rightarrow> string set \<Rightarrow> (string, witness_recipe) btree \<Rightarrow> (template_plan_error, unit) outcome" where
  "verify_route_recipe_ids entry_id recipe_ids entry_recipe_ids recipes =
     try_each (\<lambda>i. and_then (ensure (map_of recipes i \<noteq> None) (MissingRoutePlanRecipe entry_id i)) (\<lambda>_.
       ensure (i \<in> entry_recipe_ids) (RoutePlanRecipeNotExposed entry_id i))) recipe_ids"

definition verify_route_template ::
  "string \<Rightarrow> string \<Rightarrow> string \<Rightarrow> (string, template_receipt) btree \<Rightarrow> (template_plan_error, unit) outcome" where
  "verify_route_template entry_id actor template_id templates =
     and_then (ok_or (map_of templates template_id) (MissingRouteTemplate entry_id actor template_id)) (\<lambda>template.
       ensure (tr_actor template = actor) (RouteTemplateMismatch entry_id actor template_id (tr_actor template)))"

definition check_route ::
  "(string, template_receipt) btree \<Rightarrow> string \<Rightarrow> route_decl \<Rightarrow> (template_plan_error, unit) outcome" where
  "check_route templates entry_id route =
     (case ro_successor route of
        ExactSelf \<Rightarrow> Ok ()
      | Constructed actor template_id _ \<Rightarrow> verify_route_template entry_id actor template_id templates)"

definition check_entry ::
  "(string, template_receipt) btree \<Rightarrow> (string, witness_recipe) btree \<Rightarrow> string \<Rightarrow> 'ty entry_decl
     \<Rightarrow> (template_plan_error, unit) outcome" where
  "check_entry templates recipes actor_name entry =
     (let entry_id = actor_name @ ''::'' @ en_name entry;
          entry_recipe_ids = set (map hp_recipe_id (en_hidden_params entry)) in
      and_then (verify_entry_spawns entry_id entry) (\<lambda>_.
      and_then (try_each (check_hidden_param recipes entry_id) (en_hidden_params entry)) (\<lambda>_.
      and_then (try_each (check_witness recipes entry_id) (en_witnesses entry)) (\<lambda>_.
      and_then (verify_route_recipe_ids entry_id (erp_witness_recipe_ids (en_route_plan entry)) entry_recipe_ids recipes) (\<lambda>_.
        try_each (check_route templates entry_id) (en_routes entry))))))"

definition check_actor_entries ::
  "(string, template_receipt) btree \<Rightarrow> (string, witness_recipe) btree \<Rightarrow> 'ty actor_decl
     \<Rightarrow> (template_plan_error, unit) outcome" where
  "check_actor_entries templates recipes actor = try_each (check_entry templates recipes (ac_name actor)) (ac_entries actor)"

section \<open>The whole plan\<close>

definition check_handle ::
  "('ty, 'val, 'x) sil_lib_scheme \<Rightarrow> template_plan \<Rightarrow> 'ty artifact \<Rightarrow> template_receipt \<Rightarrow> (template_plan_error, unit) outcome" where
  "check_handle lib plan artifact template =
     and_then (expect (map_of (sil_contracts (art_sil_abi artifact)) (tr_contract template))) (\<lambda>contract.
       verify_actor_type_handle lib plan artifact template (tr_contract template) contract)"

text \<open>The phases after the receipts, families and tables have been indexed.\<close>

definition check_routes ::
  "('ty, 'val, 'x) sil_lib_scheme \<Rightarrow> template_plan \<Rightarrow> 'ty artifact \<Rightarrow> (string, template_receipt) btree
     \<Rightarrow> (string, route_template_family) btree \<Rightarrow> (template_plan_error, (string, route_template_proof) btree) outcome" where
  "check_routes lib plan artifact templates families =
     and_then (index_tables (tp_route_tables plan)) (\<lambda>tables.
     and_then (try_each (check_table templates families tables) (tp_route_tables plan)) (\<lambda>_.
     and_then (bind_tables lib (art_sil_abi artifact) families tables (tp_runtime_states plan) (tp_route_tables plan)) (\<lambda>_.
     and_then (index_proofs tables (tp_route_proofs plan)) (\<lambda>proofs.
     and_then (try_each (check_proof lib templates tables proofs) (tp_route_proofs plan)) (\<lambda>_.
     and_then (try_each (check_table_proved proofs) (tp_route_tables plan)) (\<lambda>_.
     and_then (try_each (check_family_table tables) (tp_route_families plan)) (\<lambda>_. Ok proofs)))))))"

definition check_plan_consistency ::
  "('ty, 'val, 'x) sil_lib_scheme \<Rightarrow> template_plan \<Rightarrow> 'ty artifact \<Rightarrow> (template_plan_error, unit) outcome" where
  "check_plan_consistency lib plan artifact =
     (let argent = art_argent artifact; abi = art_sil_abi artifact; states = actor_states (ap_actors argent) in
      and_then (index_templates lib abi (tp_templates plan)) (\<lambda>templates.
      and_then (check_template_refs templates (ap_templates argent) (tp_templates plan)) (\<lambda>_.
      and_then (index_families states (tp_route_families plan)) (\<lambda>families.
      and_then (index_runtime_states abi states (tp_runtime_states plan)) (\<lambda>_.
      and_then (check_routes lib plan artifact templates families) (\<lambda>proofs.
      and_then (try_each (check_handle lib plan artifact) (tp_templates plan)) (\<lambda>_.
      and_then (index_recipes templates families (imported_templates (ap_interfaces argent)) proofs
          (tp_witness_recipes plan)) (\<lambda>recipes.
        try_each (check_actor_entries templates recipes) (ap_actors argent)))))))))"

section \<open>An accepted plan\<close>

text \<open>The maps the check builds, and what each of its phases has accepted.\<close>

definition checked_routes ::
  "('ty, 'val, 'x) sil_lib_scheme \<Rightarrow> template_plan \<Rightarrow> 'ty artifact \<Rightarrow> (string, template_receipt) btree
     \<Rightarrow> (string, route_template_family) btree \<Rightarrow> (string, route_template_table) btree
     \<Rightarrow> (string, route_template_proof) btree \<Rightarrow> bool" where
  "checked_routes lib plan artifact templates families tables proofs \<longleftrightarrow>
     indexes rt_id (tp_route_tables plan) tables
     \<and> (\<forall>t \<in> set (tp_route_tables plan). check_table templates families tables t = Ok ())
     \<and> bind_tables lib (art_sil_abi artifact) families tables (tp_runtime_states plan) (tp_route_tables plan) = Ok ()
     \<and> indexes rp_id (tp_route_proofs plan) proofs
     \<and> (\<forall>p \<in> set (tp_route_proofs plan). check_proof lib templates tables proofs p = Ok ())
     \<and> (\<forall>t \<in> set (tp_route_tables plan). check_table_proved proofs t = Ok ())
     \<and> (\<forall>f \<in> set (tp_route_families plan). check_family_table tables f = Ok ())"

definition checked_plan ::
  "('ty, 'val, 'x) sil_lib_scheme \<Rightarrow> template_plan \<Rightarrow> 'ty artifact \<Rightarrow> (string, template_receipt) btree
     \<Rightarrow> (string, route_template_family) btree \<Rightarrow> (string, route_template_proof) btree
     \<Rightarrow> (string, witness_recipe) btree \<Rightarrow> bool" where
  "checked_plan lib plan artifact templates families proofs recipes \<longleftrightarrow>
     indexes tr_id (tp_templates plan) templates
     \<and> (\<forall>t \<in> set (tp_templates plan). check_template_receipt lib (art_sil_abi artifact) t = Ok ())
     \<and> check_template_refs templates (ap_templates (art_argent artifact)) (tp_templates plan) = Ok ()
     \<and> indexes rfm_id (tp_route_families plan) families
     \<and> (\<forall>f \<in> set (tp_route_families plan). check_family (actor_states (ap_actors (art_argent artifact))) f = Ok ())
     \<and> (\<forall>r \<in> set (tp_runtime_states plan).
          check_runtime_state (art_sil_abi artifact) (actor_states (ap_actors (art_argent artifact))) r = Ok ())
     \<and> distinct (map rsp_contract (tp_runtime_states plan))
     \<and> (\<exists>tables. checked_routes lib plan artifact templates families tables proofs)
     \<and> (\<forall>t \<in> set (tp_templates plan). check_handle lib plan artifact t = Ok ())
     \<and> indexes wr_id (tp_witness_recipes plan) recipes
     \<and> (\<forall>actor \<in> set (ap_actors (art_argent artifact)). check_actor_entries templates recipes actor = Ok ())"

lemma checked_planD:
  assumes "checked_plan lib plan artifact templates families proofs recipes"
  shows "indexes tr_id (tp_templates plan) templates" and "indexes rfm_id (tp_route_families plan) families"
    and "\<exists>tables. checked_routes lib plan artifact templates families tables proofs"
    and "t \<in> set (tp_templates plan) \<Longrightarrow> check_template_receipt lib (art_sil_abi artifact) t = Ok ()"
    and "indexes wr_id (tp_witness_recipes plan) recipes"
    and "actor \<in> set (ap_actors (art_argent artifact)) \<Longrightarrow> check_actor_entries templates recipes actor = Ok ()"
    and "r \<in> set (tp_runtime_states plan) \<Longrightarrow>
      check_runtime_state (art_sil_abi artifact) (actor_states (ap_actors (art_argent artifact))) r = Ok ()"
  using assms by (simp_all add: checked_plan_def)

lemma checked_routesD:
  assumes "checked_routes lib plan artifact templates families tables proofs"
  shows "indexes rt_id (tp_route_tables plan) tables" and "indexes rp_id (tp_route_proofs plan) proofs"
    and "bind_tables lib (art_sil_abi artifact) families tables (tp_runtime_states plan) (tp_route_tables plan) = Ok ()"
    and "t \<in> set (tp_route_tables plan) \<Longrightarrow> check_table templates families tables t = Ok ()"
    and "p \<in> set (tp_route_proofs plan) \<Longrightarrow> check_proof lib templates tables proofs p = Ok ()"
    and "t \<in> set (tp_route_tables plan) \<Longrightarrow> check_table_proved proofs t = Ok ()"
    and "f \<in> set (tp_route_families plan) \<Longrightarrow> check_family_table tables f = Ok ()"
  using assms by (simp_all add: checked_routes_def)

lemma check_routes_OkD:
  assumes "check_routes lib plan artifact templates families = Ok proofs"
  obtains tables where "checked_routes lib plan artifact templates families tables proofs"
proof -
  obtain tables where *:
    "index_tables (tp_route_tables plan) = Ok tables"
    "try_each (check_table templates families tables) (tp_route_tables plan) = Ok ()"
    "bind_tables lib (art_sil_abi artifact) families tables (tp_runtime_states plan) (tp_route_tables plan) = Ok ()"
    "index_proofs tables (tp_route_proofs plan) = Ok proofs"
    "try_each (check_proof lib templates tables proofs) (tp_route_proofs plan) = Ok ()"
    "try_each (check_table_proved proofs) (tp_route_tables plan) = Ok ()"
    "try_each (check_family_table tables) (tp_route_families plan) = Ok ()"
    using assms unfolding check_routes_def and_then_Ok_iff by auto
  note ix = index_unique_OkD(1) [OF *(1) [unfolded index_tables_def]]
    index_unique_OkD(1) [OF *(4) [unfolded index_proofs_def]]
  show ?thesis
    using that [of tables] ix *(2,3,5,6,7) unfolding checked_routes_def try_each_Ok_iff by blast
qed

lemma check_plan_OkD:
  assumes "check_plan_consistency lib plan artifact = Ok ()"
  obtains templates families proofs recipes where "checked_plan lib plan artifact templates families proofs recipes"
proof -
  let ?argent = "art_argent artifact" and ?abi = "art_sil_abi artifact"
  let ?states = "actor_states (ap_actors ?argent)"
  obtain templates families rs proofs recipes where *:
    "index_templates lib ?abi (tp_templates plan) = Ok templates"
    "check_template_refs templates (ap_templates ?argent) (tp_templates plan) = Ok ()"
    "index_families ?states (tp_route_families plan) = Ok families"
    "index_runtime_states ?abi ?states (tp_runtime_states plan) = Ok rs"
    "check_routes lib plan artifact templates families = Ok proofs"
    "try_each (check_handle lib plan artifact) (tp_templates plan) = Ok ()"
    "index_recipes templates families (imported_templates (ap_interfaces ?argent)) proofs (tp_witness_recipes plan) = Ok recipes"
    "try_each (check_actor_entries templates recipes) (ap_actors ?argent) = Ok ()"
    using assms unfolding check_plan_consistency_def Let_def and_then_Ok_iff by auto
  note ix = index_unique_OkD [OF *(1) [unfolded index_templates_def]] index_unique_OkD [OF *(3) [unfolded index_families_def]]
    index_unique_OkD [OF *(4) [unfolded index_runtime_states_def]] index_unique_OkD [OF *(7) [unfolded index_recipes_def]]
  obtain tables where "checked_routes lib plan artifact templates families tables proofs"
    using check_routes_OkD [OF *(5)] .
  then show ?thesis
    using that [of templates families proofs recipes] ix *(2,6,8) indexesD(3) [OF ix(5)]
    unfolding checked_plan_def try_each_Ok_iff by blast
qed

section \<open>The check never panics\<close>

abbreviation hashes_well_formed :: "template_plan \<Rightarrow> bool" where
  "hashes_well_formed plan \<equiv> \<forall>t \<in> set (tp_templates plan). length (tr_sil_template_hash t) = 32"

lemma indexed_receipts32:
  assumes "indexes tr_id (tp_templates plan) templates" "hashes_well_formed plan"
  shows "receipts32 (map_template_hash_by_id templates)"
  using assms indexesD(2) by (fastforce simp: map_template_hash_by_id_def hash_ref_def)

lemma check_routes_not_Panic:
  assumes lib: "sil_lib_ok lib" and ix: "indexes tr_id (tp_templates plan) templates" and h: "hashes_well_formed plan"
    and rs: "\<And>r. r \<in> set (tp_runtime_states plan) \<Longrightarrow> check_runtime_state (art_sil_abi artifact) states r = Ok ()"
  shows "check_routes lib plan artifact templates families \<noteq> Panic"
proof -
  have hash: "hash_lib_ok lib" using lib by (simp add: sil_lib_ok_def)
  have proof_ok: "check_proof lib templates tables proofs p \<noteq> Panic"
    if "index_proofs tables (tp_route_proofs plan) = Ok proofs" "p \<in> set (tp_route_proofs plan)" for tables proofs p
  proof -
    have "map_of tables (rp_table_id p) \<noteq> None"
      using index_unique_OkD(2) [OF that(1) [unfolded index_proofs_def] that(2)] by simp
    moreover have "verify_route_proof lib p t (map_template_hash_by_id templates) proofs \<noteq> Panic" for t
      using route_proof_not_Panic [OF hash indexed_receipts32 [OF ix h]] .
    ultimately show ?thesis by (simp add: check_proof_def and_then_Panic_iff)
  qed
  have proofs_ok: "try_each (check_proof lib templates tables proofs) (tp_route_proofs plan) \<noteq> Panic"
    if "index_proofs tables (tp_route_proofs plan) = Ok proofs" for tables proofs
    using proof_ok [OF that] by (rule try_each_not_Panic)
  have tables_ok: "try_each (check_table templates families tables) ts \<noteq> Panic"
    "try_each (check_table_proved proofs) ts \<noteq> Panic" "try_each (check_family_table tables) fs \<noteq> Panic"
    for tables proofs ts fs by (rule try_each_not_Panic, simp)+
  have "bind_tables lib (art_sil_abi artifact) families tables (tp_runtime_states plan) ts \<noteq> Panic" for tables ts
    by (rule bind_tables_not_Panic [OF rs])
  then show ?thesis
    using proofs_ok tables_ok unfolding check_routes_def and_then_Panic_iff by auto
qed

lemma receipt_contract:
  assumes "sil_lib_ok lib" "check_template_receipt lib abi t = Ok ()"
  obtains contract where "map_of (sil_contracts abi) (tr_contract t) = Some contract"
    and "tr_actor t = tr_contract t" and "tr_sil_template_hash t = cc_template_hash (sc_compiled contract)"
  using assms by (auto simp: check_template_receipt_def sil_lib_ok_def Let_def and_then_Ok_iff guard_Ok_iff)

lemma plan_entry_not_Panic: "check_entry templates recipes name entry \<noteq> Panic"
proof -
  have "verify_entry_spawns i entry \<noteq> Panic" for i
    using verify_entry_spawns_outcome [of i entry] by (simp add: spawn_outcome_def)
  moreover have "try_each (check_hidden_param recipes i) ps \<noteq> Panic" for i and ps :: "'a hidden_param list"
    by (rule try_each_not_Panic) (simp add: check_hidden_param_def and_then_Panic_iff)
  moreover have "try_each (check_witness recipes i) ps \<noteq> Panic" for i ps
    by (rule try_each_not_Panic) (simp add: check_witness_def and_then_Panic_iff)
  moreover have "verify_route_recipe_ids i js ids recipes \<noteq> Panic" for i js ids
    unfolding verify_route_recipe_ids_def by (rule try_each_not_Panic) (simp add: and_then_Panic_iff)
  moreover have "try_each (check_route templates i) rs \<noteq> Panic" for i rs
    by (rule try_each_not_Panic)
      (simp add: check_route_def verify_route_template_def and_then_Panic_iff split: route_successor.split)
  ultimately show ?thesis by (simp add: check_entry_def Let_def and_then_Panic_iff)
qed

lemma index_recipes_not_Panic [simp]: "index_recipes templates families imported proofs recipes \<noteq> Panic"
proof -
  have "check_recipe templates families imported proofs r \<noteq> Panic" for r
    by (auto simp: check_recipe_def check_recipe_subject_def and_then_Panic_iff
        split: hidden_param_subject.splits option.splits)
  then show ?thesis unfolding index_recipes_def by (rule index_unique_not_Panic)
qed

lemma plan_consistency_not_Panic:
  assumes lib: "sil_lib_ok lib" and h: "hashes_well_formed plan"
  shows "check_plan_consistency lib plan artifact \<noteq> Panic"
proof -
  let ?abi = "art_sil_abi artifact" and ?states = "actor_states (ap_actors (art_argent artifact))"
  have routes: "check_routes lib plan artifact templates families \<noteq> Panic"
    if "index_templates lib ?abi (tp_templates plan) = Ok templates"
      "index_runtime_states ?abi ?states (tp_runtime_states plan) = Ok rs" for templates families rs
    using check_routes_not_Panic [OF lib index_unique_OkD(1) [OF that(1) [unfolded index_templates_def]] h]
      index_unique_OkD(2) [OF that(2) [unfolded index_runtime_states_def]] by blast
  have "try_each (check_handle lib plan artifact) (tp_templates plan) \<noteq> Panic"
    if "index_templates lib ?abi (tp_templates plan) = Ok templates" for templates
  proof (rule try_each_not_Panic)
    fix t assume "t \<in> set (tp_templates plan)"
    from index_unique_OkD(2) [OF that [unfolded index_templates_def] this]
    obtain contract where "map_of (sil_contracts ?abi) (tr_contract t) = Some contract"
      using receipt_contract [OF lib] by blast
    then show "check_handle lib plan artifact t \<noteq> Panic" by (simp add: check_handle_def and_then_Panic_iff)
  qed
  moreover have "try_each (check_actor_entries templates recipes) (ap_actors (art_argent artifact)) \<noteq> Panic"
    for templates recipes
    unfolding check_actor_entries_def by (intro try_each_not_Panic plan_entry_not_Panic)
  ultimately show ?thesis
    using routes by (simp add: check_plan_consistency_def Let_def and_then_Panic_iff) blast
qed

text \<open>
  C21: Plan verification never panics: whatever the artifact, if the ABI crate's lookup is the
  lookup in its contract map and receipts hold 32-byte hashes, none of the \<^verbatim>\<open>expect\<close> calls,
  slices and indexings of \<^verbatim>\<open>check_consistency\<close> and the functions it calls can fail; every
  inconsistency is returned as an error.
\<close>

theorem plan_check_never_panics:
  assumes "sil_lib_ok lib" and "hashes_well_formed plan"
  shows "check_plan_consistency lib plan artifact \<noteq> Panic"
  by (rule plan_consistency_not_Panic [OF assms])

section \<open>What an accepted plan commits to\<close>

lemma lookup_by_id:
  assumes "indexes tr_id ts templates"
  shows "map_template_hash_by_id templates = template_hash_by_id ts"
proof
  fix i
  have d: "distinct (map tr_id ts)" by (rule indexesD(3) [OF assms])
  have "map_of templates i = find (\<lambda>t. tr_id t = i) ts"
  proof (cases "find (\<lambda>t. tr_id t = i) ts")
    case None
    then have "\<not> (\<exists>t \<in> set ts. tr_id t = i)" using find_NoneD by force
    then show ?thesis using None indexesD(2) [OF assms, of i] by (cases "map_of templates i") auto
  next
    case (Some t)
    from find_SomeD [OF Some] show ?thesis using indexesD(1) [OF assms, of t] Some by auto
  qed
  then show "map_template_hash_by_id templates i = template_hash_by_id ts i"
    by (simp add: map_template_hash_by_id_def template_hash_by_id_def)
qed

abbreviation plan_roots :: "template_plan \<Rightarrow> (string, string) btree" where
  "plan_roots plan \<equiv> map (\<lambda>p. (rp_id p, rp_root_hex p)) (tp_route_proofs plan)"

lemma lookup_roots:
  assumes "indexes rp_id (tp_route_proofs plan) proofs"
  shows "map_of (proof_roots proofs) i = map_of (plan_roots plan) i"
proof -
  have "map_of (proof_roots proofs) i = map_option rp_root_hex (map_of proofs i)"
    by (induction proofs) auto
  moreover have "map_of (plan_roots plan) i = map_option rp_root_hex (map_of proofs i)"
  proof (cases "map_of proofs i")
    case None
    then have "i \<notin> rp_id ` set (tp_route_proofs plan)" using indexesD(1) [OF assms] by force
    then have "map_of (plan_roots plan) i = None" by (auto simp: map_of_eq_None_iff)
    with None show ?thesis by simp
  next
    case (Some p)
    from indexesD(2) [OF assms Some] have "(i, rp_root_hex p) \<in> set (plan_roots plan)" by auto
    moreover have "distinct (map fst (plan_roots plan))" using indexesD(3) [OF assms] by (simp add: comp_def)
    ultimately show ?thesis using Some by simp
  qed
  ultimately show ?thesis by simp
qed

lemma leaf_hash_cong:
  "(\<And>i. map_of roots i = map_of roots' i) \<Longrightarrow> leaf_hash lib t by_id roots leaf = leaf_hash lib t by_id roots' leaf"
  by (simp add: leaf_hash_def split: route_template_leaf.split)

lemma proof_from_table_cong:
  "(\<And>i. map_of roots i = map_of roots' i) \<Longrightarrow>
     route_proof_from_table lib table by_id roots = route_proof_from_table lib table by_id roots'"
  unfolding route_proof_from_table_def table_leaf_hashes_def using leaf_hash_cong by metis

text \<open>The hashes and the proof of a table, in terms of the plan alone.\<close>

definition plan_leaf_hashes ::
  "('ty, 'val, 'x) sil_lib_scheme \<Rightarrow> template_plan \<Rightarrow> route_template_table \<Rightarrow> (template_plan_error, byte list list) outcome" where
  "plan_leaf_hashes lib plan table =
     table_leaf_hashes lib table (template_hash_by_id (tp_templates plan)) (plan_roots plan)"

definition plan_proof ::
  "('ty, 'val, 'x) sil_lib_scheme \<Rightarrow> template_plan \<Rightarrow> route_template_table \<Rightarrow> (template_plan_error, route_template_proof) outcome" where
  "plan_proof lib plan table =
     route_proof_from_table lib table (template_hash_by_id (tp_templates plan)) (plan_roots plan)"

lemma checked_proof:
  assumes lib: "sil_lib_ok lib" and h: "hashes_well_formed plan"
    and c: "checked_routes lib plan artifact templates families tables proofs"
    and ix: "indexes tr_id (tp_templates plan) templates" and p: "p \<in> set (tp_route_proofs plan)"
  obtains table where "table \<in> set (tp_route_tables plan)" and "rt_id table = rp_table_id p"
    and "plan_proof lib plan table = Ok p"
proof -
  have hash: "hash_lib_ok lib" using lib by (simp add: sil_lib_ok_def)
  obtain table where table: "map_of tables (rp_table_id p) = Some table"
    "verify_route_proof lib p table (map_template_hash_by_id templates) proofs = Ok ()"
    using checked_routesD(5) [OF c p] by (auto simp: check_proof_def and_then_Ok_iff)
  note tables = checked_routesD(1) [OF c] and proofs = checked_routesD(2) [OF c]
  have "route_proof_from_table lib table (map_template_hash_by_id templates) (proof_roots proofs) = Ok p"
    using route_proof_verdict [OF hash indexed_receipts32 [OF ix h]] table(2) by blast
  then have "plan_proof lib plan table = Ok p"
    unfolding plan_proof_def lookup_by_id [OF ix]
    using proof_from_table_cong lookup_roots [OF proofs] by metis
  with indexesD(2) [OF tables table(1)] show ?thesis using that by blast
qed

lemma plan_proof_id:
  "plan_proof lib plan table = Ok p \<Longrightarrow> rp_id p = route_proof_receipt_id (rt_state table) (rt_field table)
     \<and> rp_table_id p = rt_id table"
  by (auto simp: plan_proof_def route_proof_from_table_def Let_def and_then_Ok_iff)

lemma checked_table_proof:
  assumes lib: "sil_lib_ok lib" and h: "hashes_well_formed plan"
    and c: "checked_routes lib plan artifact templates families tables proofs"
    and ix: "indexes tr_id (tp_templates plan) templates" and table: "table \<in> set (tp_route_tables plan)"
  obtains p where "p \<in> set (tp_route_proofs plan)" and "plan_proof lib plan table = Ok p"
    and "map_of proofs (route_proof_receipt_id (rt_state table) (rt_field table)) = Some p"
    and "\<forall>q \<in> set (tp_route_proofs plan). rp_table_id q = rt_id table \<longrightarrow> q = p"
proof -
  note tables = checked_routesD(1) [OF c] and proofs = checked_routesD(2) [OF c]
    and bound = checked_routesD(3) [OF c] and proved = checked_routesD(6) [OF c table]
  have same: "t = t'" if "t \<in> set (tp_route_tables plan)" "t' \<in> set (tp_route_tables plan)" "rt_id t = rt_id t'" for t t'
    using indexesD(3) [OF tables] that unfolding distinct_map by (blast dest: inj_onD)
  obtain p where p: "map_of proofs (route_proof_receipt_id (rt_state table) (rt_field table)) = Some p"
    using proved by (auto simp: check_table_proved_def)
  from indexesD(2) [OF proofs p] have p_in: "p \<in> set (tp_route_proofs plan)"
    and p_id: "rp_id p = route_proof_receipt_id (rt_state table) (rt_field table)" by auto
  obtain t where t: "t \<in> set (tp_route_tables plan)" "plan_proof lib plan t = Ok p"
    using checked_proof [OF lib h c ix p_in] by blast
  have "rt_id t = rt_id table"
    using plan_proof_id [OF t(2)] p_id bind_tables_OkD(1) [OF tables bound] t(1) table receipt_ids_agree by metis
  then have "t = table" using same t(1) table by blast
  with t(2) have pt: "plan_proof lib plan table = Ok p" by simp
  have "q = p" if q: "q \<in> set (tp_route_proofs plan)" "rp_table_id q = rt_id table" for q
  proof -
    obtain t where "t \<in> set (tp_route_tables plan)" "rt_id t = rp_table_id q" "plan_proof lib plan t = Ok q"
      using checked_proof [OF lib h c ix q(1)] by blast
    with same [of t table] table q(2) pt show ?thesis by simp
  qed
  then have "\<forall>q \<in> set (tp_route_proofs plan). rp_table_id q = rt_id table \<longrightarrow> q = p" by blast
  with p_in pt p show ?thesis by (rule that)
qed

text \<open>
  Proof receipts and route tables of an accepted plan correspond one to one: every table
  has exactly one receipt, and it is the one \<^verbatim>\<open>route_template_proof_from_table\<close>
  regenerates from the plan's own template receipts and roots.
\<close>

theorem route_tables_proved:
  assumes "sil_lib_ok lib" and "hashes_well_formed plan"
    and "check_plan_consistency lib plan artifact = Ok ()" and "table \<in> set (tp_route_tables plan)"
  shows "\<exists>p. {q \<in> set (tp_route_proofs plan). rp_table_id q = rt_id table} = {p}
    \<and> plan_proof lib plan table = Ok p"
proof -
  obtain templates families proofs recipes where c: "checked_plan lib plan artifact templates families proofs recipes"
    using check_plan_OkD [OF assms(3)] .
  obtain tables where r: "checked_routes lib plan artifact templates families tables proofs"
    using checked_planD(3) [OF c] by blast
  note ix = checked_planD(1) [OF c]
  show ?thesis
  proof (rule checked_table_proof [OF assms(1,2) r ix assms(4)])
    fix p assume p: "p \<in> set (tp_route_proofs plan)" "plan_proof lib plan table = Ok p"
      "\<forall>q \<in> set (tp_route_proofs plan). rp_table_id q = rt_id table \<longrightarrow> q = p"
    have "rp_table_id p = rt_id table" using plan_proof_id [OF p(2)] by (rule conjunct2)
    then have "{q \<in> set (tp_route_proofs plan). rp_table_id q = rt_id table} = {p}"
      using p(1,3) by blast
    with p(2) show ?thesis by (intro exI [of _ p] conjI)
  qed
qed

text \<open>The compiled template hash of an actor, from the embedded ABI.\<close>

definition abi_hash :: "'ty artifact \<Rightarrow> string \<Rightarrow> byte list option" where
  "abi_hash artifact actor =
     map_option (\<lambda>c. cc_template_hash (sc_compiled c)) (map_of (sil_contracts (art_sil_abi artifact)) actor)"

definition leaf_commits ::
  "'x hash_lib_scheme \<Rightarrow> template_plan \<Rightarrow> 'ty artifact \<Rightarrow> route_template_leaf \<Rightarrow> byte list \<Rightarrow> bool" where
  "leaf_commits lib plan artifact leaf h \<longleftrightarrow>
     (case leaf of
        TemplateLeaf actor _ \<Rightarrow> abi_hash artifact actor = Some h
      | RouteFamilyLeaf family_id _ \<Rightarrow>
          \<exists>family \<in> set (tp_route_families plan). rfm_id family = family_id
            \<and> (\<exists>actors hs. distinct actors \<and> set actors = set (rfm_actors family) - set (rfm_entry_actors family)
                \<and> map (abi_hash artifact) actors = map Some hs \<and> h = merkle_root lib hs))"

lemma template_leaf_hash:
  assumes lib: "sil_lib_ok lib" and c: "checked_plan lib plan artifact templates families proofs recipes"
    and leaf: "leaf_hash lib i (template_hash_by_id (tp_templates plan)) roots (TemplateLeaf actor template_id) = Ok h"
  shows "abi_hash artifact actor = Some h"
proof -
  obtain t where t: "find (\<lambda>t. tr_id t = template_id) (tp_templates plan) = Some t" "tr_actor t = actor"
    "h = tr_sil_template_hash t"
    using leaf by (auto simp: leaf_hash_def template_hash_by_id_def hash_ref_def and_then_Ok_iff split: if_splits)
  have "check_template_receipt lib (art_sil_abi artifact) t = Ok ()"
    using find_SomeD [OF t(1)] checked_planD(4) [OF c] by blast
  from receipt_contract [OF lib this] t(2,3) show ?thesis by (metis abi_hash_def option.map(2))
qed

lemma family_table_hashes:
  assumes lib: "sil_lib_ok lib" and c: "checked_plan lib plan artifact templates families proofs recipes"
    and table: "table_leaf_hashes lib table (template_hash_by_id (tp_templates plan)) roots = Ok hs"
    and flat: "\<forall>e \<in> set (rt_entries table). \<exists>a i. te_leaf e = TemplateLeaf a i"
  shows "map (abi_hash artifact) (template_actors (rt_entries table)) = map Some hs"
proof -
  have "list_all2 (\<lambda>e h. leaf_hash lib (rt_id table) (template_hash_by_id (tp_templates plan)) roots (te_leaf e) = Ok h)
      (rt_entries table) hs"
    using table by (simp add: table_leaf_hashes_def try_map_Ok_iff)
  then show ?thesis using flat
  proof (induction rule: list_all2_induct)
    case (Cons e es h hs)
    from Cons.prems obtain a i where e: "te_leaf e = TemplateLeaf a i" by auto
    with Cons.hyps(1) have "abi_hash artifact a = Some h" using template_leaf_hash [OF lib c] by simp
    with Cons e show ?case by simp
  qed simp
qed

text \<open>
  C20: The roots of an accepted plan commit to compiled code: every leaf hash of a route table
  is either the template hash that the embedded ABI records for the leaf's actor, or the
  Merkle root over the ABI template hashes of the actors of a route family (its entry actors
  aside), each once; no deeper nesting is possible.
\<close>

theorem route_table_commits_abi:
  assumes lib: "sil_lib_ok lib" and h: "hashes_well_formed plan"
    and ok: "check_plan_consistency lib plan artifact = Ok ()" and table: "table \<in> set (tp_route_tables plan)"
  shows "\<exists>hs. plan_leaf_hashes lib plan table = Ok hs
    \<and> list_all2 (\<lambda>e h. leaf_commits lib plan artifact (te_leaf e) h) (rt_entries table) hs"
proof -
  obtain templates families proofs recipes where c: "checked_plan lib plan artifact templates families proofs recipes"
    using check_plan_OkD [OF ok] .
  obtain tables where r: "checked_routes lib plan artifact templates families tables proofs"
    using checked_planD(3) [OF c] by blast
  note ix = checked_planD(1) [OF c] and fams = checked_planD(2) [OF c]
    and tables = checked_routesD(1) [OF r] and proofs = checked_routesD(2) [OF r]
  have hash: "hash_lib_ok lib" using lib by (simp add: sil_lib_ok_def)
  obtain p where p: "plan_proof lib plan table = Ok p" using checked_table_proof [OF lib h r ix table] by blast
  then obtain hs where hs: "plan_leaf_hashes lib plan table = Ok hs"
    by (auto simp: plan_proof_def plan_leaf_hashes_def route_proof_from_table_def and_then_Ok_iff)
  have "leaf_commits lib plan artifact (te_leaf e) x"
    if e: "e \<in> set (rt_entries table)"
      and x: "leaf_hash lib (rt_id table) (template_hash_by_id (tp_templates plan)) (plan_roots plan) (te_leaf e) = Ok x"
    for e x
  proof (cases "te_leaf e")
    case (TemplateLeaf actor i)
    with x show ?thesis using template_leaf_hash [OF lib c] by (simp add: leaf_commits_def)
  next
    case (RouteFamilyLeaf family_id proof_id)
    from check_table_OkD(3) [OF checked_routesD(4) [OF r table] e] obtain f t where f: "map_of families family_id = Some f"
      "map_of tables (rfm_table_id f) = Some t" "proof_id = route_proof_receipt_id (rt_state t) (rt_field t)"
      unfolding RouteFamilyLeaf by (elim check_table_leaf_FamilyD)
    have f_in: "f \<in> set (tp_route_families plan)" "rfm_id f = family_id" using indexesD(2) [OF fams f(1)] by auto
    have t_in: "t \<in> set (tp_route_tables plan)" using indexesD(2) [OF tables f(2)] by auto
    obtain q where q: "plan_proof lib plan t = Ok q" "map_of proofs proof_id = Some q"
      using checked_table_proof [OF lib h r ix t_in] f(3) by metis
    obtain fhs where fhs: "plan_leaf_hashes lib plan t = Ok fhs" "rp_root_hex q = encode_hex lib (merkle_root lib fhs)"
      using q(1) by (auto simp: plan_proof_def plan_leaf_hashes_def route_proof_from_table_def Let_def and_then_Ok_iff
          merkle_root_hex_layers)
    have r32: "receipts32 (template_hash_by_id (tp_templates plan))"
      using indexed_receipts32 [OF ix h] lookup_by_id [OF ix] by simp
    have "length (merkle_root lib fhs) = 32"
      using fhs(1) r32 by (intro merkle_root_length [OF hash] table_leaf_hashes_OkD(2))
        (simp_all add: plan_leaf_hashes_def)
    moreover have "map_of (plan_roots plan) proof_id = Some (rp_root_hex q)"
      using lookup_roots [OF proofs, of proof_id] q(2) by (simp add: map_of_map [of rp_root_hex proofs])
    ultimately have "x = merkle_root lib fhs"
      using x hash by (simp add: RouteFamilyLeaf leaf_hash_def fhs(2))
    moreover have "check_family_table tables f = Ok ()" by (rule checked_routesD(7) [OF r f_in(1)])
    ultimately show ?thesis
      using family_table_hashes [OF lib c fhs(1) [unfolded plan_leaf_hashes_def]] f(2) f_in
      by (elim check_family_table_OkD) (auto simp: leaf_commits_def RouteFamilyLeaf)
  qed
  moreover have "list_all2 (\<lambda>e x. leaf_hash lib (rt_id table) (template_hash_by_id (tp_templates plan)) (plan_roots plan)
      (te_leaf e) = Ok x) (rt_entries table) hs"
    using hs by (simp add: plan_leaf_hashes_def table_leaf_hashes_def try_map_Ok_iff)
  ultimately have "list_all2 (\<lambda>e h. leaf_commits lib plan artifact (te_leaf e) h) (rt_entries table) hs"
    by (rule list.rel_mono_strong [rotated])
  with hs show ?thesis by blast
qed

text \<open>The value a plan fixes for a field has the length of the field's ABI type.\<close>

lemma template_hash_bytes_length:
  assumes "hashes_well_formed plan" "sil_template_hash_bytes plan actor = Ok v" shows "length v = 32"
proof -
  obtain t where "find (\<lambda>t. tr_actor t = actor) (tp_templates plan) = Some t" "v = tr_sil_template_hash t"
    using assms(2) by (auto simp: sil_template_hash_bytes_def template_hash_by_actor_def hash_ref_def and_then_Ok_iff)
  with assms(1) find_SomeD show ?thesis by fastforce
qed

lemma template_table_length:
  assumes "hashes_well_formed plan"
    and "try_fold (\<lambda>table c. and_then (sil_template_hash_bytes plan c) (\<lambda>h. Ok (table @ h))) bs cs = Ok v"
  shows "length v = length bs + length cs * 32"
  using assms(2)
proof (induction cs arbitrary: bs)
  case (Cons c cs)
  then obtain h where "sil_template_hash_bytes plan c = Ok h"
    "try_fold (\<lambda>table c. and_then (sil_template_hash_bytes plan c) (\<lambda>h. Ok (table @ h))) (bs @ h) cs = Ok v"
    by (auto simp: and_then_Ok_iff)
  with Cons.IH [OF this(2)] template_hash_bytes_length [OF assms(1)] show ?case by simp
qed simp

text \<open>
  C23: The value that an accepted plan fixes for a compiler-owned runtime field has exactly
  the number of bytes of the field's ABI type: 32 for a template hash, a family digest and a
  Merkle root, 32 for each contract of a template table.
\<close>

theorem fixed_context_values_typed:
  assumes lib: "sil_lib_ok lib" and h: "hashes_well_formed plan"
    and ok: "check_plan_consistency lib plan artifact = Ok ()"
    and rs: "rs \<in> set (tp_runtime_states plan)" and field: "field \<in> set (rsp_field_roles rs)"
    and v: "fixed_runtime_context_value lib plan rs field = Ok v"
  shows "\<exists>contract. map_of (sil_contracts (art_sil_abi artifact)) (rsp_contract rs) = Some contract
    \<and> \<lparr>rf_name = fr_name field, rf_ty = sl_fixed_bytes lib (length v)\<rparr> \<in> set (rs_fields (sc_runtime_state contract))"
proof -
  obtain templates families proofs recipes where c: "checked_plan lib plan artifact templates families proofs recipes"
    using check_plan_OkD [OF ok] .
  obtain tables where r: "checked_routes lib plan artifact templates families tables proofs"
    using checked_planD(3) [OF c] by blast
  have hash: "hash_lib_ok lib" using lib by (simp add: sil_lib_ok_def)
  obtain contract sf b where b: "map_of (sil_contracts (art_sil_abi artifact)) (rsp_contract rs) = Some contract"
    "map_of (sil_fields_by_name contract) (fr_name field) = Some sf"
    "bind_field_role lib families tables rs sf field = Ok b"
    using bind_tables_OkD(2) [OF checked_routesD(1,3) [OF r] rs field] by blast
  have "rf_ty sf = sl_fixed_bytes lib (length v)"
  proof (cases "fr_role field")
    case (TemplateRole actor)
    then have "length v = 32" using v template_hash_bytes_length [OF h] by (simp add: fixed_runtime_context_value_def)
    with TemplateRole b(3) show ?thesis by (simp add: bind_field_role_def split: if_splits)
  next
    case (TemplateTableRole contracts)
    then have "length v = length contracts * 32"
      using v template_table_length [OF h, of "[]" contracts v] by (simp add: fixed_runtime_context_value_def)
    with TemplateTableRole b(3) show ?thesis
      by (auto simp: bind_field_role_def and_then_Ok_iff elim: bind_table_OkD [OF checked_routesD(1) [OF r]])
  next
    case (TemplateDigestRole i)
    then have "length v = 32"
      using v hash_lib_okD(1) [OF hash] by (auto simp: fixed_runtime_context_value_def Let_def and_then_Ok_iff)
    with TemplateDigestRole b(3) show ?thesis by (simp add: bind_field_role_def split: if_splits)
  next
    case (TemplateRootRole leaves)
    then have "length v = 32"
      using v decode_hash_hex_Ok_length by (fastforce simp: fixed_runtime_context_value_def Let_def and_then_Ok_iff)
    with TemplateRootRole b(3) show ?thesis
      by (auto simp: bind_field_role_def and_then_Ok_iff elim: bind_table_OkD [OF checked_routesD(1) [OF r]])
  qed
  moreover have "(fr_name field, sf) \<in> set (map (\<lambda>f. (rf_name f, f)) (rs_fields (sc_runtime_state contract)))"
    using collect_map_SomeD [OF b(2) [unfolded sil_fields_by_name_def]] .
  ultimately have "sf = \<lparr>rf_name = fr_name field, rf_ty = sl_fixed_bytes lib (length v)\<rparr>"
    "sf \<in> set (rs_fields (sc_runtime_state contract))" by auto
  with b(1) show ?thesis by blast
qed

text \<open>How an entry's hidden parameters and routes resolve.\<close>

definition param_resolves :: "template_plan \<Rightarrow> 'ty hidden_param \<Rightarrow> bool" where
  "param_resolves plan p \<longleftrightarrow>
     (\<exists>r \<in> set (tp_witness_recipes plan). wr_id r = hp_recipe_id p \<and> wr_param r = hp_name p
        \<and> wr_subject r = hp_subject p \<and> wr_purpose r = hp_purpose p \<and> wr_route_proof_id r = hp_route_proof_id p)"

definition route_resolves :: "template_plan \<Rightarrow> 'ty artifact \<Rightarrow> route_decl \<Rightarrow> bool" where
  "route_resolves plan artifact route \<longleftrightarrow>
     (case ro_successor route of
        ExactSelf \<Rightarrow> True
      | Constructed actor template_id _ \<Rightarrow>
          \<exists>t \<in> set (tp_templates plan). tr_id t = template_id \<and> tr_actor t = actor
            \<and> abi_hash artifact actor = Some (tr_sil_template_hash t))"

text \<open>
  In an accepted artifact every entry can be supplied and routed: its spawns satisfy the
  spawn contract, each hidden parameter has a recipe of the plan that agrees with it, every
  recipe its route plan asks for is exposed as one of its hidden parameters, and every
  successor it constructs resolves to a receipt of that actor whose hash is the one of the
  embedded ABI.
\<close>

theorem entries_resolve:
  assumes lib: "sil_lib_ok lib" and ok: "check_plan_consistency lib plan artifact = Ok ()"
    and actor: "actor \<in> set (ap_actors (art_argent artifact))" and entry: "entry \<in> set (ac_entries actor)"
  shows "spawns_ok entry
    \<and> list_all (param_resolves plan) (en_hidden_params entry)
    \<and> set (erp_witness_recipe_ids (en_route_plan entry)) \<subseteq> hp_recipe_id ` set (en_hidden_params entry)
    \<and> list_all (route_resolves plan artifact) (en_routes entry)"
proof -
  obtain templates families proofs recipes where c: "checked_plan lib plan artifact templates families proofs recipes"
    using check_plan_OkD [OF ok] .
  note recipes = checked_planD(5) [OF c] and templates = checked_planD(1) [OF c]
  let ?id = "ac_name actor @ ''::'' @ en_name entry"
  have "check_entry templates recipes (ac_name actor) entry = Ok ()"
    using checked_planD(6) [OF c actor] entry by (simp add: check_actor_entries_def outcome_simps)
  then have e: "verify_entry_spawns ?id entry = Ok ()"
    "\<forall>p \<in> set (en_hidden_params entry). check_hidden_param recipes ?id p = Ok ()"
    "verify_route_recipe_ids ?id (erp_witness_recipe_ids (en_route_plan entry))
       (set (map hp_recipe_id (en_hidden_params entry))) recipes = Ok ()"
    "\<forall>route \<in> set (en_routes entry). check_route templates ?id route = Ok ()"
    by (simp_all only: check_entry_def Let_def and_then_Ok_iff try_each_Ok_iff) auto
  have "param_resolves plan p" if p: "p \<in> set (en_hidden_params entry)" for p
  proof -
    obtain r where "map_of recipes (hp_recipe_id p) = Some r" "wr_param r = hp_name p" "wr_subject r = hp_subject p"
      "wr_purpose r = hp_purpose p" "wr_route_proof_id r = hp_route_proof_id p"
      using e(2) p by (auto simp: check_hidden_param_def and_then_Ok_iff guard_Ok_iff)
    with indexesD(2) [OF recipes this(1)] show ?thesis unfolding param_resolves_def by blast
  qed
  moreover have "route_resolves plan artifact route" if route: "route \<in> set (en_routes entry)" for route
  proof (cases "ro_successor route")
    case (Constructed a i x)
    have "check_route templates ?id route = Ok ()" using e(4) route by blast
    with Constructed obtain t where t: "map_of templates i = Some t" "tr_actor t = a"
      by (auto simp: check_route_def verify_route_template_def and_then_Ok_iff)
    from indexesD(2) [OF templates t(1)] have t_in: "t \<in> set (tp_templates plan)" "tr_id t = i" by auto
    obtain contract where "map_of (sil_contracts (art_sil_abi artifact)) (tr_contract t) = Some contract"
      "tr_actor t = tr_contract t" "tr_sil_template_hash t = cc_template_hash (sc_compiled contract)"
      using receipt_contract [OF lib checked_planD(4) [OF c t_in(1)]] .
    then have "abi_hash artifact a = Some (tr_sil_template_hash t)" using t(2) by (simp add: abi_hash_def)
    with t_in t(2) Constructed show ?thesis by (auto simp: route_resolves_def)
  qed (simp add: route_resolves_def)
  moreover have "set (erp_witness_recipe_ids (en_route_plan entry)) \<subseteq> hp_recipe_id ` set (en_hidden_params entry)"
    using e(3) by (auto simp: verify_route_recipe_ids_def outcome_simps)
  ultimately show ?thesis using e(1) by (simp add: verify_entry_spawns_Ok_iff list_all_iff)
qed

section \<open>An accepted example\<close>

text \<open>
  Two actors of one state form a route family; actor \<open>A\<close> keeps the root of the family's table
  and the root of a table with a template leaf and a family leaf.
\<close>

definition demo_tables :: "route_template_table list" where
  "demo_tables =
     [\<lparr>rt_id = ''route_table/S/kids'', rt_state = ''S'', rt_field = ''kids'', rt_byte_len = 64, rt_entries =
         [\<lparr>te_index = 0, te_offset = 0, te_leaf = TemplateLeaf ''A'' ''a''\<rparr>,
          \<lparr>te_index = 1, te_offset = 32, te_leaf = TemplateLeaf ''B'' ''b''\<rparr>]\<rparr>,
      \<lparr>rt_id = ''route_table/S/main'', rt_state = ''S'', rt_field = ''main'', rt_byte_len = 64, rt_entries =
         [\<lparr>te_index = 0, te_offset = 0, te_leaf = TemplateLeaf ''A'' ''a''\<rparr>,
          \<lparr>te_index = 1, te_offset = 32, te_leaf = RouteFamilyLeaf ''fam'' ''route_proof/S/kids''\<rparr>]\<rparr>]"

definition demo_root :: "byte list list \<Rightarrow> byte list" where
  "demo_root hs = merkle_root demo_sil_lib hs"

definition demo_kids :: "byte list" where
  "demo_kids = demo_root [demo_leaf 1, demo_leaf 2]"

definition demo_main :: "byte list" where
  "demo_main = demo_root [demo_leaf 1, demo_kids]"

definition demo_proof :: "string \<Rightarrow> route_template_leaf \<Rightarrow> byte list \<Rightarrow> route_template_proof" where
  "demo_proof field leaf h =
     \<lparr>rp_id = ''route_proof/S/'' @ field, rp_table_id = ''route_table/S/'' @ field, rp_state = ''S'', rp_field = field,
      rp_root_hex = encode_hex demo_sil_lib (demo_root [demo_leaf 1, h]), rp_leaves =
        [\<lparr>pl_index = 0, pl_leaf = TemplateLeaf ''A'' ''a'', pl_hash_hex = encode_hex demo_sil_lib (demo_leaf 1),
          pl_proof = [\<lparr>ps_side = SideRight, ps_hash_hex = encode_hex demo_sil_lib h\<rparr>]\<rparr>,
         \<lparr>pl_index = 1, pl_leaf = leaf, pl_hash_hex = encode_hex demo_sil_lib h,
          pl_proof = [\<lparr>ps_side = SideLeft, ps_hash_hex = encode_hex demo_sil_lib (demo_leaf 1)\<rparr>]\<rparr>]\<rparr>"

definition demo_receipt :: "string \<Rightarrow> string \<Rightarrow> byte list \<Rightarrow> string list \<Rightarrow> byte list \<Rightarrow> byte \<Rightarrow> template_receipt" where
  "demo_receipt i actor h context_fields script tail =
     \<lparr>tr_id = i, tr_actor = actor, tr_contract = actor, tr_symbol = i, tr_sil_template_hash = h,
      tr_actor_type_handle = \<lparr>ah_state = ''S'', ah_context_fields = context_fields,
        ah_template = \<lparr>at_prefix = 7 # script, at_suffix = [tail],
          at_hash = sl_template_hash demo_sil_lib (7 # script) [tail]\<rparr>\<rparr>\<rparr>"

definition demo_plan :: template_plan where
  "demo_plan =
     \<lparr>tp_templates = [demo_receipt ''a'' ''A'' (demo_leaf 1) [''kids'', ''main''] (demo_kids @ demo_main) 9,
        demo_receipt ''b'' ''B'' (demo_leaf 2) [] [] 8],
      tp_runtime_states = [\<lparr>rsp_contract = ''A'', rsp_source = ''S'', rsp_field_roles =
        [\<lparr>fr_name = ''kids'', fr_role = TemplateRootRole [ContractLeaf ''A'', ContractLeaf ''B'']\<rparr>,
         \<lparr>fr_name = ''main'', fr_role = TemplateRootRole [ContractLeaf ''A'', DigestLeaf ''fam'']\<rparr>]\<rparr>],
      tp_route_tables = demo_tables,
      tp_route_proofs = [demo_proof ''kids'' (TemplateLeaf ''B'' ''b'') (demo_leaf 2),
        demo_proof ''main'' (RouteFamilyLeaf ''fam'' ''route_proof/S/kids'') demo_kids],
      tp_route_families = [\<lparr>rfm_id = ''fam'', rfm_state = ''S'', rfm_representative_actor = ''A'',
        rfm_entry_actors = [], rfm_table_id = ''route_table/S/kids'', rfm_actors = [''A'', ''B'']\<rparr>],
      tp_witness_recipes = [\<lparr>wr_id = ''r'', wr_template_id = Some ''b'', wr_subject = SubjectActor ''B'',
        wr_param = ''b_prefix'', wr_purpose = TemplatePrefixBytes, wr_route_proof_id = None\<rparr>]\<rparr>"

definition demo_contract :: "nat runtime_field list \<Rightarrow> byte list \<Rightarrow> byte \<Rightarrow> nat sil_contract" where
  "demo_contract runtime_fields h tail =
     \<lparr>sc_runtime_state = \<lparr>rs_source = ''S'', rs_fields = runtime_fields @ [\<lparr>rf_name = ''n'', rf_ty = 8\<rparr>]\<rparr>,
      sc_compiled = \<lparr>cc_bytecode = [7, 0, 0, tail], cc_template_hash = h,
        cc_state_span = \<lparr>span_offset = 1, span_len = 2\<rparr>\<rparr>\<rparr>"

definition demo_entry :: "nat entry_decl" where
  "demo_entry = (plain_entry ''go'')
     \<lparr>en_route_plan := \<lparr>erp_active_input = None, erp_leader_input = None, erp_consumes = [], erp_outputs = [],
        erp_witness_recipe_ids = [''r'']\<rparr>,
      en_hidden_params := [\<lparr>hp_recipe_id = ''r'', hp_name = ''b_prefix'', hp_ty = 0, hp_subject = SubjectActor ''B'',
        hp_purpose = TemplatePrefixBytes, hp_route_proof_id = None\<rparr>],
      en_routes := [\<lparr>ro_output = ''next'', ro_successor = Constructed ''B'' ''b'' ''s''\<rparr>]\<rparr>"

definition demo_artifact :: "nat artifact" where
  "demo_artifact =
     (let a = plain_artifact [plain_actor ''A'' ''S'' [demo_entry], plain_actor ''B'' ''S'' []]
        [(''A'', demo_contract [\<lparr>rf_name = ''kids'', rf_ty = 32\<rparr>, \<lparr>rf_name = ''main'', rf_ty = 32\<rparr>] (demo_leaf 1) 9),
         (''B'', demo_contract [] (demo_leaf 2) 8)] demo_plan in
      a\<lparr>art_argent := (art_argent a)
        \<lparr>ap_templates := [\<lparr>tf_id = ''a'', tf_actor = ''A'', tf_symbol = ''a''\<rparr>, \<lparr>tf_id = ''b'', tf_actor = ''B'', tf_symbol = ''b''\<rparr>],
         ap_states := [\<lparr>as_name = ''S'', as_fields =
           [\<lparr>af_name = ''n'', af_ty = 8, af_source_type = None, af_virtual_slot = False\<rparr>]\<rparr>]\<rparr>\<rparr>)"

lemma demo_plan_accepted: "check_plan_consistency demo_sil_lib demo_plan demo_artifact = Ok ()"
  by code_simp

lemma demo_hashes: "hashes_well_formed demo_plan"
  by (simp add: demo_plan_def demo_receipt_def demo_leaf_def)

lemma plan_check_never_panics_witness: "check_plan_consistency demo_sil_lib demo_plan demo_artifact \<noteq> Panic"
  by (rule plan_check_never_panics [OF demo_sil_lib_ok demo_hashes])

lemma route_tables_proved_witness:
  "\<exists>p. {q \<in> set (tp_route_proofs demo_plan). rp_table_id q = ''route_table/S/kids''} = {p}
    \<and> plan_proof demo_sil_lib demo_plan (hd demo_tables) = Ok p"
  using route_tables_proved [OF demo_sil_lib_ok demo_hashes demo_plan_accepted, of "hd demo_tables"]
  by (simp add: demo_plan_def demo_tables_def)

lemma route_table_commits_abi_witness:
  "\<exists>hs. plan_leaf_hashes demo_sil_lib demo_plan (last demo_tables) = Ok hs
    \<and> list_all2 (\<lambda>e h. leaf_commits demo_sil_lib demo_plan demo_artifact (te_leaf e) h) (rt_entries (last demo_tables)) hs"
  by (rule route_table_commits_abi [OF demo_sil_lib_ok demo_hashes demo_plan_accepted])
    (simp add: demo_plan_def demo_tables_def)

lemma fixed_context_values_typed_witness:
  "\<exists>contract. map_of (sil_contracts (art_sil_abi demo_artifact)) ''A'' = Some contract
    \<and> \<lparr>rf_name = ''main'', rf_ty = 32\<rparr> \<in> set (rs_fields (sc_runtime_state contract))"
proof -
  let ?rs = "hd (tp_runtime_states demo_plan)" and ?field = "last (rsp_field_roles (hd (tp_runtime_states demo_plan)))"
  have in_plan: "?rs \<in> set (tp_runtime_states demo_plan)" "?field \<in> set (rsp_field_roles ?rs)"
    and names: "rsp_contract ?rs = ''A''" "fr_name ?field = ''main''" by (simp_all add: demo_plan_def)
  have "fixed_runtime_context_value demo_sil_lib demo_plan ?rs ?field = Ok demo_main" by code_simp
  moreover have "sl_fixed_bytes demo_sil_lib (length demo_main) = 32" by code_simp
  ultimately show ?thesis
    using fixed_context_values_typed [OF demo_sil_lib_ok demo_hashes demo_plan_accepted in_plan] names by simp
qed

lemma entries_resolve_witness:
  "spawns_ok demo_entry \<and> list_all (param_resolves demo_plan) (en_hidden_params demo_entry)
    \<and> set [''r''] \<subseteq> hp_recipe_id ` set (en_hidden_params demo_entry)
    \<and> list_all (route_resolves demo_plan demo_artifact) (en_routes demo_entry)"
proof -
  have "plain_actor ''A'' ''S'' [demo_entry] \<in> set (ap_actors (art_argent demo_artifact))"
    by (simp add: demo_artifact_def plain_artifact_def Let_def)
  from entries_resolve [OF demo_sil_lib_ok demo_plan_accepted this, of demo_entry]
  show ?thesis by (simp add: plain_actor_def) (simp add: demo_entry_def)
qed

end
