(* ===== verification/Artifact_Check.thy ===== *)
theory Artifact_Check
  imports Plan_Check
begin

text \<open>
  The consistency check of a whole artifact and its identity (\<^verbatim>\<open>Artifact::check_consistency\<close>,
  \<^verbatim>\<open>computed_id_hex\<close>, \<^verbatim>\<open>verify_id\<close> and \<^verbatim>\<open>hash_json\<close> of
  \<^verbatim>\<open>crates/argent-artifact/src/lib.rs\<close>). JSON serialisation, blake2b and the checks of the
  Silverscript ABI crate are parameters.
\<close>

section \<open>Parameters and errors\<close>

record ('ty, 'val) artifact_lib = "('ty, 'val) sil_lib" +
  al_to_json :: "'ty artifact \<Rightarrow> byte list option"
  al_blake2b :: "byte list \<Rightarrow> byte list"
  al_check_sil_schema :: "'ty sil_abi \<Rightarrow> (string, unit) outcome"
  al_check_sil_abi :: "'ty sil_abi \<Rightarrow> (string, unit) outcome"

definition artifact_lib_ok :: "('ty, 'val, 'x) artifact_lib_scheme \<Rightarrow> bool" where
  "artifact_lib_ok lib \<longleftrightarrow> sil_lib_ok lib
     \<and> (\<forall>abi. al_check_sil_schema lib abi \<noteq> Panic \<and> al_check_sil_abi lib abi \<noteq> Panic)"

datatype identity_error =
    MissingArtifactId string
  | ArtifactIdMismatch string string string
  | SerializeFailed string

datatype verification_error =
    VersionError nat nat
  | SilVersionError string
  | CardinalityError cardinality_error
  | SilAbiError string
  | TemplateFramesError frame_error
  | TemplatePlanFailed template_plan_error
  | IdentityError identity_error

definition artifact_schema_version :: nat where
  "artifact_schema_version = 1"

section \<open>Identity\<close>

definition ascii :: "string \<Rightarrow> byte list" where
  "ascii s = map (\<lambda>c. word_of_int (of_char c)) s"

definition hash_json ::
  "('ty, 'val, 'x) artifact_lib_scheme \<Rightarrow> string \<Rightarrow> 'ty artifact \<Rightarrow> (identity_error, string) outcome" where
  "hash_json lib domain v =
     and_then (ok_or (al_to_json lib v) (SerializeFailed domain)) (\<lambda>json.
       Ok (encode_hex lib (al_blake2b lib (ascii domain @ json))))"

text \<open>The id and the informational source paths are cleared before hashing.\<close>

definition computed_id_hex :: "('ty, 'val, 'x) artifact_lib_scheme \<Rightarrow> 'ty artifact \<Rightarrow> (identity_error, string) outcome" where
  "computed_id_hex lib a =
     hash_json lib ''argent/artifact/v1'' (a\<lparr>art_id := [], art_root := [], art_modules := []\<rparr>)"

definition verify_id :: "('ty, 'val, 'x) artifact_lib_scheme \<Rightarrow> 'ty artifact \<Rightarrow> (identity_error, unit) outcome" where
  "verify_id lib a =
     (if art_id a = [] then Err (MissingArtifactId (art_app a))
      else and_then (computed_id_hex lib a) (\<lambda>expected.
        if art_id a \<noteq> expected then Err (ArtifactIdMismatch (art_app a) expected (art_id a)) else Ok ()))"

section \<open>The whole check\<close>

definition check_schema_version ::
  "('ty, 'val, 'x) artifact_lib_scheme \<Rightarrow> 'ty artifact \<Rightarrow> (verification_error, unit) outcome" where
  "check_schema_version lib a =
     (if art_schema_version a \<noteq> artifact_schema_version
      then Err (VersionError artifact_schema_version (art_schema_version a))
      else map_err SilVersionError (al_check_sil_schema lib (art_sil_abi a)))"

definition check_consistency ::
  "('ty, 'val, 'x) artifact_lib_scheme \<Rightarrow> 'ty artifact \<Rightarrow> (verification_error, unit) outcome" where
  "check_consistency lib a =
     and_then (check_schema_version lib a) (\<lambda>_.
     and_then (map_err SilAbiError (al_check_sil_abi lib (art_sil_abi a))) (\<lambda>_.
     and_then (map_err TemplateFramesError (verify_frames lib a)) (\<lambda>_.
     and_then (map_err TemplatePlanFailed (check_plan_consistency lib (ap_template_plan (art_argent a)) a)) (\<lambda>_.
     and_then (map_err CardinalityError (check_cardinality_consistency a)) (\<lambda>_.
       map_err IdentityError (verify_id lib a))))))"

lemma verify_id_not_Panic [simp]: "verify_id lib a \<noteq> Panic"
  by (simp add: verify_id_def computed_id_hex_def hash_json_def and_then_Panic_iff)


text \<open>
  C25: Sealing: storing the computed id in an artifact makes its identity check succeed, and
  the check keeps succeeding when only the root and module paths change, so an id does not
  depend on the checkout.
\<close>

theorem seal_artifact_roundtrip:
  assumes "computed_id_hex lib a = Ok h" and "h \<noteq> []"
  shows "verify_id lib (a\<lparr>art_id := h, art_root := r, art_modules := ms\<rparr>) = Ok ()"
  using assms by (simp add: verify_id_def computed_id_hex_def)

text \<open>
  An id binds the content: two artifacts that verify under the same id have, with their
  ids and paths cleared, the same JSON text, or their two texts are a collision of blake2b
  under the artifact domain.
\<close>

theorem artifact_id_binds:
  assumes lib: "hash_lib_ok lib" and "verify_id lib a = Ok ()" and "verify_id lib b = Ok ()" and "art_id a = art_id b"
  shows "\<exists>ja jb. al_to_json lib (a\<lparr>art_id := [], art_root := [], art_modules := []\<rparr>) = Some ja
    \<and> al_to_json lib (b\<lparr>art_id := [], art_root := [], art_modules := []\<rparr>) = Some jb
    \<and> (ja = jb \<or> al_blake2b lib (ascii ''argent/artifact/v1'' @ ja) = al_blake2b lib (ascii ''argent/artifact/v1'' @ jb))"
proof -
  have "\<exists>j. al_to_json lib (x\<lparr>art_id := [], art_root := [], art_modules := []\<rparr>) = Some j
      \<and> art_id x = encode_hex lib (al_blake2b lib (ascii ''argent/artifact/v1'' @ j))"
    if "verify_id lib x = Ok ()" for x :: "'a artifact"
    using that by (auto simp: verify_id_def computed_id_hex_def hash_json_def and_then_Ok_iff guard_Ok_iff split: if_splits)
  from this [OF assms(2)] this [OF assms(3)] assms(4) show ?thesis using lib by force
qed

section \<open>A sealed artifact\<close>

definition demo_artifact_lib :: "(nat, byte list) artifact_lib" where
  "demo_artifact_lib = sil_lib.extend demo_sil_lib
     \<lparr>al_to_json = (\<lambda>a. Some (ascii (art_app a))), al_blake2b = (\<lambda>bs. take 32 (bs @ replicate 32 0)),
      al_check_sil_schema = (\<lambda>_. Ok ()), al_check_sil_abi = (\<lambda>_. Ok ())\<rparr>"

lemma demo_artifact_lib_ok: "artifact_lib_ok demo_artifact_lib" "hash_lib_ok demo_artifact_lib"
  using demo_sil_lib_ok
  by (simp_all add: artifact_lib_ok_def demo_artifact_lib_def sil_lib_ok_def hash_lib_ok_def sil_lib.defs)

definition demo_id :: string where
  "demo_id = encode_hex demo_artifact_lib (al_blake2b demo_artifact_lib (ascii ''argent/artifact/v1'' @ ascii ''Tiny''))"

lemma demo_computed_id: "computed_id_hex demo_artifact_lib demo_artifact = Ok demo_id"
  by (simp add: computed_id_hex_def hash_json_def demo_artifact_lib_def demo_id_def demo_artifact_def plain_artifact_def
      sil_lib.defs Let_def)

lemma demo_id_nonempty: "demo_id \<noteq> []"
  by code_simp


lemma seal_artifact_roundtrip_witness:
  "verify_id demo_artifact_lib (demo_artifact\<lparr>art_id := demo_id, art_root := ''other.ag'', art_modules := [''m'']\<rparr>) = Ok ()"
  by (rule seal_artifact_roundtrip [OF demo_computed_id demo_id_nonempty])

lemma artifact_id_binds_witness:
  "\<exists>j. al_to_json demo_artifact_lib (demo_artifact\<lparr>art_id := [], art_root := [], art_modules := []\<rparr>) = Some j"
proof -
  have "verify_id demo_artifact_lib (demo_artifact\<lparr>art_id := demo_id, art_root := r, art_modules := []\<rparr>) = Ok ()" for r
    using demo_computed_id demo_id_nonempty by (simp add: verify_id_def computed_id_hex_def)
  from artifact_id_binds [OF demo_artifact_lib_ok(2) this [of "''a.ag''"] this [of "''b.ag''"]] show ?thesis by auto
qed

end
