(* ===== verification/Naming.thy ===== *)
theory Naming
  imports Argent_Prelude
begin

text \<open>
  Naming helpers: \<^verbatim>\<open>is_identifier\<close> and \<^verbatim>\<open>to_snake\<close> of
  \<^verbatim>\<open>src/compiler/naming.rs\<close>, and the app alias of the runtime
  (\<^verbatim>\<open>artifact_app_alias\<close> and its own \<^verbatim>\<open>to_snake\<close> in
  \<^verbatim>\<open>crates/argent-runtime/src/lib.rs\<close>). The loops over \<^verbatim>\<open>chars\<close> with an index become
  recursions that carry the previous character; a character outside ASCII is a run of bytes
  above 127, every one of which takes the branch the character takes.
\<close>

section \<open>Character classes\<close>

definition code :: "char \<Rightarrow> nat" where
  "code c = of_char c"

definition is_ascii_uppercase :: "char \<Rightarrow> bool" where
  "is_ascii_uppercase c \<longleftrightarrow> 65 \<le> code c \<and> code c \<le> 90"

definition is_ascii_lowercase :: "char \<Rightarrow> bool" where
  "is_ascii_lowercase c \<longleftrightarrow> 97 \<le> code c \<and> code c \<le> 122"

definition is_ascii_digit :: "char \<Rightarrow> bool" where
  "is_ascii_digit c \<longleftrightarrow> 48 \<le> code c \<and> code c \<le> 57"

definition is_ascii_alphabetic :: "char \<Rightarrow> bool" where
  "is_ascii_alphabetic c \<longleftrightarrow> is_ascii_uppercase c \<or> is_ascii_lowercase c"

definition is_ascii_alphanumeric :: "char \<Rightarrow> bool" where
  "is_ascii_alphanumeric c \<longleftrightarrow> is_ascii_alphabetic c \<or> is_ascii_digit c"

definition to_ascii_lowercase :: "char \<Rightarrow> char" where
  "to_ascii_lowercase c = (if is_ascii_uppercase c then char_of (code c + 32) else c)"

abbreviation underscore :: char where
  "underscore \<equiv> CHR ''_''"

lemmas char_classes = is_ascii_uppercase_def is_ascii_lowercase_def is_ascii_digit_def
  is_ascii_alphabetic_def is_ascii_alphanumeric_def

lemma code_underscore [simp]: "code underscore = 95"
  by (simp add: code_def)

lemma underscore_class [simp]:
  "\<not> is_ascii_uppercase underscore" "\<not> is_ascii_lowercase underscore" "\<not> is_ascii_digit underscore"
  "\<not> is_ascii_alphanumeric underscore"
  by (simp_all add: char_classes)

lemma code_lower: "code (to_ascii_lowercase c) = (if is_ascii_uppercase c then code c + 32 else code c)"
  by (auto simp: to_ascii_lowercase_def is_ascii_uppercase_def code_def)

lemma lower_class [simp]:
  "is_ascii_uppercase c \<Longrightarrow> is_ascii_lowercase (to_ascii_lowercase c)"
  "is_ascii_uppercase c \<Longrightarrow> to_ascii_lowercase c \<noteq> underscore"
  "\<not> is_ascii_uppercase c \<Longrightarrow> to_ascii_lowercase c = c"
  "\<not> is_ascii_uppercase (to_ascii_lowercase c)"
proof -
  show "is_ascii_uppercase c \<Longrightarrow> to_ascii_lowercase c \<noteq> underscore"
    using code_lower [of c] by (auto simp: is_ascii_uppercase_def)
  show "\<not> is_ascii_uppercase c \<Longrightarrow> to_ascii_lowercase c = c"
    by (simp add: to_ascii_lowercase_def)
qed (auto simp: code_lower char_classes)

lemma lower_not_upper [simp]: "is_ascii_lowercase c \<Longrightarrow> \<not> is_ascii_uppercase c"
  by (simp add: char_classes)

section \<open>The compiler's names\<close>

definition is_identifier :: "string \<Rightarrow> bool" where
  "is_identifier input = (case input of
      [] \<Rightarrow> False
    | first # rest \<Rightarrow> (is_ascii_alphabetic first \<or> first = underscore)
        \<and> list_all (\<lambda>ch. is_ascii_alphanumeric ch \<or> ch = underscore) rest)"

definition next_lower :: "string \<Rightarrow> bool" where
  "next_lower rest = (case rest of [] \<Rightarrow> False | next # _ \<Rightarrow> is_ascii_lowercase next)"

definition ends_sep :: "string \<Rightarrow> bool" where
  "ends_sep out \<longleftrightarrow> out \<noteq> [] \<and> last out = underscore"

definition starts_new_word :: "char option \<Rightarrow> string \<Rightarrow> bool" where
  "starts_new_word prev rest = (case prev of
      None \<Rightarrow> False
    | Some p \<Rightarrow> p \<noteq> underscore \<and> (is_ascii_lowercase p \<or> is_ascii_digit p \<or> next_lower rest))"

fun to_snake_loop :: "char option \<Rightarrow> string \<Rightarrow> string \<Rightarrow> string" where
  "to_snake_loop prev [] out = out"
| "to_snake_loop prev (ch # rest) out = to_snake_loop (Some ch) rest
     (if is_ascii_uppercase ch
      then (if starts_new_word prev rest \<and> \<not> ends_sep out then out @ [underscore] else out) @ [to_ascii_lowercase ch]
      else out @ [ch])"

definition to_snake :: "string \<Rightarrow> string" where
  "to_snake input = to_snake_loop None input []"

section \<open>The alias of an app\<close>

definition insert_sep :: "char option \<Rightarrow> string \<Rightarrow> string \<Rightarrow> bool" where
  "insert_sep prev rest out \<longleftrightarrow> \<not> ends_sep out \<and> (case prev of
      None \<Rightarrow> False
    | Some p \<Rightarrow> is_ascii_lowercase p \<or> is_ascii_digit p \<or> next_lower rest)"

fun alias_loop :: "char option \<Rightarrow> string \<Rightarrow> string \<Rightarrow> string" where
  "alias_loop prev [] out = out"
| "alias_loop prev (ch # rest) out = alias_loop (Some ch) rest
     (if is_ascii_uppercase ch
      then (if insert_sep prev rest out then out @ [underscore] else out) @ [to_ascii_lowercase ch]
      else if is_ascii_alphanumeric ch then out @ [ch]
      else if \<not> ends_sep out \<and> out \<noteq> [] then out @ [underscore]
      else out)"

text \<open>\<^verbatim>\<open>while out.ends_with('_') { out.pop(); }\<close>\<close>

definition pop_seps :: "string \<Rightarrow> string" where
  "pop_seps out = rev (dropWhile (\<lambda>c. c = underscore) (rev out))"

definition artifact_app_alias :: "string \<Rightarrow> string" where
  "artifact_app_alias app = pop_seps (alias_loop None app [])"

section \<open>What the names keep\<close>

abbreviation word_chars :: "string \<Rightarrow> string" where
  "word_chars \<equiv> filter (\<lambda>c. c \<noteq> underscore)"

lemma ends_sep_append [simp]:
  "ends_sep (out @ [c]) \<longleftrightarrow> c = underscore" "\<not> ends_sep []"
  by (simp_all add: ends_sep_def)

lemma to_snake_loop_chars:
  "word_chars (to_snake_loop prev s out) = word_chars out @ map to_ascii_lowercase (word_chars s)"
  by (induction s arbitrary: prev out) auto

lemma to_snake_loop_no_upper:
  "list_all (\<lambda>c. \<not> is_ascii_uppercase c) s \<Longrightarrow> to_snake_loop prev s out = out @ s"
  by (induction s arbitrary: prev out) auto

lemma to_snake_loop_lower:
  "list_all (\<lambda>c. \<not> is_ascii_uppercase c) out \<Longrightarrow>
    list_all (\<lambda>c. \<not> is_ascii_uppercase c) (to_snake_loop prev s out)"
  by (induction s arbitrary: prev out) auto

lemma to_snake_idempotent: "to_snake (to_snake s) = to_snake s"
  by (simp add: to_snake_def to_snake_loop_no_upper to_snake_loop_lower)

text \<open>The characters an alias is made of, and the shape of the accumulator of its loop.\<close>

definition alias_char :: "char \<Rightarrow> bool" where
  "alias_char c \<longleftrightarrow> is_ascii_lowercase c \<or> is_ascii_digit c \<or> c = underscore"

text \<open>No separator at the start, and no two in a row.\<close>

definition seps_ok :: "string \<Rightarrow> bool" where
  "seps_ok s \<longleftrightarrow> (s \<noteq> [] \<longrightarrow> hd s \<noteq> underscore) \<and> successively (\<lambda>a b. a = underscore \<longrightarrow> b \<noteq> underscore) s"

lemma seps_ok_snoc:
  "seps_ok (s @ [c]) \<longleftrightarrow> seps_ok s \<and> (c = underscore \<longrightarrow> s \<noteq> [] \<and> \<not> ends_sep s)"
  unfolding seps_ok_def ends_sep_def successively_append_iff by (cases s) auto

lemma alias_char_simps [simp]:
  "is_ascii_uppercase c \<Longrightarrow> alias_char (to_ascii_lowercase c)" "alias_char underscore"
  "is_ascii_alphanumeric c \<Longrightarrow> \<not> is_ascii_uppercase c \<Longrightarrow> alias_char c"
  "alias_char c \<Longrightarrow> \<not> is_ascii_uppercase c"
proof -
  show "is_ascii_uppercase c \<Longrightarrow> alias_char (to_ascii_lowercase c)" "alias_char underscore"
    by (simp_all add: alias_char_def)
  show "is_ascii_alphanumeric c \<Longrightarrow> \<not> is_ascii_uppercase c \<Longrightarrow> alias_char c"
    by (auto simp: alias_char_def is_ascii_alphanumeric_def is_ascii_alphabetic_def)
  show "alias_char c \<Longrightarrow> \<not> is_ascii_uppercase c"
    by (auto simp: alias_char_def char_classes)
qed

lemma upper_alphanumeric [simp]: "is_ascii_uppercase c \<Longrightarrow> is_ascii_alphanumeric c"
  by (simp add: is_ascii_alphanumeric_def is_ascii_alphabetic_def)

lemma alphanumeric_word [simp]: "is_ascii_alphanumeric c \<Longrightarrow> c \<noteq> underscore"
  by auto

lemma lower_word [simp]:
  assumes "is_ascii_alphanumeric c"
  shows "alias_char (to_ascii_lowercase c)" "to_ascii_lowercase c \<noteq> underscore"
proof -
  show "alias_char (to_ascii_lowercase c)" using assms by (cases "is_ascii_uppercase c") simp_all
  show "to_ascii_lowercase c \<noteq> underscore"
    using assms lower_class(2,3) alphanumeric_word by metis
qed

lemma alias_loop_shape:
  assumes "out \<noteq> []" "seps_ok out" "list_all alias_char out"
  shows "alias_loop prev s out \<noteq> []" "seps_ok (alias_loop prev s out)" "list_all alias_char (alias_loop prev s out)"
  using assms
  by (induction s arbitrary: prev out) (auto simp: seps_ok_snoc insert_sep_def simp flip: append_assoc)

lemma alias_loop_chars:
  "word_chars (alias_loop prev s out) = word_chars out @ map to_ascii_lowercase (filter is_ascii_alphanumeric s)"
proof (induction s arbitrary: prev out)
  case (Cons c s)
  then show ?case by simp
qed simp

lemma pop_seps_snoc: "pop_seps (s @ [c]) = (if c = underscore then pop_seps s else s @ [c])"
  by (simp add: pop_seps_def)

lemma pop_seps_Nil [simp]: "pop_seps [] = []"
  by (simp add: pop_seps_def)

lemma pop_seps_keeps:
  "\<not> ends_sep (pop_seps s)" "word_chars (pop_seps s) = word_chars s"
  "\<not> ends_sep s \<Longrightarrow> pop_seps s = s" "seps_ok s \<Longrightarrow> seps_ok (pop_seps s)"
  "list_all P s \<Longrightarrow> list_all P (pop_seps s)" 
  by (induction s rule: rev_induct) (simp_all add: pop_seps_snoc seps_ok_snoc)

text \<open>An input without capitals or foreign characters passes through the loop.\<close>

lemma seps_ok_prefix: "seps_ok (s @ t) \<Longrightarrow> seps_ok s"
  unfolding seps_ok_def successively_append_iff by (cases s) auto

lemma alias_loop_plain:
  assumes "list_all alias_char s" "seps_ok (out @ s)"
  shows "alias_loop prev s out = out @ s"
  using assms
proof (induction s arbitrary: prev out)
  case (Cons c s)
  have ok: "seps_ok (out @ [c])" using Cons.prems(2) seps_ok_prefix [of "out @ [c]" s] by simp
  have rest: "alias_loop (Some c) s (out @ [c]) = out @ c # s" using Cons by simp
  have c: "\<not> is_ascii_uppercase c" "is_ascii_alphanumeric c \<or> c = underscore"
    using Cons.prems(1) by (auto simp: alias_char_def is_ascii_alphanumeric_def is_ascii_alphabetic_def)
  show ?case using c(2)
  proof
    assume "is_ascii_alphanumeric c" with c(1) rest show ?thesis by simp
  next
    assume "c = underscore" with rest ok show ?thesis by (simp add: seps_ok_snoc)
  qed
qed simp



text \<open>
  A name that starts with an underscore and a capitalised word keeps a leading underscore,
  which its alias loses in turn.
\<close>

lemma alias_leading_underscore:
  "artifact_app_alias ''_Ab'' = ''_ab''" "artifact_app_alias ''_ab'' = ''ab''"
  by code_simp+

section \<open>The two conversions agree\<close>

lemma snake_loops_agree:
  assumes "list_all (\<lambda>c. is_ascii_alphanumeric c \<or> c = underscore) s"
    and "(case prev of None \<Rightarrow> out = [] \<and> seps_ok s
      | Some p \<Rightarrow> out \<noteq> [] \<and> (ends_sep out \<longleftrightarrow> p = underscore)
          \<and> successively (\<lambda>a b. a = underscore \<longrightarrow> b \<noteq> underscore) (p # s))"
  shows "alias_loop prev s out = to_snake_loop prev s out"
  using assms
proof (induction s arbitrary: prev out)
  case (Cons c s)
  have "insert_sep prev s out \<longleftrightarrow> starts_new_word prev s \<and> \<not> ends_sep out"
    using Cons.prems(2) by (auto simp: insert_sep_def starts_new_word_def split: option.splits)
  moreover have "successively (\<lambda>a b. a = underscore \<longrightarrow> b \<noteq> underscore) (c # s)"
    using Cons.prems(2) by (auto simp: seps_ok_def split: option.splits)
  moreover have "c = underscore \<Longrightarrow> \<not> ends_sep out \<and> out \<noteq> []"
    using Cons.prems(2) by (auto simp: seps_ok_def split: option.splits)
  moreover define out' where "out' = (if is_ascii_uppercase c
    then (if starts_new_word prev s \<and> \<not> ends_sep out then out @ [underscore] else out) @ [to_ascii_lowercase c]
    else out @ [c])"
  ultimately have "alias_loop prev (c # s) out = alias_loop (Some c) s out'"
    using Cons.prems(1) by auto
  moreover have "out' \<noteq> []" "ends_sep out' \<longleftrightarrow> c = underscore" by (auto simp: out'_def)
  with \<open>successively _ (c # s)\<close> have "alias_loop (Some c) s out' = to_snake_loop (Some c) s out'"
    using Cons.prems(1) by (intro Cons.IH) simp_all
  ultimately show ?case by (simp add: out'_def)
qed simp

text \<open>
  On identifiers written without a leading, trailing or doubled underscore, the names the
  compiler generates and the aliases the runtime looks them up by are the same.
\<close>

theorem snake_conversions_agree:
  assumes "is_identifier s" and "seps_ok s" and "\<not> ends_sep s"
  shows "artifact_app_alias s = to_snake s"
proof -
  have "list_all (\<lambda>c. is_ascii_alphanumeric c \<or> c = underscore) s"
    using assms(1) by (auto simp: is_identifier_def is_ascii_alphanumeric_def split: list.splits)
  then have "alias_loop None s [] = to_snake s"
    using assms(2) by (simp add: to_snake_def snake_loops_agree)
  moreover have "\<not> ends_sep (to_snake s)"
  proof -
    have last: "out \<noteq> [] \<or> t \<noteq> [] \<Longrightarrow> to_snake_loop prev t out \<noteq> []
        \<and> last (to_snake_loop prev t out) = (if t = [] then last out else to_ascii_lowercase (last t))" for prev t out
      by (induction t arbitrary: prev out) auto
    show ?thesis
      using last [of "[]" s None] assms(3)
      by (cases "is_ascii_uppercase (last s)"; cases "s = []") (auto simp: ends_sep_def to_snake_def)
  qed
  ultimately show ?thesis by (simp add: artifact_app_alias_def pop_seps_keeps)
qed

lemma snake_conversions_agree_witness: "artifact_app_alias ''MinterProxy'' = to_snake ''MinterProxy''"
  by (rule snake_conversions_agree) code_simp+

end
