(* ===== verification/Builder_Model.thy ===== *)
theory Builder_Model
  imports Artifact_Check Naming
begin

text \<open>
  Types shared by the runtime's builder, \<^verbatim>\<open>crates/argent-runtime/src/lib.rs\<close>: its errors,
  the artifact bundle, references into an artifact, and the parameters that stand for the
  value codec of \<^verbatim>\<open>silverscript-abi\<close> and for the Kaspa crates. \<^verbatim>\<open>ArtifactValue\<close> is the
  type \<open>'val\<close>; of its constructors the code uses \<^verbatim>\<open>Bytes\<close> (\<open>sl_bytes_value\<close>) and the match
  on \<^verbatim>\<open>Object\<close> (\<open>rl_object_value\<close>), and \<^verbatim>\<open>Int\<close> of an \<^verbatim>\<open>i64\<close> (\<open>rl_int_value\<close>). A \<^verbatim>\<open>Hash\<close> is its bytes.
\<close>

section \<open>Errors\<close>

text \<open>
  The code raises the first two codec errors itself; the others are the library's. Of
  \<^verbatim>\<open>BuilderError\<close> the variants are here that the modelled functions raise; those of the
  transaction resolver and of the Kaspa crates are not.
\<close>

datatype codec_error = MissingField string | UnknownField string | LibraryCodec string

datatype observed_side = SideIn | SideOut

datatype state_plan_problem =
    PlanSourceMismatch string string
  | PlanUnknownField string
  | PlanDuplicateField string

datatype (plugins only: code) builder_error =
    ArtifactVerification string verification_error
  | Codec codec_error
  | UnknownActor string
  | DuplicateAppAlias string
  | UnknownAppAlias string
  | AppAliasMismatch string string string
  | MissingDependencyArtifact string string string
  | DependencyArtifactMismatch string string string string string
  | MissingInterface string string string
  | InterfaceMismatch string string string string
  | InvalidRuntimeStatePlan string state_plan_problem
  | HiddenRuntimeFieldProvided string string
  | MissingStateExpansionPreimage string string string
  | MissingHiddenRouteProof string
  | UnknownRouteProof string
  | UnknownRouteTable string
  | MissingRouteProofLeaf string string
  | UnknownRouteFamily string
  | NestedRouteFamilyTableLeaf string string
  | UnexpectedHiddenSubject string string
  | UnknownTemplateSelector string string string
  | MissingTemplateSelectorChoice string
  | InvalidTemplateSelectorChoice string string
  | ActorArgumentWithoutSelector string string string string
  | UnknownObserve string string string
  | MissingObservedCovenant string
  | MissingObservedActor string observed_side string
  | UnknownObservedActor string observed_side string
  | ObservedActorMismatch string observed_side string string string
  | ObservedStateLayoutMismatch string observed_side string string string
  | MissingActorTypeHandle string string
  | UnknownState string string
  | ObservedUtxoScriptMismatch string string string
  | MissingSpawnOutput string string nat
  | GenesisAuthorizingInputOutOfRange "16 word" nat
  | GenesisOutputIndexOverflow nat
  | GenesisOutputStateCallback nat string
  | ObservedAppMismatch string string string
  | UnknownEntry string string

section \<open>Library code\<close>

record script_public_key =
  spk_version :: "16 word"
  spk_script :: "byte list"

record outpoint =
  op_transaction_id :: "byte list"
  op_index :: "32 word"

record ('ty, 'val) runtime_lib = "('ty, 'val) artifact_lib" +
  rl_object_value :: "'val \<Rightarrow> (string, 'val) btree option"
  rl_int_value :: "64 word \<Rightarrow> 'val"
  rl_encode_struct :: "'ty sil_abi \<Rightarrow> 'ty sil_contract \<Rightarrow> string \<Rightarrow> (string, 'val) btree \<Rightarrow> (codec_error, byte list) outcome"
  rl_encode_state_script :: "'ty sil_abi \<Rightarrow> 'ty runtime_state \<Rightarrow> (string, 'val) btree \<Rightarrow> (codec_error, byte list) outcome"
  rl_decode_hex :: "string \<Rightarrow> (codec_error, byte list) outcome"
  rl_pay_to_script_hash :: "byte list \<Rightarrow> script_public_key"
  rl_covenant_id :: "outpoint \<Rightarrow> (32 word \<times> 64 word \<times> script_public_key) list \<Rightarrow> byte list"

text \<open>
  The library returns its errors instead of panicking, and the state spans of an ABI that
  passed its check can be cut out of the bytecode.
\<close>

definition runtime_lib_ok :: "('ty, 'val, 'x) runtime_lib_scheme \<Rightarrow> bool" where
  "runtime_lib_ok lib \<longleftrightarrow> artifact_lib_ok lib
     \<and> (\<forall>abi c n m. rl_encode_struct lib abi c n m \<noteq> Panic)
     \<and> (\<forall>abi s m. rl_encode_state_script lib abi s m \<noteq> Panic)
     \<and> (\<forall>t. rl_decode_hex lib t \<noteq> Panic)
     \<and> (\<forall>abi n c. al_check_sil_abi lib abi = Ok () \<longrightarrow> sl_contract lib abi n = Some c \<longrightarrow>
          sl_script_parts lib (sc_compiled c) (cc_bytecode (sc_compiled c)) \<noteq> None)"

lemma runtime_lib_okD:
  assumes "runtime_lib_ok lib"
  shows "artifact_lib_ok lib" "sil_lib_ok lib" "hash_lib_ok lib"
    and "rl_encode_struct lib abi c n m \<noteq> Panic" "rl_encode_state_script lib abi s m \<noteq> Panic"
    and "rl_decode_hex lib t \<noteq> Panic"
    and "al_check_sil_abi lib abi = Ok () \<Longrightarrow> sl_contract lib abi name = Some c \<Longrightarrow>
      \<exists>p s f. sl_script_parts lib (sc_compiled c) (cc_bytecode (sc_compiled c)) = Some (p, s, f)"
    and "sl_contract lib abi name = map_of (sil_contracts abi) name"
  using assms by (auto simp: runtime_lib_ok_def artifact_lib_ok_def sil_lib_ok_def)

text \<open>The two decoders of hexadecimal text agree.\<close>

definition hex_codecs_agree :: "('ty, 'val, 'x) runtime_lib_scheme \<Rightarrow> bool" where
  "hex_codecs_agree lib \<longleftrightarrow>
     (\<forall>t bs. hl_hex_decode lib t (length t div 2) = Some bs \<longrightarrow> rl_decode_hex lib t = Ok bs)"

section \<open>Bundles and references\<close>

record 'ty artifact_bundle =
  bu_primary_alias :: string
  bu_apps :: "(string, 'ty artifact) btree"

record 'ty tx_builder =
  tb_bundle :: "'ty artifact_bundle"

record 'ty contract_ref =
  cr_artifact :: "'ty artifact"
  cr_name :: string
  cr_contract :: "'ty sil_contract"

record 'ty actor_ref =
  ar_artifact :: "'ty artifact"
  ar_actor :: "'ty actor_decl"

datatype 'ty template_view = SilTemplate "'ty sil_contract" | ActorTypeTemplate actor_template

record actor_path =
  path_app :: "string option"
  path_actor :: string

definition primary_path :: "string \<Rightarrow> actor_path" where
  "primary_path actor = \<lparr>path_app = None, path_actor = actor\<rparr>"

definition qualified_path :: "string \<Rightarrow> string \<Rightarrow> actor_path" where
  "qualified_path app actor = \<lparr>path_app = Some app, path_actor = actor\<rparr>"

text \<open>\<^verbatim>\<open>str::split_once("::")\<close>: the text before and after the first \<open>::\<close>.\<close>

fun split_once :: "string \<Rightarrow> (string \<times> string) option" where
  "split_once [] = None"
| "split_once [c] = None"
| "split_once (c # d # rest) =
     (if c = CHR '':'' \<and> d = CHR '':'' then Some ([], rest)
      else map_option (\<lambda>(before, after). (c # before, after)) (split_once (d # rest)))"

definition path_of_string :: "string \<Rightarrow> actor_path" where
  "path_of_string path = (case split_once path of
      Some (app, actor) \<Rightarrow> qualified_path app actor
    | None \<Rightarrow> primary_path path)"

definition show_path :: "actor_path \<Rightarrow> string" where
  "show_path path = (case path_app path of
      Some app \<Rightarrow> app @ ''::'' @ path_actor path
    | None \<Rightarrow> path_actor path)"

lemma split_once_Some: "split_once s = Some (x, y) \<Longrightarrow> s = x @ ''::'' @ y"
  by (induction s arbitrary: x rule: split_once.induct) (auto split: if_splits)

text \<open>Reading a path and displaying it gives the text back.\<close>

lemma show_path_of_string: "show_path (path_of_string s) = s"
  by (auto simp: path_of_string_def show_path_def primary_path_def qualified_path_def
      dest: split_once_Some split: option.splits)

end
