(* ===== verification/Artifact_Bundle.thy ===== *)
theory Artifact_Bundle
  imports Builder_Model
begin

text \<open>
  Bundles of checked artifacts, the cross-artifact checks that open a builder on one, and the
  lookups of contracts and actors inside it (\<^verbatim>\<open>ArtifactBundle\<close> and the corresponding part of
  \<^verbatim>\<open>TxBuilder\<close> in \<^verbatim>\<open>crates/argent-runtime/src/lib.rs\<close>).
\<close>

section \<open>Bundles\<close>

definition check_artifact_consistency ::
  "('ty, 'val, 'x) artifact_lib_scheme \<Rightarrow> string \<Rightarrow> 'ty artifact \<Rightarrow> (builder_error, unit) outcome" where
  "check_artifact_consistency lib app a = map_err (ArtifactVerification app) (check_consistency lib a)"

definition bundle_named ::
  "('ty, 'val, 'x) artifact_lib_scheme \<Rightarrow> string \<Rightarrow> 'ty artifact \<Rightarrow> (builder_error, 'ty artifact_bundle) outcome" where
  "bundle_named lib alias primary =
     (let expected = artifact_app_alias (art_app primary) in
      if alias \<noteq> expected then Err (AppAliasMismatch (art_app primary) expected alias)
      else and_then (check_artifact_consistency lib alias primary) (\<lambda>_.
        Ok \<lparr>bu_primary_alias = alias, bu_apps = [(alias, primary)]\<rparr>))"

definition bundle_new ::
  "('ty, 'val, 'x) artifact_lib_scheme \<Rightarrow> 'ty artifact \<Rightarrow> (builder_error, 'ty artifact_bundle) outcome" where
  "bundle_new lib primary = bundle_named lib (artifact_app_alias (art_app primary)) primary"

definition with_app ::
  "('ty, 'val, 'x) artifact_lib_scheme \<Rightarrow> 'ty artifact_bundle \<Rightarrow> string \<Rightarrow> 'ty artifact \<Rightarrow>
    (builder_error, 'ty artifact_bundle) outcome" where
  "with_app lib b alias a =
     (let expected = artifact_app_alias (art_app a) in
      if alias \<noteq> expected then Err (AppAliasMismatch (art_app a) expected alias)
      else if map_of (bu_apps b) alias \<noteq> None then Err (DuplicateAppAlias alias)
      else and_then (check_artifact_consistency lib alias a) (\<lambda>_.
        Ok (b\<lparr>bu_apps := bm_insert alias a (bu_apps b)\<rparr>)))"

definition with_artifact ::
  "('ty, 'val, 'x) artifact_lib_scheme \<Rightarrow> 'ty artifact_bundle \<Rightarrow> 'ty artifact \<Rightarrow>
    (builder_error, 'ty artifact_bundle) outcome" where
  "with_artifact lib b a = with_app lib b (artifact_app_alias (art_app a)) a"

definition bundle_app :: "'ty artifact_bundle \<Rightarrow> string \<Rightarrow> (builder_error, 'ty artifact) outcome" where
  "bundle_app b alias = ok_or (map_of (bu_apps b) alias) (UnknownAppAlias alias)"

definition bundle_primary :: "'ty artifact_bundle \<Rightarrow> ('e, 'ty artifact) outcome" where
  "bundle_primary b = expect (map_of (bu_apps b) (bu_primary_alias b))"

definition bundle_dependencies :: "'ty artifact_bundle \<Rightarrow> 'ty artifact list" where
  "bundle_dependencies b = map snd (filter (\<lambda>(alias, _). alias \<noteq> bu_primary_alias b) (bu_apps b))"

section \<open>Cross-artifact checks\<close>

definition find_interface :: "actor_interface list \<Rightarrow> string \<Rightarrow> string \<Rightarrow> actor_interface option" where
  "find_interface interfaces app actor = find (\<lambda>i. ai_app i = app \<and> ai_actor i = actor) interfaces"

definition validate_dependency ::
  "'ty artifact_bundle \<Rightarrow> 'ty artifact \<Rightarrow> app_dependency \<Rightarrow> (builder_error, unit) outcome" where
  "validate_dependency b a dependency =
     (case map_of (bu_apps b) (artifact_app_alias (ad_app dependency)) of
        None \<Rightarrow> Err (MissingDependencyArtifact (art_app a) (ad_app dependency) (ad_artifact_id dependency))
      | Some found \<Rightarrow>
          if art_app found \<noteq> ad_app dependency \<or> art_id found \<noteq> ad_artifact_id dependency
          then Err (DependencyArtifactMismatch (art_app a) (ad_app dependency) (ad_artifact_id dependency)
            (art_app found) (art_id found))
          else Ok ())"

definition validate_bundle_dependencies :: "'ty artifact_bundle \<Rightarrow> (builder_error, unit) outcome" where
  "validate_bundle_dependencies b =
     try_each (\<lambda>a. try_each (validate_dependency b a) (art_dependencies a)) (map snd (bu_apps b))"

abbreviation imports_of :: "'ty artifact \<Rightarrow> actor_interface list" where
  "imports_of a \<equiv> is_imports (ap_interfaces (art_argent a))"

abbreviation exports_of :: "'ty artifact \<Rightarrow> actor_interface list" where
  "exports_of a \<equiv> is_exports (ap_interfaces (art_argent a))"

definition validate_actor_interface ::
  "'ty artifact_bundle \<Rightarrow> 'ty artifact \<Rightarrow> string \<Rightarrow> string \<Rightarrow> (builder_error, unit) outcome" where
  "validate_actor_interface b observing app actor =
     and_then (bundle_app b app) (\<lambda>a.
     and_then (ok_or (find_interface (imports_of observing) (art_app a) actor)
       (MissingInterface (artifact_app_alias (art_app observing)) ''import'' actor)) (\<lambda>expected.
     and_then (ok_or (find_interface (exports_of a) (art_app a) actor)
       (MissingInterface app ''export'' actor)) (\<lambda>found.
       if ai_fingerprint_hex expected \<noteq> ai_fingerprint_hex found
       then Err (InterfaceMismatch app actor (ai_fingerprint_hex expected) (ai_fingerprint_hex found))
       else Ok ())))"

definition validate_bundle_interfaces :: "'ty artifact_bundle \<Rightarrow> (builder_error, unit) outcome" where
  "validate_bundle_interfaces b =
     try_each (\<lambda>observing. try_each
       (\<lambda>interface. validate_actor_interface b observing (artifact_app_alias (ai_app interface)) (ai_actor interface))
       (imports_of observing)) (map snd (bu_apps b))"

definition from_bundle :: "'ty artifact_bundle \<Rightarrow> (builder_error, 'ty tx_builder) outcome" where
  "from_bundle b =
     and_then (validate_bundle_dependencies b) (\<lambda>_.
     and_then (validate_bundle_interfaces b) (\<lambda>_. Ok \<lparr>tb_bundle = b\<rparr>))"

definition tx_builder_new ::
  "('ty, 'val, 'x) artifact_lib_scheme \<Rightarrow> 'ty artifact \<Rightarrow> (builder_error, 'ty tx_builder) outcome" where
  "tx_builder_new lib a = and_then (bundle_new lib a) from_bundle"

section \<open>Lookups\<close>

definition contract_in_artifact ::
  "('ty, 'val, 'x) sil_lib_scheme \<Rightarrow> 'ty artifact \<Rightarrow> string \<Rightarrow> (builder_error, 'ty sil_contract) outcome" where
  "contract_in_artifact lib a name = ok_or (sl_contract lib (art_sil_abi a) name) (UnknownActor name)"

definition contract_ref_in_artifact ::
  "('ty, 'val, 'x) sil_lib_scheme \<Rightarrow> 'ty artifact \<Rightarrow> string \<Rightarrow> (builder_error, 'ty contract_ref) outcome" where
  "contract_ref_in_artifact lib a name =
     and_then (contract_in_artifact lib a name) (\<lambda>contract.
     and_then (expect (map_option fst (find (\<lambda>(key, _). key = name) (sil_contracts (art_sil_abi a))))) (\<lambda>key.
       Ok \<lparr>cr_artifact = a, cr_name = key, cr_contract = contract\<rparr>))"

definition contract_ref_in_app ::
  "('ty, 'val, 'x) sil_lib_scheme \<Rightarrow> 'ty artifact_bundle \<Rightarrow> string \<Rightarrow> string \<Rightarrow> (builder_error, 'ty contract_ref) outcome" where
  "contract_ref_in_app lib b app name = and_then (bundle_app b app) (\<lambda>a. contract_ref_in_artifact lib a name)"

definition observed_contract_ref ::
  "('ty, 'val, 'x) sil_lib_scheme \<Rightarrow> 'ty artifact_bundle \<Rightarrow> 'ty artifact \<Rightarrow> string \<Rightarrow> string \<Rightarrow>
    (builder_error, 'ty contract_ref) outcome" where
  "observed_contract_ref lib b observing app contract =
     (let alias = artifact_app_alias app in
      and_then (validate_actor_interface b observing alias contract) (\<lambda>_. contract_ref_in_app lib b alias contract))"

definition actor_subject_contract_ref ::
  "('ty, 'val, 'x) sil_lib_scheme \<Rightarrow> 'ty artifact_bundle \<Rightarrow> 'ty artifact \<Rightarrow> string \<Rightarrow>
    (builder_error, 'ty contract_ref) outcome" where
  "actor_subject_contract_ref lib b primary actor =
     (if sl_contract lib (art_sil_abi primary) actor \<noteq> None then contract_ref_in_artifact lib primary actor
      else and_then (ok_or (split_once actor) (UnknownActor actor)) (\<lambda>(app, contract).
        observed_contract_ref lib b primary app contract))"

definition find_runtime_state_plan :: "'ty artifact \<Rightarrow> string \<Rightarrow> runtime_state_plan option" where
  "find_runtime_state_plan a contract =
     find (\<lambda>state. rsp_contract state = contract) (tp_runtime_states (ap_template_plan (art_argent a)))"

definition actor_ref_in_artifact :: "'ty artifact \<Rightarrow> string \<Rightarrow> (builder_error, 'ty actor_ref) outcome" where
  "actor_ref_in_artifact a name =
     ok_or (map_option (\<lambda>actor. \<lparr>ar_artifact = a, ar_actor = actor\<rparr>)
       (find (\<lambda>actor. ac_name actor = name) (ap_actors (art_argent a)))) (UnknownActor name)"

definition entry_ref_for_actor ::
  "'ty actor_ref \<Rightarrow> string \<Rightarrow> string \<Rightarrow> (builder_error, 'ty entry_decl) outcome" where
  "entry_ref_for_actor r actor entry =
     ok_or (find (\<lambda>e. en_name e = entry) (ac_entries (ar_actor r))) (UnknownEntry actor entry)"

definition find_receipt :: "'ty artifact \<Rightarrow> string \<Rightarrow> template_receipt option" where
  "find_receipt a actor = find (\<lambda>t. tr_actor t = actor) (tp_templates (ap_template_plan (art_argent a)))"

definition expanded_base :: "'ty artifact \<Rightarrow> string \<Rightarrow> string option" where
  "expanded_base a state =
     map_option se_base (find (\<lambda>e. se_state e = state) (ap_state_expansions (art_argent a)))"

definition actor_type_handle_in_artifact ::
  "'ty artifact \<Rightarrow> string \<Rightarrow> string \<Rightarrow> (builder_error, byte list) outcome" where
  "actor_type_handle_in_artifact a actor state =
     and_then (ok_or (find (\<lambda>candidate. ac_name candidate = actor) (ap_actors (art_argent a))) (UnknownActor actor)) (\<lambda>decl.
     (let storage = (case expanded_base a (ac_state decl) of Some base \<Rightarrow> base | None \<Rightarrow> ac_state decl);
          supports_view = (state = storage \<or> state = ac_state decl) in
      and_then (ok_or (find_receipt a actor) (MissingActorTypeHandle actor state)) (\<lambda>receipt.
        (let handle = tr_actor_type_handle receipt in
         if ah_state handle \<noteq> storage \<or> \<not> supports_view then Err (MissingActorTypeHandle actor state)
         else Ok (at_hash (ah_template handle))))))"

definition actor_type_handle ::
  "'ty artifact_bundle \<Rightarrow> actor_path \<Rightarrow> string \<Rightarrow> (builder_error, byte list) outcome" where
  "actor_type_handle b actor state =
     and_then (case path_app actor of Some app \<Rightarrow> bundle_app b app | None \<Rightarrow> bundle_primary b) (\<lambda>a.
       actor_type_handle_in_artifact a (path_actor actor) state)"

section \<open>The invariant of bundles\<close>

text \<open>The bundles a caller can build: the fields of the structure are private.\<close>

inductive built :: "('ty, 'val, 'x) artifact_lib_scheme \<Rightarrow> 'ty artifact_bundle \<Rightarrow> bool" for lib where
  built_named: "bundle_named lib alias a = Ok b \<Longrightarrow> built lib b"
| built_with_app: "built lib b \<Longrightarrow> with_app lib b alias a = Ok b' \<Longrightarrow> built lib b'"

definition bundle_ok :: "('ty, 'val, 'x) artifact_lib_scheme \<Rightarrow> 'ty artifact_bundle \<Rightarrow> bool" where
  "bundle_ok lib b \<longleftrightarrow> sorted_wrt (<) (bm_keys (bu_apps b)) \<and> bu_primary_alias b \<in> set (bm_keys (bu_apps b))
     \<and> (\<forall>(alias, a) \<in> set (bu_apps b). alias = artifact_app_alias (art_app a) \<and> check_consistency lib a = Ok ())"

lemma bundle_named_iff [simp]:
  "bundle_named lib alias a = Ok b \<longleftrightarrow> alias = artifact_app_alias (art_app a) \<and> check_consistency lib a = Ok ()
    \<and> b = \<lparr>bu_primary_alias = alias, bu_apps = [(alias, a)]\<rparr>"
  by (auto simp: bundle_named_def check_artifact_consistency_def and_then_Ok_iff Let_def)

lemma with_app_iff [simp]:
  "with_app lib b alias a = Ok b' \<longleftrightarrow> alias = artifact_app_alias (art_app a) \<and> map_of (bu_apps b) alias = None
    \<and> check_consistency lib a = Ok () \<and> b' = b\<lparr>bu_apps := bm_insert alias a (bu_apps b)\<rparr>"
  by (auto simp: with_app_def check_artifact_consistency_def and_then_Ok_iff Let_def)

lemma set_bm_insert_subset: "set (bm_insert k v m) \<subseteq> insert (k, v) (set m)"
  by (induction m) (auto split: if_splits)

lemma built_bundle_ok: "built lib b \<Longrightarrow> bundle_ok lib b"
proof (induction rule: built.induct)
  case (built_named nm a b)
  then show ?case by (simp add: bundle_ok_def)
next
  case (built_with_app b nm a b')
  then show ?case
    using set_bm_insert_subset [of nm a "bu_apps b"] by (auto simp: bundle_ok_def)
qed

lemma bundle_okD:
  assumes "bundle_ok lib b"
  shows "map_of (bu_apps b) alias = Some a \<longleftrightarrow> (alias, a) \<in> set (bu_apps b)"
    and "map_of (bu_apps b) alias = Some a \<Longrightarrow> alias = artifact_app_alias (art_app a) \<and> check_consistency lib a = Ok ()"
    and "\<exists>a. bundle_primary b = Ok a \<and> map_of (bu_apps b) (bu_primary_alias b) = Some a"
proof -
  show "map_of (bu_apps b) alias = Some a \<longleftrightarrow> (alias, a) \<in> set (bu_apps b)"
    using assms sorted_keys_distinct [of "bu_apps b"] by (auto simp: bundle_ok_def)
  show "map_of (bu_apps b) alias = Some a \<Longrightarrow> alias = artifact_app_alias (art_app a) \<and> check_consistency lib a = Ok ()"
    using assms by (auto simp: bundle_ok_def dest!: map_of_SomeD)
  show "\<exists>a. bundle_primary b = Ok a \<and> map_of (bu_apps b) (bu_primary_alias b) = Some a"
    using assms by (cases "map_of (bu_apps b) (bu_primary_alias b)") (auto simp: bundle_ok_def bundle_primary_def map_of_eq_None_iff)
qed

lemma built_primary: "built lib b \<Longrightarrow> \<exists>a. bundle_primary b = Ok a \<and> check_consistency lib a = Ok ()"
  by (drule built_bundle_ok) (use bundle_okD(2,3) in blast)

lemma check_consistency_id:
  "check_consistency lib a = Ok () \<Longrightarrow> computed_id_hex lib a = Ok (art_id a)"
  by (auto simp: check_consistency_def verify_id_def and_then_Ok_iff split: if_splits)

section \<open>What opening a builder establishes\<close>

text \<open>Every dependency an attached artifact records is attached, and is the recorded artifact.\<close>

definition dependencies_attached :: "'ty artifact_bundle \<Rightarrow> bool" where
  "dependencies_attached b \<longleftrightarrow> (\<forall>a \<in> snd ` set (bu_apps b). \<forall>d \<in> set (art_dependencies a).
     \<exists>found. map_of (bu_apps b) (artifact_app_alias (ad_app d)) = Some found
       \<and> art_app found = ad_app d \<and> art_id found = ad_artifact_id d)"

text \<open>Every imported interface has an attached provider that exports it under the same fingerprint.\<close>

definition interface_agrees :: "'ty artifact_bundle \<Rightarrow> 'ty artifact \<Rightarrow> string \<Rightarrow> string \<Rightarrow> bool" where
  "interface_agrees b a app actor \<longleftrightarrow> (\<exists>provider expected found.
     map_of (bu_apps b) app = Some provider
     \<and> find_interface (imports_of a) (art_app provider) actor = Some expected
     \<and> find_interface (exports_of provider) (art_app provider) actor = Some found
     \<and> ai_fingerprint_hex expected = ai_fingerprint_hex found)"

definition interfaces_agree :: "'ty artifact_bundle \<Rightarrow> bool" where
  "interfaces_agree b \<longleftrightarrow> (\<forall>a \<in> snd ` set (bu_apps b). \<forall>i \<in> set (imports_of a).
     interface_agrees b a (artifact_app_alias (ai_app i)) (ai_actor i))"

lemma validate_dependency_iff [simp]:
  "validate_dependency b a d = Ok () \<longleftrightarrow> (\<exists>found. map_of (bu_apps b) (artifact_app_alias (ad_app d)) = Some found
    \<and> art_app found = ad_app d \<and> art_id found = ad_artifact_id d)"
  by (auto simp: validate_dependency_def split: option.splits)

lemma validate_actor_interface_iff [simp]:
  "validate_actor_interface b a app actor = Ok () \<longleftrightarrow> interface_agrees b a app actor"
  by (auto simp: validate_actor_interface_def interface_agrees_def bundle_app_def and_then_Ok_iff)

lemma validate_not_Panic [simp]:
  "validate_dependency b a d \<noteq> Panic" "validate_actor_interface b a app actor \<noteq> Panic"
  "bundle_app b app \<noteq> Panic"
  by (auto simp: validate_dependency_def validate_actor_interface_def bundle_app_def and_then_Panic_iff split: option.splits)

lemma from_bundle_not_Panic: "from_bundle b \<noteq> Panic"
  by (auto simp: from_bundle_def validate_bundle_dependencies_def validate_bundle_interfaces_def and_then_Panic_iff
      dest!: try_each_not_Panic [THEN notE, rotated])

lemma from_bundle_iff:
  "from_bundle b = Ok t \<longleftrightarrow> dependencies_attached b \<and> interfaces_agree b \<and> t = \<lparr>tb_bundle = b\<rparr>"
  by (auto simp: from_bundle_def validate_bundle_dependencies_def validate_bundle_interfaces_def
      dependencies_attached_def interfaces_agree_def and_then_Ok_iff try_each_Ok_iff)

text \<open>
  C31: A builder opens on a bundle exactly when its dependency records and its imported
  interfaces are met inside the bundle. On a bundle built through the constructors an
  accepted dependency is the recorded artifact itself: its app is the recorded one, it passed
  its own consistency check, and the recorded id is the hash computed from its content. The
  check returns an error, never a panic, otherwise.
\<close>

theorem builder_opens_iff_closed:
  assumes "built lib b"
  shows "(from_bundle b = Ok \<lparr>tb_bundle = b\<rparr> \<longleftrightarrow>
      (\<forall>a \<in> snd ` set (bu_apps b). \<forall>d \<in> set (art_dependencies a). \<exists>found.
         (artifact_app_alias (ad_app d), found) \<in> set (bu_apps b) \<and> art_app found = ad_app d
         \<and> check_consistency lib found = Ok () \<and> computed_id_hex lib found = Ok (ad_artifact_id d))
      \<and> interfaces_agree b)
    \<and> (from_bundle b \<noteq> Ok \<lparr>tb_bundle = b\<rparr> \<longrightarrow> (\<exists>e. from_bundle b = Err e))"
proof -
  have ok: "bundle_ok lib b" by (rule built_bundle_ok [OF assms])
  have "dependencies_attached b \<longleftrightarrow> (\<forall>a \<in> snd ` set (bu_apps b). \<forall>d \<in> set (art_dependencies a). \<exists>found.
         (artifact_app_alias (ad_app d), found) \<in> set (bu_apps b) \<and> art_app found = ad_app d
         \<and> check_consistency lib found = Ok () \<and> computed_id_hex lib found = Ok (ad_artifact_id d))"
    unfolding dependencies_attached_def
    using bundle_okD(1,2) [OF ok] check_consistency_id [of lib] by (intro ball_cong refl ex_cong1) fastforce
  moreover have "\<exists>e. from_bundle b = Err e" if "from_bundle b \<noteq> Ok \<lparr>tb_bundle = b\<rparr>"
    using that from_bundle_not_Panic [of b] by (cases "from_bundle b") (auto simp: from_bundle_iff)
  ultimately show ?thesis by (simp add: from_bundle_iff)
qed

section \<open>A bundle with a dependency\<close>

text \<open>The sealed demo artifact, and an app that imports its actor \<open>A\<close>.\<close>

definition export_interface :: actor_interface where
  "export_interface = \<lparr>ai_id = actor_interface_id ''A'', ai_app = ''Tiny'', ai_actor = ''A'', ai_state = ''S'',
     ai_fingerprint_hex = ''f0''\<rparr>"

definition seal_demo :: "nat artifact \<Rightarrow> nat artifact" where
  "seal_demo a = a\<lparr>art_id := encode_hex demo_artifact_lib (al_blake2b demo_artifact_lib
     (ascii ''argent/artifact/v1'' @ ascii (art_app a)))\<rparr>"

definition provider_artifact :: "nat artifact" where
  "provider_artifact = seal_demo (demo_artifact\<lparr>art_argent := (art_argent demo_artifact)
     \<lparr>ap_interfaces := \<lparr>is_exports = [export_interface], is_imports = []\<rparr>\<rparr>\<rparr>)"

definition client_artifact :: "nat artifact" where
  "client_artifact = seal_demo (let a = plain_artifact [] [] empty_plan in
     a\<lparr>art_app := ''Other'', art_dependencies := [\<lparr>ad_app = ''Tiny'', ad_artifact_id = art_id provider_artifact\<rparr>],
       art_argent := (art_argent a)\<lparr>ap_interfaces := \<lparr>is_exports = [], is_imports = [export_interface]\<rparr>\<rparr>\<rparr>)"

definition demo_bundle :: "nat artifact_bundle" where
  "demo_bundle = \<lparr>bu_primary_alias = ''other'',
     bu_apps = [(''other'', client_artifact), (''tiny'', provider_artifact)]\<rparr>"

text \<open>The artifact is consistent whatever further libraries the record of parameters carries.\<close>

lemma demo_provider_consistent:
  "check_consistency (artifact_lib.extend demo_artifact_lib m) provider_artifact = Ok ()"
  by code_simp

lemma demo_apps_consistent:
  "check_consistency demo_artifact_lib provider_artifact = Ok ()"
  "check_consistency demo_artifact_lib client_artifact = Ok ()"
proof -
  have "artifact_lib.extend demo_artifact_lib () = demo_artifact_lib"
    by (simp add: artifact_lib.defs sil_lib.defs demo_artifact_lib_def demo_sil_lib_def)
  then show "check_consistency demo_artifact_lib provider_artifact = Ok ()"
    using demo_provider_consistent [of "()"] by simp
  show "check_consistency demo_artifact_lib client_artifact = Ok ()" by code_simp
qed

lemma demo_aliases:
  "artifact_app_alias (art_app provider_artifact) = ''tiny''" "artifact_app_alias (art_app client_artifact) = ''other''"
proof -
  have "art_app provider_artifact = ''Tiny''" "art_app client_artifact = ''Other''"
    by (simp_all add: client_artifact_def provider_artifact_def seal_demo_def Let_def demo_artifact_def plain_artifact_def)
  moreover have "artifact_app_alias ''Tiny'' = ''tiny''" "artifact_app_alias ''Other'' = ''other''" by code_simp+
  ultimately show
    "artifact_app_alias (art_app provider_artifact) = ''tiny''" "artifact_app_alias (art_app client_artifact) = ''other''"
    by simp_all
qed

lemma demo_alias_order: "\<not> ''tiny'' < ''other''"
  by code_simp

lemma demo_bundle_built: "built demo_artifact_lib demo_bundle"
proof (rule built_with_app)
  show "built demo_artifact_lib \<lparr>bu_primary_alias = ''other'', bu_apps = [(''other'', client_artifact)]\<rparr>"
    by (rule built_named [of _ "''other''" client_artifact]) (simp add: demo_apps_consistent demo_aliases)
  show "with_app demo_artifact_lib \<lparr>bu_primary_alias = ''other'', bu_apps = [(''other'', client_artifact)]\<rparr>
      ''tiny'' provider_artifact = Ok demo_bundle"
    using demo_alias_order by (simp add: demo_apps_consistent demo_aliases demo_bundle_def)
qed

lemma demo_bundle_opens: "from_bundle demo_bundle = Ok \<lparr>tb_bundle = demo_bundle\<rparr>"
  by code_simp

lemma builder_opens_iff_closed_witness:
  "\<exists>found. (''tiny'', found) \<in> set (bu_apps demo_bundle) \<and> check_consistency demo_artifact_lib found = Ok ()
    \<and> computed_id_hex demo_artifact_lib found = Ok (art_id provider_artifact)"
proof -
  have "client_artifact \<in> snd ` set (bu_apps demo_bundle)" by (simp add: demo_bundle_def)
  moreover have "\<lparr>ad_app = ''Tiny'', ad_artifact_id = art_id provider_artifact\<rparr> \<in> set (art_dependencies client_artifact)"
    by (simp add: client_artifact_def seal_demo_def Let_def)
  moreover have "artifact_app_alias ''Tiny'' = ''tiny''" by code_simp
  ultimately show ?thesis
    using builder_opens_iff_closed [OF demo_bundle_built] demo_bundle_opens by fastforce
qed

end
