(* ===== verification/State_Materialize.thy ===== *)
theory State_Materialize
  imports Artifact_Bundle
begin

text \<open>
  From authored state to physical contract state and its redeem script: the runtime-state part
  of \<^verbatim>\<open>TxBuilder\<close> (\<^verbatim>\<open>runtime_state_values\<close>, \<^verbatim>\<open>state_expansion_preimage_payload\<close>,
  \<^verbatim>\<open>materialize_actor_state\<close>, \<^verbatim>\<open>redeem_script_for_contract\<close> of
  \<^verbatim>\<open>crates/argent-runtime/src/lib.rs\<close>) and \<^verbatim>\<open>materialize_redeem_script\<close> of
  \<^verbatim>\<open>script.rs\<close>. A state is a \<^verbatim>\<open>BTreeMap\<close> from field names to values.
\<close>

type_synonym 'val state_map = "(string, 'val) btree"

section \<open>States of an artifact\<close>

definition state_artifact :: "'ty artifact \<Rightarrow> string \<Rightarrow> (builder_error, 'ty argent_state) outcome" where
  "state_artifact a state =
     ok_or (find (\<lambda>candidate. as_name candidate = state) (ap_states (art_argent a))) (UnknownState (art_app a) state)"

definition same_lowered_state_layout :: "'ty argent_state \<Rightarrow> 'ty argent_state \<Rightarrow> bool" where
  "same_lowered_state_layout left right \<longleftrightarrow> length (as_fields left) = length (as_fields right)
     \<and> list_all (\<lambda>(l, r). af_name l = af_name r \<and> af_ty l = af_ty r) (zip (as_fields left) (as_fields right))"

definition state_satisfies :: "'ty artifact \<Rightarrow> string \<Rightarrow> string \<Rightarrow> bool" where
  "state_satisfies a found expected \<longleftrightarrow> found = expected
     \<or> list_ex (\<lambda>e. se_state e = found \<and> se_base e = expected) (ap_state_expansions (art_argent a))"

definition state_expansion_memory_for_field :: "'ty artifact \<Rightarrow> string \<Rightarrow> string \<Rightarrow> string option" where
  "state_expansion_memory_for_field a state field =
     (case find (\<lambda>e. se_state e = state) (ap_state_expansions (art_argent a)) of
        None \<Rightarrow> None
      | Some e \<Rightarrow> map_option sd_state (find (\<lambda>d. sd_field d = field) (se_digests e)))"

section \<open>Physical state\<close>

text \<open>\<^verbatim>\<open>BTreeMap::remove\<close>; the removed value is the lookup before it.\<close>

definition bm_remove :: "'k \<Rightarrow> ('k, 'v) btree \<Rightarrow> ('k, 'v) btree" where
  "bm_remove k m = filter (\<lambda>(k', _). k' \<noteq> k) m"

definition state_expansion_preimage_payload ::
  "('ty, 'val, 'x) runtime_lib_scheme \<Rightarrow> 'ty artifact \<Rightarrow> string \<Rightarrow> 'ty sil_contract \<Rightarrow> string \<Rightarrow> string \<Rightarrow>
    'val state_map \<Rightarrow> (builder_error, byte list \<times> 'val state_map) outcome" where
  "state_expansion_preimage_payload lib a contract_name contract digest_field memory_state source =
     and_then (state_artifact a memory_state) (\<lambda>memory.
     (let missing = MissingStateExpansionPreimage contract_name digest_field memory_state in
      case Option.bind (map_of source digest_field) (rl_object_value lib) of
        None \<Rightarrow> Err missing
      | Some values \<Rightarrow>
          and_then (try_each (\<lambda>field. if map_of values (af_name field) = None then Err missing else Ok ())
            (as_fields memory)) (\<lambda>_.
          and_then (map_err Codec (rl_encode_struct lib (art_sil_abi a) contract memory_state values)) (\<lambda>payload.
            Ok (payload, bm_remove digest_field source)))))"

text \<open>The field roles of the contract's runtime-state plan, by field name.\<close>

definition add_field_role ::
  "string \<Rightarrow> string set \<Rightarrow> (string, runtime_field_role_plan) btree \<Rightarrow> runtime_field_role_plan \<Rightarrow>
    (builder_error, (string, runtime_field_role_plan) btree) outcome" where
  "add_field_role contract_name sil_fields roles field_role =
     (if fr_name field_role \<notin> sil_fields
      then Err (InvalidRuntimeStatePlan contract_name (PlanUnknownField (fr_name field_role)))
      else if map_of roles (fr_name field_role) \<noteq> None
      then Err (InvalidRuntimeStatePlan contract_name (PlanDuplicateField (fr_name field_role)))
      else Ok (bm_insert (fr_name field_role) field_role roles))"

definition role_by_field ::
  "'ty artifact \<Rightarrow> string \<Rightarrow> 'ty sil_contract \<Rightarrow> string \<Rightarrow>
    (builder_error, (string, runtime_field_role_plan) btree) outcome" where
  "role_by_field a contract_name contract actor_state =
     (case find_runtime_state_plan a contract_name of
        None \<Rightarrow> Ok []
      | Some runtime_plan \<Rightarrow>
          if rsp_source runtime_plan \<noteq> actor_state
          then Err (InvalidRuntimeStatePlan contract_name (PlanSourceMismatch (rsp_source runtime_plan) actor_state))
          else try_fold (add_field_role contract_name (set (map rf_name (rs_fields (sc_runtime_state contract))))) []
            (rsp_field_roles runtime_plan))"

definition generated_value ::
  "('ty, 'val, 'x) runtime_lib_scheme \<Rightarrow> 'ty artifact \<Rightarrow> string \<Rightarrow> runtime_field_role_plan \<Rightarrow>
    (builder_error, 'val) outcome" where
  "generated_value lib a contract_name field_role =
     and_then (expect (find_runtime_state_plan a contract_name)) (\<lambda>runtime_plan.
     and_then (map_err (\<lambda>e. ArtifactVerification (artifact_app_alias (art_app a)) (TemplatePlanFailed e))
       (fixed_runtime_context_value lib (ap_template_plan (art_argent a)) runtime_plan field_role)) (\<lambda>bytes.
       Ok (sl_bytes_value lib bytes)))"

definition runtime_field_step ::
  "('ty, 'val, 'x) runtime_lib_scheme \<Rightarrow> 'ty artifact \<Rightarrow> string \<Rightarrow> 'ty sil_contract \<Rightarrow> string \<Rightarrow>
    (string, runtime_field_role_plan) btree \<Rightarrow> 'val state_map \<times> 'val state_map \<Rightarrow> 'ty runtime_field \<Rightarrow>
    (builder_error, 'val state_map \<times> 'val state_map) outcome" where
  "runtime_field_step lib a contract_name contract actor_state roles state field =
     (let (source, values) = state; name = rf_name field in
      case map_of roles name of
        None \<Rightarrow>
          (case state_expansion_memory_for_field a actor_state name of
             Some memory_state \<Rightarrow>
               and_then (state_expansion_preimage_payload lib a contract_name contract name memory_state source)
                 (\<lambda>(payload, source'). Ok (source', bm_insert name (sl_bytes_value lib (hl_blake3 lib payload)) values))
           | None \<Rightarrow>
               and_then (ok_or (map_of source name) (Codec (MissingField name)))
                 (\<lambda>v. Ok (bm_remove name source, bm_insert name v values)))
      | Some field_role \<Rightarrow>
          if map_of source name \<noteq> None then Err (HiddenRuntimeFieldProvided contract_name name)
          else and_then (generated_value lib a contract_name field_role)
            (\<lambda>v. Ok (source, bm_insert name v values)))"

definition runtime_state_values ::
  "('ty, 'val, 'x) runtime_lib_scheme \<Rightarrow> 'ty artifact \<Rightarrow> string \<Rightarrow> 'ty sil_contract \<Rightarrow> 'val state_map \<Rightarrow>
    (builder_error, 'val state_map) outcome" where
  "runtime_state_values lib a contract_name contract source_state =
     and_then (actor_ref_in_artifact a contract_name) (\<lambda>r.
     (let actor_state = ac_state (ar_actor r) in
      and_then (role_by_field a contract_name contract actor_state) (\<lambda>roles.
      and_then (try_fold (runtime_field_step lib a contract_name contract actor_state roles) (source_state, [])
        (rs_fields (sc_runtime_state contract))) (\<lambda>(source, values).
      (case source of
         (extra, _) # _ \<Rightarrow> Err (Codec (UnknownField extra))
       | [] \<Rightarrow> Ok values)))))"

section \<open>Scripts\<close>

text \<open>A state span the ABI check should have rejected is a panic.\<close>

definition materialize_redeem_script ::
  "('ty, 'val, 'x) runtime_lib_scheme \<Rightarrow> 'ty sil_abi \<Rightarrow> 'ty sil_contract \<Rightarrow> 'val state_map \<Rightarrow>
    (codec_error, byte list) outcome" where
  "materialize_redeem_script lib abi contract state =
     and_then (rl_encode_state_script lib abi (sc_runtime_state contract) state) (\<lambda>state_script.
     and_then (expect (sl_script_parts lib (sc_compiled contract) (cc_bytecode (sc_compiled contract))))
       (\<lambda>(prefix, _, suffix). Ok (prefix @ state_script @ suffix)))"

definition redeem_script_for_contract ::
  "('ty, 'val, 'x) runtime_lib_scheme \<Rightarrow> 'ty contract_ref \<Rightarrow> 'val state_map \<Rightarrow> (builder_error, byte list) outcome" where
  "redeem_script_for_contract lib r source_state =
     and_then (runtime_state_values lib (cr_artifact r) (cr_name r) (cr_contract r) source_state) (\<lambda>state.
       map_err Codec (materialize_redeem_script lib (art_sil_abi (cr_artifact r)) (cr_contract r) state))"

definition script_public_key_for_actor ::
  "('ty, 'val, 'x) runtime_lib_scheme \<Rightarrow> 'ty artifact_bundle \<Rightarrow> actor_path \<Rightarrow> 'val state_map \<Rightarrow>
    (builder_error, script_public_key) outcome" where
  "script_public_key_for_actor lib b actor source_state =
     and_then (case path_app actor of
         Some app \<Rightarrow> contract_ref_in_app lib b app (path_actor actor)
       | None \<Rightarrow> and_then (bundle_primary b) (\<lambda>a. contract_ref_in_artifact lib a (path_actor actor))) (\<lambda>r.
     and_then (redeem_script_for_contract lib r source_state) (\<lambda>script. Ok (rl_pay_to_script_hash lib script)))"

definition materialize_actor_state ::
  "('ty, 'val, 'x) runtime_lib_scheme \<Rightarrow> 'ty tx_builder \<Rightarrow> string \<Rightarrow> 'val state_map \<Rightarrow>
    (builder_error, 'val state_map) outcome" where
  "materialize_actor_state lib t actor_name source_state =
     and_then (bundle_primary (tb_bundle t)) (\<lambda>a.
     and_then (contract_ref_in_artifact lib a actor_name) (\<lambda>r.
       runtime_state_values lib (cr_artifact r) (cr_name r) (cr_contract r) source_state))"

record transaction_output =
  out_value :: "64 word"
  out_script_public_key :: script_public_key

definition genesis_output ::
  "('ty, 'val, 'x) runtime_lib_scheme \<Rightarrow> 'ty artifact_bundle \<Rightarrow> actor_path \<Rightarrow> 'val state_map \<Rightarrow> 64 word \<Rightarrow>
    (builder_error, transaction_output) outcome" where
  "genesis_output lib b actor source_state val =
     and_then (script_public_key_for_actor lib b actor source_state) (\<lambda>spk.
       Ok \<lparr>out_value = val, out_script_public_key = spk\<rparr>)"

section \<open>The value of a physical field\<close>

text \<open>
  What the loop over the fields computes for one field, as a function of the authored state
  alone: the loop consumes the authored fields it uses, but never one that a later field needs.
\<close>

definition authored_value ::
  "('ty, 'val, 'x) runtime_lib_scheme \<Rightarrow> 'ty artifact \<Rightarrow> string \<Rightarrow> 'ty sil_contract \<Rightarrow> string \<Rightarrow> 'val state_map \<Rightarrow>
    string \<Rightarrow> (builder_error, 'val) outcome" where
  "authored_value lib a contract_name contract actor_state source name =
     (case state_expansion_memory_for_field a actor_state name of
        Some memory_state \<Rightarrow>
          and_then (state_expansion_preimage_payload lib a contract_name contract name memory_state source)
            (\<lambda>(payload, _). Ok (sl_bytes_value lib (hl_blake3 lib payload)))
      | None \<Rightarrow> ok_or (map_of source name) (Codec (MissingField name)))"

definition field_value ::
  "('ty, 'val, 'x) runtime_lib_scheme \<Rightarrow> 'ty artifact \<Rightarrow> string \<Rightarrow> 'ty sil_contract \<Rightarrow> string \<Rightarrow>
    (string, runtime_field_role_plan) btree \<Rightarrow> 'val state_map \<Rightarrow> string \<Rightarrow> (builder_error, 'val) outcome" where
  "field_value lib a contract_name contract actor_state roles source name =
     (case map_of roles name of
        None \<Rightarrow> authored_value lib a contract_name contract actor_state source name
      | Some field_role \<Rightarrow>
          if map_of source name \<noteq> None then Err (HiddenRuntimeFieldProvided contract_name name)
          else generated_value lib a contract_name field_role)"

lemma map_of_bm_remove [simp]: "map_of (bm_remove k m) k' = (if k' = k then None else map_of m k')"
  by (induction m) (auto simp: bm_remove_def)

lemma and_then_assoc: "and_then (and_then m f) g = and_then m (\<lambda>x. and_then (f x) g)"
  by (cases m) simp_all

text \<open>The payload depends on the authored value of the digest field only.\<close>

definition preimage_bytes ::
  "('ty, 'val, 'x) runtime_lib_scheme \<Rightarrow> 'ty artifact \<Rightarrow> string \<Rightarrow> 'ty sil_contract \<Rightarrow> string \<Rightarrow> string \<Rightarrow>
    'val option \<Rightarrow> (builder_error, byte list) outcome" where
  "preimage_bytes lib a cn c n m provided =
     and_then (state_artifact a m) (\<lambda>memory.
     and_then (ok_or (Option.bind provided (rl_object_value lib)) (MissingStateExpansionPreimage cn n m)) (\<lambda>values.
     and_then (try_each (\<lambda>field. if map_of values (af_name field) = None
       then Err (MissingStateExpansionPreimage cn n m) else Ok ()) (as_fields memory)) (\<lambda>_.
       map_err Codec (rl_encode_struct lib (art_sil_abi a) c m values))))"

lemma payload_eq:
  "state_expansion_preimage_payload lib a cn c n m source =
    and_then (preimage_bytes lib a cn c n m (map_of source n)) (\<lambda>p. Ok (p, bm_remove n source))"
  by (cases "Option.bind (map_of source n) (rl_object_value lib)")
    (simp_all add: state_expansion_preimage_payload_def preimage_bytes_def and_then_assoc Let_def)

lemma field_value_cong:
  "map_of source n = map_of source' n \<Longrightarrow>
    field_value lib a cn c st roles source n = field_value lib a cn c st roles source' n"
  by (simp add: field_value_def authored_value_def payload_eq and_then_assoc split: option.split)

lemma runtime_field_step_eq:
  "runtime_field_step lib a cn c st roles (source, values) f =
    and_then (field_value lib a cn c st roles source (rf_name f)) (\<lambda>v.
      Ok (if map_of roles (rf_name f) = None then bm_remove (rf_name f) source else source,
          bm_insert (rf_name f) v values))"
  by (simp add: runtime_field_step_def field_value_def authored_value_def payload_eq and_then_assoc Let_def
      split: option.split)

definition unconsumed :: "(string, runtime_field_role_plan) btree \<Rightarrow> string list \<Rightarrow> 'val state_map \<Rightarrow> 'val state_map" where
  "unconsumed roles names source = filter (\<lambda>(k, _). \<not> (k \<in> set names \<and> map_of roles k = None)) source"

lemma runtime_fields_loop:
  assumes "distinct (map rf_name fs)"
  shows "try_fold (runtime_field_step lib a cn c st roles) (source, values) fs =
    and_then (try_map (\<lambda>f. field_value lib a cn c st roles source (rf_name f)) fs) (\<lambda>vs.
      Ok (unconsumed roles (map rf_name fs) source, fold (\<lambda>(k, v). bm_insert k v) (zip (map rf_name fs) vs) values))"
  using assms
proof (induction fs arbitrary: source "values")
  case Nil
  then show ?case by (simp add: unconsumed_def)
next
  case (Cons f fs)
  define s' where "s' = (if map_of roles (rf_name f) = None then bm_remove (rf_name f) source else source)"
  have "map_of s' (rf_name g) = map_of source (rf_name g)" if "g \<in> set fs" for g
    using that Cons.prems by (simp add: s'_def) (metis image_eqI)
  then have same: "try_map (\<lambda>f. field_value lib a cn c st roles s' (rf_name f)) fs
      = try_map (\<lambda>f. field_value lib a cn c st roles source (rf_name f)) fs"
    by (induction fs) (auto simp: field_value_cong [of s' _ source])
  have rest: "unconsumed roles (map rf_name fs) s' = unconsumed roles (map rf_name (f # fs)) source"
    by (auto simp: unconsumed_def s'_def bm_remove_def intro!: filter_cong)
  have "try_fold (runtime_field_step lib a cn c st roles) (source, values) (f # fs)
      = and_then (field_value lib a cn c st roles source (rf_name f)) (\<lambda>v.
          try_fold (runtime_field_step lib a cn c st roles) (s', bm_insert (rf_name f) v values) fs)"
    by (cases "field_value lib a cn c st roles source (rf_name f)") (simp_all add: runtime_field_step_eq s'_def)
  also have "\<dots> = and_then (field_value lib a cn c st roles source (rf_name f)) (\<lambda>v.
      and_then (try_map (\<lambda>f. field_value lib a cn c st roles source (rf_name f)) fs) (\<lambda>vs.
        Ok (unconsumed roles (map rf_name (f # fs)) source,
            fold (\<lambda>(k, v). bm_insert k v) (zip (map rf_name fs) vs) (bm_insert (rf_name f) v values))))"
    using Cons by (simp add: same rest)
  finally show ?case
    by (cases "field_value lib a cn c st roles source (rf_name f)";
        cases "try_map (\<lambda>f. field_value lib a cn c st roles source (rf_name f)) fs") simp_all
qed

section \<open>What an accepted state is\<close>

lemma unconsumed_empty:
  "unconsumed roles names source = [] \<longleftrightarrow> (\<forall>k \<in> set (bm_keys source). k \<in> set names \<and> map_of roles k = None)"
  by (auto simp: unconsumed_def filter_empty_conv)

lemma fields_filled:
  assumes "distinct names" and "length vs = length names"
  defines "m \<equiv> fold (\<lambda>(k, v). bm_insert k v) (zip names vs) []"
  shows "sorted_wrt (<) (bm_keys m)" "set (bm_keys m) = set names"
    and "i < length names \<Longrightarrow> map_of m (names ! i) = Some (vs ! i)"
proof -
  have get: "map_of m = map_of (zip names vs)"
    using assms by (auto simp: m_def fun_eq_iff intro: bm.get_filled_distinct)
  show "sorted_wrt (<) (bm_keys m)" unfolding m_def by (rule bm.filled_sorted)
  have "set (bm_keys m) = dom (map_of m)" by (simp add: dom_map_of_conv_image_fst)
  also have "\<dots> = set names" using assms(2) by (simp add: get)
  finally show "set (bm_keys m) = set names" .
  show "i < length names \<Longrightarrow> map_of m (names ! i) = Some (vs ! i)"
    using assms(1,2) by (simp add: get map_of_zip_nth)
qed

lemma fields_filled_iff:
  fixes names :: "string list"
  assumes "distinct names"
  shows "(\<exists>vs. try_map g names = Ok vs \<and> m = fold (\<lambda>(k, v). bm_insert k v) (zip names vs) []) \<longleftrightarrow>
    sorted_wrt (<) (bm_keys m) \<and> set (bm_keys m) = set names \<and> (\<forall>n \<in> set names. \<exists>v. g n = Ok v \<and> map_of m n = Some v)"
    (is "?l \<longleftrightarrow> ?r")
proof
  assume ?l
  then obtain vs where vs: "list_all2 (\<lambda>n v. g n = Ok v) names vs" "m = fold (\<lambda>(k, v). bm_insert k v) (zip names vs) []"
    by (auto simp: try_map_Ok_iff)
  moreover have len: "length vs = length names" using vs(1) by (simp add: list_all2_lengthD)
  moreover have "\<exists>v. g n = Ok v \<and> map_of m n = Some v" if "n \<in> set names" for n
  proof -
    from that obtain i where "i < length names" "n = names ! i" by (auto simp: in_set_conv_nth)
    with vs fields_filled(3) [OF assms len, of i] show ?thesis by (auto simp: list_all2_conv_all_nth)
  qed
  ultimately show ?r
    using fields_filled(1,2) [OF assms len] by blast
next
  assume r: ?r
  define vs where "vs = map (\<lambda>n. the (map_of m n)) names"
  have all: "try_map g names = Ok vs"
    using r by (auto simp: vs_def intro!: try_map_total)
  have len: "length vs = length names" by (simp add: vs_def)
  let ?m = "fold (\<lambda>(k, v). bm_insert k v) (zip names vs) []"
  have "map_of m = map_of ?m"
  proof
    fix k
    show "map_of m k = map_of ?m k"
    proof (cases "k \<in> set names")
      case True
      then obtain i where i: "i < length names" "k = names ! i" by (auto simp: in_set_conv_nth)
      from r True obtain v where "map_of m k = Some v" by blast
      moreover have "map_of ?m k = Some (the (map_of m k))"
        using fields_filled(3) [OF assms len i(1)] i by (simp add: vs_def)
      ultimately show ?thesis by simp
    next
      case False
      then show ?thesis using r fields_filled(2) [OF assms len] by (metis list.set_map map_of_eq_None_iff)
    qed
  qed
  with r fields_filled(1) [OF assms len] have "m = ?m" by (intro btree_eqI) auto
  with all show ?l by blast
qed

lemma try_map_map: "try_map g (map h xs) = try_map (\<lambda>x. g (h x)) xs"
  by (induction xs) simp_all

text \<open>
  C32: Materialising an authored state succeeds exactly with a map that has one value for every
  field of the contract's runtime state and no other key: a field with a role of the
  template plan holds the context value the plan fixes for it, an expanded field the hash of
  its encoded preimage, any other field the authored value. It is refused when the authored
  state has a field with a role, lacks one without, or has one the layout does not know.
\<close>

theorem runtime_state_values_exact:
  assumes "distinct (map rf_name (rs_fields (sc_runtime_state c)))"
  shows "runtime_state_values lib a cn c source = Ok m \<longleftrightarrow>
    (\<exists>decl roles. find (\<lambda>actor. ac_name actor = cn) (ap_actors (art_argent a)) = Some decl
      \<and> role_by_field a cn c (ac_state decl) = Ok roles
      \<and> sorted_wrt (<) (bm_keys m) \<and> set (bm_keys m) = set (map rf_name (rs_fields (sc_runtime_state c)))
      \<and> (\<forall>n \<in> set (map rf_name (rs_fields (sc_runtime_state c))). \<exists>v.
           map_of m n = Some v \<and>
           (case map_of roles n of
              Some field_role \<Rightarrow> map_of source n = None \<and> generated_value lib a cn field_role = Ok v
            | None \<Rightarrow> authored_value lib a cn c (ac_state decl) source n = Ok v))
      \<and> (\<forall>k \<in> set (bm_keys source). k \<in> set (map rf_name (rs_fields (sc_runtime_state c))) \<and> map_of roles k = None))"
proof -
  let ?names = "map rf_name (rs_fields (sc_runtime_state c))"
  have rest: "(case u of [] \<Rightarrow> Ok values | (extra, _) # _ \<Rightarrow> Err (Codec (UnknownField extra))) = Ok m
      \<longleftrightarrow> u = [] \<and> values = m" for u :: "'b state_map" and "values" :: "'b state_map"
    by (cases u) auto
  have loop: "(\<exists>u values. try_fold (runtime_field_step lib a cn c st roles) (source, []) (rs_fields (sc_runtime_state c)) = Ok (u, values)
        \<and> u = [] \<and> values = m) \<longleftrightarrow>
      (\<forall>k \<in> set (bm_keys source). k \<in> set ?names \<and> map_of roles k = None)
      \<and> sorted_wrt (<) (bm_keys m) \<and> set (bm_keys m) = set ?names
      \<and> (\<forall>n \<in> set ?names. \<exists>v. field_value lib a cn c st roles source n = Ok v \<and> map_of m n = Some v)" for st roles
    unfolding runtime_fields_loop [OF assms] and_then_Ok_iff fields_filled_iff [OF assms, symmetric] unconsumed_empty [symmetric]
    by (auto simp: try_map_map)
  have "runtime_state_values lib a cn c source = Ok m \<longleftrightarrow>
    (\<exists>decl roles. find (\<lambda>actor. ac_name actor = cn) (ap_actors (art_argent a)) = Some decl
      \<and> role_by_field a cn c (ac_state decl) = Ok roles
      \<and> (\<exists>u values. try_fold (runtime_field_step lib a cn c (ac_state decl) roles) (source, [])
            (rs_fields (sc_runtime_state c)) = Ok (u, values) \<and> u = [] \<and> values = m))"
    by (auto simp: runtime_state_values_def actor_ref_in_artifact_def and_then_Ok_iff rest Let_def)
  moreover have "field_value lib a cn c st roles source n = Ok v \<longleftrightarrow> (case map_of roles n of
      Some field_role \<Rightarrow> map_of source n = None \<and> generated_value lib a cn field_role = Ok v
    | None \<Rightarrow> authored_value lib a cn c st source n = Ok v)" for st roles n v
    by (auto simp: field_value_def split: option.split)
  ultimately show ?thesis unfolding loop by (simp add: conj_ac) 
qed

section \<open>No panics\<close>

lemma role_by_field_plan:
  assumes "role_by_field a cn c st = Ok roles" and "map_of roles n = Some fr"
  shows "\<exists>plan. find_runtime_state_plan a cn = Some plan \<and> fr \<in> set (rsp_field_roles plan) \<and> fr_name fr = n"
proof -
  from assms obtain plan where plan: "find_runtime_state_plan a cn = Some plan"
    and loop: "try_fold (add_field_role cn (set (map rf_name (rs_fields (sc_runtime_state c))))) []
        (rsp_field_roles plan) = Ok roles"
    by (auto simp: role_by_field_def split: option.splits if_splits)
  have "\<forall>n fr. map_of roles n = Some fr \<longrightarrow> fr \<in> set (rsp_field_roles plan) \<and> fr_name fr = n"
    using loop
    by (rule try_fold_Ok_invariant) (auto simp: add_field_role_def split: if_splits)
  with assms(2) plan show ?thesis by blast
qed

lemma preimage_bytes_not_Panic:
  "runtime_lib_ok lib \<Longrightarrow> preimage_bytes lib a cn c n m v \<noteq> Panic"
  by (auto simp: preimage_bytes_def and_then_Panic_iff state_artifact_def runtime_lib_okD(4)
      dest!: try_each_not_Panic [THEN notE, rotated] split: if_splits)

lemma field_value_not_Panic:
  assumes "runtime_lib_ok lib" and "role_by_field a cn c st = Ok roles"
  shows "field_value lib a cn c st roles source n \<noteq> Panic"
  using preimage_bytes_not_Panic [OF assms(1), of a cn c n] role_by_field_plan [OF assms(2), of n]
  by (auto simp: field_value_def authored_value_def generated_value_def payload_eq and_then_Panic_iff split: option.splits)

lemma runtime_state_values_not_Panic:
  assumes "runtime_lib_ok lib"
  shows "runtime_state_values lib a cn c source \<noteq> Panic"
proof -
  have roles: "role_by_field a cn c st \<noteq> Panic" for st
    by (auto simp: role_by_field_def add_field_role_def dest!: try_fold_not_Panic [THEN notE, rotated]
        split: option.splits if_splits)
  have "try_fold (runtime_field_step lib a cn c st rs) (source, []) fs \<noteq> Panic"
    if "role_by_field a cn c st = Ok rs" for st rs fs
    by (rule try_fold_not_Panic)
      (auto simp: runtime_field_step_eq and_then_Panic_iff field_value_not_Panic [OF assms that] split_paired_all)
  with roles show ?thesis
    by (auto simp: runtime_state_values_def actor_ref_in_artifact_def and_then_Panic_iff Let_def split: list.splits prod.splits)
qed

lemma redeem_script_not_Panic:
  assumes "runtime_lib_ok lib" and "check_consistency lib (cr_artifact r) = Ok ()"
    and "sl_contract lib (art_sil_abi (cr_artifact r)) name = Some (cr_contract r)"
  shows "redeem_script_for_contract lib r source \<noteq> Panic"
proof -
  have "al_check_sil_abi lib (art_sil_abi (cr_artifact r)) = Ok ()"
    using assms(2) by (auto simp: check_consistency_def and_then_Ok_iff)
  from runtime_lib_okD(7) [OF assms(1) this assms(3)] show ?thesis
    using runtime_lib_okD(5) [OF assms(1)]
    by (auto simp: redeem_script_for_contract_def materialize_redeem_script_def and_then_Panic_iff
        runtime_state_values_not_Panic [OF assms(1)])
qed

lemma find_key: "find (\<lambda>(key, _). key = name) m = map_option (Pair name) (map_of m name)"
  by (induction m) auto

lemma contract_ref_in_artifact_iff:
  assumes "sil_lib_ok lib"
  shows "contract_ref_in_artifact lib a name = Ok r \<longleftrightarrow>
    (\<exists>c. map_of (sil_contracts (art_sil_abi a)) name = Some c \<and> r = \<lparr>cr_artifact = a, cr_name = name, cr_contract = c\<rparr>)"
    and "contract_ref_in_artifact lib a name \<noteq> Panic"
  using assms
  by (auto simp: contract_ref_in_artifact_def contract_in_artifact_def sil_lib_ok_def find_key and_then_Ok_iff and_then_Panic_iff)

section \<open>A materialised state\<close>

definition demo_runtime_lib :: "(nat, byte list) runtime_lib" where
  "demo_runtime_lib = artifact_lib.extend demo_artifact_lib
     \<lparr>rl_object_value = (\<lambda>v. if v = [] then None else Some [(''memo'', v)]),
      rl_int_value = (\<lambda>i. [ucast i]),
      rl_encode_struct = (\<lambda>_ _ _ m. Ok (concat (map snd m))),
      rl_encode_state_script = (\<lambda>_ _ m. Ok (concat (map snd m))),
      rl_decode_hex = (\<lambda>t. Ok (the (hl_hex_decode demo_sil_lib t (length t div 2)))),
      rl_pay_to_script_hash = (\<lambda>s. \<lparr>spk_version = 0, spk_script = s\<rparr>),
      rl_covenant_id = (\<lambda>o' outs. op_transaction_id o' @ [of_nat (length outs)])\<rparr>"

lemma demo_runtime_lib_ok: "runtime_lib_ok demo_runtime_lib"
  using demo_artifact_lib_ok
  by (simp add: runtime_lib_ok_def artifact_lib_ok_def sil_lib_ok_def hash_lib_ok_def demo_runtime_lib_def
      demo_artifact_lib_def demo_sil_lib_def artifact_lib.defs sil_lib.defs)

lemma demo_runtime_consistent: "check_consistency demo_runtime_lib provider_artifact = Ok ()"
  by (simp add: demo_runtime_lib_def demo_provider_consistent)

definition demo_contract_a :: "nat sil_contract" where
  "demo_contract_a = the (map_of (sil_contracts (art_sil_abi demo_artifact)) ''A'')"

lemma demo_state_materialises:
  "runtime_state_values demo_runtime_lib demo_artifact ''A'' demo_contract_a [(''n'', [5])]
    = Ok [(''kids'', demo_kids), (''main'', demo_main), (''n'', [5])]"
  by code_simp

lemma runtime_state_values_exact_witness:
  "\<exists>roles. role_by_field demo_artifact ''A'' demo_contract_a ''S'' = Ok roles
    \<and> (\<forall>k \<in> {''n''}. map_of roles k = None)"
proof -
  have "distinct (map rf_name (rs_fields (sc_runtime_state demo_contract_a)))" by code_simp
  moreover have "find (\<lambda>actor. ac_name actor = ''A'') (ap_actors (art_argent demo_artifact)) = Some d \<Longrightarrow> ac_state d = ''S''" for d
    by (auto simp: demo_artifact_def plain_artifact_def plain_actor_def Let_def)
  ultimately show ?thesis
    using demo_state_materialises runtime_state_values_exact [of demo_contract_a demo_runtime_lib demo_artifact "''A''"] by auto
qed

end
