(* ===== verification/Hidden_Arguments.thy ===== *)
theory Hidden_Arguments
  imports State_Materialize
begin

text \<open>
  The generated arguments of an entry call: \<^verbatim>\<open>resolve_hidden_args_in_artifact\<close>,
  \<^verbatim>\<open>lower_arg_values\<close>, the template references and the route-proof material of
  \<^verbatim>\<open>TxBuilder\<close> in \<^verbatim>\<open>crates/argent-runtime/src/lib.rs\<close>. Observed and spawned
  actors come in contexts that the transaction resolver fills.
\<close>

section \<open>Contexts\<close>

record utxo_entry =
  ue_amount :: "64 word"
  ue_script_public_key :: script_public_key
  ue_block_daa_score :: "64 word"
  ue_is_coinbase :: bool
  ue_covenant_id :: "byte list option"

record 'val observed_input =
  oi_actor :: string
  oi_state :: "'val state_map"
  oi_utxo :: utxo_entry

record 'val observed_output =
  oo_actor :: string
  oo_state :: "'val state_map"

record 'val observed_context =
  oc_app :: string
  oc_inputs :: "(string, 'val observed_input) btree"
  oc_outputs :: "(string, 'val observed_output) btree"

record spawned_context =
  sx_app :: string
  sx_actor :: string
  sx_output_index :: nat

record 'val hidden_contexts =
  hc_observed :: "(string, 'val observed_context) btree option"
  hc_spawned :: "(string \<times> string, spawned_context) btree option"

datatype 'val arg_value = ArgPlain 'val | ArgActor string

definition side_of :: "observed_actor_side \<Rightarrow> observed_side" where
  "side_of side = (case side of SideInput \<Rightarrow> SideIn | SideOutput \<Rightarrow> SideOut)"

section \<open>Template references\<close>

definition template_parts ::
  "('ty, 'val, 'x) sil_lib_scheme \<Rightarrow> 'ty sil_contract \<Rightarrow> (builder_error, byte list \<times> byte list \<times> byte list) outcome" where
  "template_parts lib contract = expect (sl_script_parts lib (sc_compiled contract) (cc_bytecode (sc_compiled contract)))"

definition prefix_bytes ::
  "('ty, 'val, 'x) sil_lib_scheme \<Rightarrow> 'ty template_view \<Rightarrow> (builder_error, byte list) outcome" where
  "prefix_bytes lib t = (case t of
      SilTemplate contract \<Rightarrow> and_then (template_parts lib contract) (\<lambda>(p, _, _). Ok p)
    | ActorTypeTemplate template \<Rightarrow> Ok (at_prefix template))"

definition suffix_bytes ::
  "('ty, 'val, 'x) sil_lib_scheme \<Rightarrow> 'ty template_view \<Rightarrow> (builder_error, byte list) outcome" where
  "suffix_bytes lib t = (case t of
      SilTemplate contract \<Rightarrow> and_then (template_parts lib contract) (\<lambda>(_, _, s). Ok s)
    | ActorTypeTemplate template \<Rightarrow> Ok (at_suffix template))"

definition hash_bytes :: "'ty template_view \<Rightarrow> byte list" where
  "hash_bytes t = (case t of
      SilTemplate contract \<Rightarrow> cc_template_hash (sc_compiled contract)
    | ActorTypeTemplate template \<Rightarrow> at_hash template)"

definition prefix_len :: "'ty template_view \<Rightarrow> nat" where
  "prefix_len t = (case t of
      SilTemplate contract \<Rightarrow> span_offset (cc_state_span (sc_compiled contract))
    | ActorTypeTemplate template \<Rightarrow> length (at_prefix template))"

definition suffix_len ::
  "('ty, 'val, 'x) sil_lib_scheme \<Rightarrow> 'ty template_view \<Rightarrow> (builder_error, nat) outcome" where
  "suffix_len lib t = (case t of
      SilTemplate contract \<Rightarrow> and_then (template_parts lib contract) (\<lambda>(_, _, s). Ok (length s))
    | ActorTypeTemplate template \<Rightarrow> Ok (length (at_suffix template)))"

section \<open>Observed actors and spawns\<close>

definition find_observe ::
  "string \<Rightarrow> string \<Rightarrow> 'ty entry_decl \<Rightarrow> string \<Rightarrow> (builder_error, observe_decl) outcome" where
  "find_observe actor_name entry_name entry observe_name =
     ok_or (find (\<lambda>o'. ob_name o' = observe_name) (en_observes entry)) (UnknownObserve actor_name entry_name observe_name)"

definition find_observed_actor ::
  "'ty entry_decl \<Rightarrow> string \<Rightarrow> observed_actor_side \<Rightarrow> string \<Rightarrow> (builder_error, observed_actor) outcome" where
  "find_observed_actor entry observe_name side handle =
     and_then (find_observe (ea_contract (en_abi entry)) (en_name entry) entry observe_name) (\<lambda>observe.
       ok_or (find (\<lambda>actor. oa_name actor = handle)
           (case side of SideInput \<Rightarrow> ob_inputs observe | SideOutput \<Rightarrow> ob_outputs observe))
         (MissingObservedActor observe_name (side_of side) handle))"

definition find_spawn_output :: "'ty entry_decl \<Rightarrow> string \<Rightarrow> string \<Rightarrow> spawn_output option" where
  "find_spawn_output entry spawn handle =
     Option.bind (find (\<lambda>s. sp_name s = spawn) (en_spawns entry))
       (\<lambda>s. find (\<lambda>output. so_name output = handle) (sp_outputs s))"

definition spawned_actor ::
  "'ty entry_decl \<Rightarrow> 'val hidden_contexts \<Rightarrow> string \<Rightarrow> string \<Rightarrow> (builder_error, spawned_context) outcome" where
  "spawned_actor entry contexts spawn handle =
     ok_or (Option.bind (hc_spawned contexts) (\<lambda>m. map_of m (spawn, handle)))
       (MissingSpawnOutput spawn handle (case find_spawn_output entry spawn handle of
          Some output \<Rightarrow> so_group_index output | None \<Rightarrow> 0))"

section \<open>Subjects of hidden parameters\<close>

definition hidden_actor_subject :: "'ty hidden_param \<Rightarrow> (builder_error, string) outcome" where
  "hidden_actor_subject hidden = (case hp_subject hidden of
      SubjectActor actor \<Rightarrow> Ok actor
    | SubjectObservedActor _ _ _ actor \<Rightarrow> Ok actor
    | SubjectSpawnActor _ _ actor \<Rightarrow> Ok actor
    | _ \<Rightarrow> Err (UnexpectedHiddenSubject (hp_name hidden) ''actor''))"

definition hidden_family_subject :: "'ty hidden_param \<Rightarrow> (builder_error, string) outcome" where
  "hidden_family_subject hidden = (case hp_subject hidden of
      SubjectRouteFamily family_id \<Rightarrow> Ok family_id
    | _ \<Rightarrow> Err (UnexpectedHiddenSubject (hp_name hidden) ''route family''))"

definition selected_actor ::
  "template_selector \<Rightarrow> (string, string) btree \<Rightarrow> (builder_error, string) outcome" where
  "selected_actor selector template_selectors =
     (case (map_of template_selectors (ts_name selector), ts_fixed_actor selector) of
        (Some selected, Some fixed) \<Rightarrow>
          if selected \<noteq> fixed then Err (InvalidTemplateSelectorChoice (ts_name selector) selected) else Ok selected
      | (Some selected, None) \<Rightarrow> Ok selected
      | (None, Some fixed) \<Rightarrow> Ok fixed
      | (None, None) \<Rightarrow> Err (MissingTemplateSelectorChoice (ts_name selector)))"

definition hidden_template_actor ::
  "'ty hidden_param \<Rightarrow> 'ty entry_decl \<Rightarrow> (string, string) btree \<Rightarrow> (builder_error, string) outcome" where
  "hidden_template_actor hidden entry template_selectors = (case hp_subject hidden of
      SubjectActor actor \<Rightarrow> Ok actor
    | SubjectObservedActor _ _ _ actor \<Rightarrow> Ok actor
    | SubjectSpawnActor _ _ actor \<Rightarrow> Ok actor
    | SubjectTemplateSelector name \<Rightarrow>
        and_then (ok_or (find (\<lambda>s. ts_name s = name) (en_template_selectors entry))
          (MissingTemplateSelectorChoice name)) (\<lambda>selector.
        and_then (selected_actor selector template_selectors) (\<lambda>selected.
          if list_all (\<lambda>variant. variant \<noteq> selected) (ts_variants selector)
          then Err (InvalidTemplateSelectorChoice (ts_name selector) selected)
          else Ok selected))
    | _ \<Rightarrow> Err (UnexpectedHiddenSubject (hp_name hidden) ''actor or template selector''))"

section \<open>The contract and template a parameter is about\<close>

definition observed_subject_contract_ref ::
  "('ty, 'val, 'x) sil_lib_scheme \<Rightarrow> 'ty artifact_bundle \<Rightarrow> 'ty artifact \<Rightarrow> 'ty entry_decl \<Rightarrow> 'v hidden_contexts \<Rightarrow>
    string \<Rightarrow> observed_actor_side \<Rightarrow> string \<Rightarrow> string \<Rightarrow> (builder_error, 'ty contract_ref) outcome" where
  "observed_subject_contract_ref lib b primary entry contexts observe side handle actor =
     (case Option.bind (hc_observed contexts) (\<lambda>m. map_of m observe) of
        Some observed_context \<Rightarrow>
          (let seen = (case side of
               SideInput \<Rightarrow> map_option oi_actor (map_of (oc_inputs observed_context) handle)
             | SideOutput \<Rightarrow> map_option oo_actor (map_of (oc_outputs observed_context) handle)) in
           contract_ref_in_app lib b (oc_app observed_context) (case seen of Some found \<Rightarrow> found | None \<Rightarrow> actor))
      | None \<Rightarrow>
          and_then (find_observed_actor entry observe side handle) (\<lambda>observed.
            case oa_target observed of
              DynamicActor _ \<Rightarrow> Err (MissingObservedCovenant observe)
            | StaticActor app target \<Rightarrow>
                if app = art_app primary then contract_ref_in_artifact lib primary target
                else observed_contract_ref lib b primary app target))"

definition hidden_template_contract_ref ::
  "('ty, 'val, 'x) sil_lib_scheme \<Rightarrow> 'ty artifact_bundle \<Rightarrow> 'ty artifact \<Rightarrow> 'ty hidden_param \<Rightarrow> 'ty entry_decl \<Rightarrow>
    (string, string) btree \<Rightarrow> 'v hidden_contexts \<Rightarrow> (builder_error, 'ty contract_ref) outcome" where
  "hidden_template_contract_ref lib b primary hidden entry template_selectors contexts = (case hp_subject hidden of
      SubjectActor actor \<Rightarrow> actor_subject_contract_ref lib b primary actor
    | SubjectObservedActor observe side handle actor \<Rightarrow>
        observed_subject_contract_ref lib b primary entry contexts observe side handle actor
    | SubjectSpawnActor spawn handle _ \<Rightarrow>
        and_then (spawned_actor entry contexts spawn handle) (\<lambda>spawned.
          contract_ref_in_app lib b (sx_app spawned) (sx_actor spawned))
    | SubjectTemplateSelector _ \<Rightarrow>
        and_then (hidden_template_actor hidden entry template_selectors) (contract_ref_in_artifact lib primary)
    | _ \<Rightarrow> Err (UnexpectedHiddenSubject (hp_name hidden) ''actor or template selector''))"

definition imported_app :: "'ty entry_decl \<Rightarrow> hidden_param_subject \<Rightarrow> (builder_error, string option) outcome" where
  "imported_app entry subject = (case subject of
      SubjectActor actor \<Rightarrow> Ok (map_option fst (split_once actor))
    | SubjectObservedActor observe side handle _ \<Rightarrow>
        and_then (find_observed_actor entry observe side handle) (\<lambda>observed.
          Ok (case oa_target observed of StaticActor app _ \<Rightarrow> Some app | DynamicActor _ \<Rightarrow> None))
    | _ \<Rightarrow> Ok None)"

definition open_state :: "'ty entry_decl \<Rightarrow> hidden_param_subject \<Rightarrow> (builder_error, string option) outcome" where
  "open_state entry subject = (case subject of
      SubjectObservedActor observe side handle _ \<Rightarrow>
        and_then (find_observed_actor entry observe side handle) (\<lambda>observed.
          Ok (case oa_target observed of DynamicActor state \<Rightarrow> Some state | StaticActor _ _ \<Rightarrow> None))
    | SubjectSpawnActor spawn handle _ \<Rightarrow> Ok (map_option so_state (find_spawn_output entry spawn handle))
    | _ \<Rightarrow> Ok None)"

definition hidden_template ::
  "('ty, 'val, 'x) sil_lib_scheme \<Rightarrow> 'ty artifact_bundle \<Rightarrow> 'ty artifact \<Rightarrow> 'ty hidden_param \<Rightarrow> 'ty entry_decl \<Rightarrow>
    (string, string) btree \<Rightarrow> 'v hidden_contexts \<Rightarrow> (builder_error, 'ty template_view) outcome" where
  "hidden_template lib b primary hidden entry template_selectors contexts =
     and_then (hidden_template_contract_ref lib b primary hidden entry template_selectors contexts) (\<lambda>r.
     and_then (imported_app entry (hp_subject hidden)) (\<lambda>imported.
     case imported of
       Some app \<Rightarrow>
         if app = art_app primary then Ok (SilTemplate (cr_contract r))
         else and_then (actor_ref_in_artifact (cr_artifact r) (cr_name r)) (\<lambda>actor.
           and_then (ok_or (find_receipt (cr_artifact r) (cr_name r))
             (MissingActorTypeHandle (cr_name r) (ac_state (ar_actor actor)))) (\<lambda>template.
             Ok (ActorTypeTemplate (ah_template (tr_actor_type_handle template)))))
     | None \<Rightarrow>
         and_then (open_state entry (hp_subject hidden)) (\<lambda>opened.
         case opened of
           None \<Rightarrow> Ok (SilTemplate (cr_contract r))
         | Some state \<Rightarrow>
             and_then (actor_ref_in_artifact (cr_artifact r) (cr_name r)) (\<lambda>actor.
             if expanded_base (cr_artifact r) (ac_state (ar_actor actor)) = None \<and> ac_state (ar_actor actor) = state
             then Ok (SilTemplate (cr_contract r))
             else and_then (ok_or (Option.bind (find_receipt (cr_artifact r) (cr_name r))
                 (\<lambda>t. if ah_state (tr_actor_type_handle t) = state then Some (tr_actor_type_handle t) else None))
               (MissingActorTypeHandle (cr_name r) state)) (\<lambda>handle.
               Ok (ActorTypeTemplate (ah_template handle)))))))"

section \<open>Route-proof material\<close>

definition route_template_proof_in_artifact ::
  "'ty artifact \<Rightarrow> string \<Rightarrow> (builder_error, route_template_proof) outcome" where
  "route_template_proof_in_artifact a i =
     ok_or (find (\<lambda>p. rp_id p = i) (tp_route_proofs (ap_template_plan (art_argent a)))) (UnknownRouteProof i)"

definition route_leaf_label :: "route_template_leaf \<Rightarrow> string" where
  "route_leaf_label leaf = (case leaf of TemplateLeaf actor _ \<Rightarrow> actor | RouteFamilyLeaf family_id _ \<Rightarrow> family_id)"

definition proof_bytes ::
  "('ty, 'val, 'x) runtime_lib_scheme \<Rightarrow> route_proof_leaf \<Rightarrow> (builder_error, byte list) outcome" where
  "proof_bytes lib leaf =
     try_fold (\<lambda>proof step. and_then (map_err Codec (rl_decode_hex lib (ps_hash_hex step))) (\<lambda>bytes. Ok (proof @ bytes)))
       [] (pl_proof leaf)"

definition route_template_proof_bytes ::
  "('ty, 'val, 'x) runtime_lib_scheme \<Rightarrow> 'ty artifact \<Rightarrow> string \<Rightarrow> route_template_leaf \<Rightarrow>
    (builder_error, byte list) outcome" where
  "route_template_proof_bytes lib a i wanted =
     and_then (route_template_proof_in_artifact a i) (\<lambda>receipt.
     and_then (ok_or (find (\<lambda>leaf. pl_leaf leaf = wanted) (rp_leaves receipt))
       (MissingRouteProofLeaf i (route_leaf_label wanted))) (proof_bytes lib))"

definition is_template_leaf_of :: "string \<Rightarrow> route_template_leaf \<Rightarrow> bool" where
  "is_template_leaf_of actor leaf = (case leaf of TemplateLeaf leaf_actor _ \<Rightarrow> leaf_actor = actor | RouteFamilyLeaf _ _ \<Rightarrow> False)"

definition route_template_proof_bytes_for_actor ::
  "('ty, 'val, 'x) runtime_lib_scheme \<Rightarrow> 'ty artifact \<Rightarrow> string \<Rightarrow> string \<Rightarrow> (builder_error, byte list) outcome" where
  "route_template_proof_bytes_for_actor lib a i actor =
     and_then (route_template_proof_in_artifact a i) (\<lambda>receipt.
     and_then (ok_or (find (\<lambda>leaf. is_template_leaf_of actor (pl_leaf leaf)) (rp_leaves receipt))
       (MissingRouteProofLeaf i actor)) (proof_bytes lib))"

definition route_family_table_bytes ::
  "('ty, 'val, 'x) sil_lib_scheme \<Rightarrow> 'ty artifact \<Rightarrow> string \<Rightarrow> (builder_error, byte list) outcome" where
  "route_family_table_bytes lib a family_id =
     (let plan = ap_template_plan (art_argent a) in
      and_then (ok_or (find (\<lambda>f. rfm_id f = family_id) (tp_route_families plan)) (UnknownRouteFamily family_id)) (\<lambda>family.
      and_then (ok_or (find (\<lambda>t. rt_id t = rfm_table_id family) (tp_route_tables plan)) (UnknownRouteTable (rfm_table_id family))) (\<lambda>table.
        try_fold (\<lambda>bytes entry. case te_leaf entry of
            TemplateLeaf actor _ \<Rightarrow>
              and_then (contract_in_artifact lib a actor) (\<lambda>contract. Ok (bytes @ cc_template_hash (sc_compiled contract)))
          | RouteFamilyLeaf nested _ \<Rightarrow> Err (NestedRouteFamilyTableLeaf (rt_id table) nested)) [] (rt_entries table))))"

section \<open>Hidden arguments\<close>

definition state_expansion_preimage_arg ::
  "('ty, 'val, 'x) runtime_lib_scheme \<Rightarrow> 'ty contract_ref \<Rightarrow> 'ty hidden_param \<Rightarrow> 'val state_map \<Rightarrow>
    (builder_error, 'val) outcome" where
  "state_expansion_preimage_arg lib r hidden source_state = (case hp_subject hidden of
      SubjectStateExpansion state field memory_state \<Rightarrow>
        and_then (actor_ref_in_artifact (cr_artifact r) (cr_name r)) (\<lambda>actor.
          if state \<noteq> ac_state (ar_actor actor)
          then Err (UnexpectedHiddenSubject (hp_name hidden) ''current contract state expansion'')
          else and_then (state_expansion_preimage_payload lib (cr_artifact r) (cr_name r) (cr_contract r)
            field memory_state source_state) (\<lambda>(payload, _). Ok (sl_bytes_value lib payload)))
    | _ \<Rightarrow> Err (UnexpectedHiddenSubject (hp_name hidden) ''state expansion''))"

definition observed_output_field_arg ::
  "('ty, 'val, 'x) runtime_lib_scheme \<Rightarrow> 'ty artifact_bundle \<Rightarrow> 'ty hidden_param \<Rightarrow>
    (string, 'val observed_context) btree option \<Rightarrow> (builder_error, 'val) outcome" where
  "observed_output_field_arg lib b hidden observed = (case hp_subject hidden of
      SubjectObservedOutputField observe handle state field \<Rightarrow>
        and_then (ok_or (Option.bind observed (\<lambda>m. map_of m observe)) (MissingObservedCovenant observe)) (\<lambda>seen.
        and_then (ok_or (map_of (oc_outputs seen) handle) (MissingObservedActor observe SideOut handle)) (\<lambda>output.
        and_then (contract_ref_in_app lib b (oc_app seen) (oo_actor output)) (\<lambda>r.
        and_then (actor_ref_in_artifact (cr_artifact r) (cr_name r)) (\<lambda>actor.
          if \<not> state_satisfies (cr_artifact r) (ac_state (ar_actor actor)) state
          then Err (ObservedStateLayoutMismatch observe SideOut handle state (oo_actor output))
          else and_then (runtime_state_values lib (cr_artifact r) (cr_name r) (cr_contract r) (oo_state output)) (\<lambda>vals.
            ok_or (map_of vals field) (Codec (MissingField field)))))))
    | _ \<Rightarrow> Err (UnexpectedHiddenSubject (hp_name hidden) ''observed output field''))"

definition required_route_proof :: "'ty hidden_param \<Rightarrow> (builder_error, string) outcome" where
  "required_route_proof hidden = ok_or (hp_route_proof_id hidden) (MissingHiddenRouteProof (hp_name hidden))"

definition hidden_argument ::
  "('ty, 'val, 'x) runtime_lib_scheme \<Rightarrow> 'ty artifact_bundle \<Rightarrow> 'ty contract_ref \<Rightarrow> 'ty entry_decl \<Rightarrow>
    'val state_map \<Rightarrow> (string, string) btree \<Rightarrow> 'val hidden_contexts \<Rightarrow> 'ty hidden_param \<Rightarrow>
    (builder_error, 'val) outcome" where
  "hidden_argument lib b r entry source_state template_selectors contexts hidden =
     (let a = cr_artifact r;
          template = hidden_template lib b a hidden entry template_selectors contexts;
          bytes = (\<lambda>bs. Ok (sl_bytes_value lib bs));
          int_of = (\<lambda>n. Ok (rl_int_value lib (of_nat n))) in
      case hp_purpose hidden of
        SpawnOutputIndex \<Rightarrow>
          (case hp_subject hidden of
             SubjectSpawnActor spawn handle _ \<Rightarrow>
               and_then (spawned_actor entry contexts spawn handle) (\<lambda>spawned. int_of (sx_output_index spawned))
           | _ \<Rightarrow> Err (UnexpectedHiddenSubject (hp_name hidden) ''spawn actor''))
      | TemplatePrefixBytes \<Rightarrow> and_then template (\<lambda>t. and_then (prefix_bytes lib t) bytes)
      | TemplateSuffixBytes \<Rightarrow> and_then template (\<lambda>t. and_then (suffix_bytes lib t) bytes)
      | TemplatePrefixLen \<Rightarrow> and_then template (\<lambda>t. int_of (prefix_len t))
      | TemplateSuffixLen \<Rightarrow> and_then template (\<lambda>t. and_then (suffix_len lib t) int_of)
      | TemplateHash \<Rightarrow> and_then template (\<lambda>t. bytes (hash_bytes t))
      | RouteTemplateLeaf \<Rightarrow>
          and_then (hidden_actor_subject hidden) (\<lambda>actor.
          and_then (contract_ref_in_artifact lib a actor) (\<lambda>c. bytes (cc_template_hash (sc_compiled (cr_contract c)))))
      | RouteTemplateProof \<Rightarrow>
          and_then (hidden_actor_subject hidden) (\<lambda>actor.
          and_then (required_route_proof hidden) (\<lambda>i.
          and_then (route_template_proof_bytes_for_actor lib a i actor) bytes))
      | RouteFamilyTable \<Rightarrow>
          and_then (hidden_family_subject hidden) (\<lambda>family_id.
          and_then (route_family_table_bytes lib a family_id) bytes)
      | RouteFamilyProof \<Rightarrow>
          and_then (hidden_family_subject hidden) (\<lambda>family_id.
          and_then (required_route_proof hidden) (\<lambda>i.
          and_then (route_template_proof_bytes lib a i (RouteFamilyLeaf family_id i)) bytes))
      | StateExpansionPreimage \<Rightarrow> state_expansion_preimage_arg lib r hidden source_state
      | ObservedOutputFieldValue \<Rightarrow> observed_output_field_arg lib b hidden (hc_observed contexts))"

definition resolve_hidden_args ::
  "('ty, 'val, 'x) runtime_lib_scheme \<Rightarrow> 'ty artifact_bundle \<Rightarrow> 'ty contract_ref \<Rightarrow> 'ty entry_decl \<Rightarrow>
    'val state_map \<Rightarrow> (string, string) btree \<Rightarrow> 'val hidden_contexts \<Rightarrow> (builder_error, 'val list) outcome" where
  "resolve_hidden_args lib b r entry source_state template_selectors contexts =
     try_map (hidden_argument lib b r entry source_state template_selectors contexts) (en_hidden_params entry)"

section \<open>User arguments\<close>

text \<open>\<open>index_message\<close> is the text \<^verbatim>\<open>#{idx}\<close> that stands for the name of a missing parameter.\<close>

fun decimal :: "nat \<Rightarrow> string" where
  "decimal n = (if n < 10 then [char_of (48 + n)] else decimal (n div 10) @ [char_of (48 + n mod 10)])"

declare decimal.simps [simp del]

definition index_message :: "nat \<Rightarrow> string" where
  "index_message idx = CHR ''#'' # decimal idx"

fun position :: "('a \<Rightarrow> bool) \<Rightarrow> 'a list \<Rightarrow> nat option" where
  "position p [] = None"
| "position p (x # xs) = (if p x then Some 0 else map_option Suc (position p xs))"

definition lower_arg ::
  "('ty, 'val, 'x) runtime_lib_scheme \<Rightarrow> string \<Rightarrow> string \<Rightarrow> string list \<Rightarrow> 'ty entry_decl \<Rightarrow>
    'val list \<times> (string, string) btree \<Rightarrow> nat \<times> 'val arg_value \<Rightarrow>
    (builder_error, 'val list \<times> (string, string) btree) outcome" where
  "lower_arg lib actor_name entry_name params entry state idx_arg =
     (let (artifact_args, template_selectors) = state; (idx, arg) = idx_arg in
      case arg of
        ArgPlain v \<Rightarrow> Ok (artifact_args @ [v], template_selectors)
      | ArgActor selected \<Rightarrow>
          and_then (ok_or (slice_at params idx)
            (ActorArgumentWithoutSelector actor_name entry_name (index_message idx) selected)) (\<lambda>param.
          and_then (ok_or (find (\<lambda>s. ts_name s = param) (en_template_selectors entry))
            (ActorArgumentWithoutSelector actor_name entry_name param selected)) (\<lambda>selector.
          and_then (ok_or (position (\<lambda>variant. variant = selected) (ts_variants selector))
            (InvalidTemplateSelectorChoice (ts_name selector) selected)) (\<lambda>variant_index.
            Ok (artifact_args @ [rl_int_value lib (of_nat variant_index)],
                bm_insert (ts_name selector) selected template_selectors)))))"

definition lower_arg_values ::
  "('ty, 'val, 'x) runtime_lib_scheme \<Rightarrow> string \<Rightarrow> string \<Rightarrow> string list \<Rightarrow> 'ty entry_decl \<Rightarrow> 'val arg_value list \<Rightarrow>
    (builder_error, 'val list \<times> (string, string) btree) outcome" where
  "lower_arg_values lib actor_name entry_name params entry user_args =
     try_fold (lower_arg lib actor_name entry_name params entry) ([], []) (List.enumerate 0 user_args)"

section \<open>References stay inside the bundle\<close>

definition attached :: "'ty artifact_bundle \<Rightarrow> 'ty artifact \<Rightarrow> bool" where
  "attached b a \<longleftrightarrow> a \<in> snd ` set (bu_apps b)"

definition ref_ok :: "('ty, 'val, 'x) sil_lib_scheme \<Rightarrow> 'ty artifact_bundle \<Rightarrow> 'ty contract_ref \<Rightarrow> bool" where
  "ref_ok lib b r \<longleftrightarrow> attached b (cr_artifact r)
     \<and> sl_contract lib (art_sil_abi (cr_artifact r)) (cr_name r) = Some (cr_contract r)"

lemma contract_ref_in_artifact_ok:
  assumes "sil_lib_ok lib" and "attached b a" and "contract_ref_in_artifact lib a name = Ok r"
  shows "ref_ok lib b r"
  using assms contract_ref_in_artifact_iff(1) [OF assms(1), of a name r] by (auto simp: ref_ok_def sil_lib_ok_def)

lemma bundle_app_attached: "bundle_app b app = Ok a \<Longrightarrow> attached b a"
  by (force simp: bundle_app_def attached_def dest: map_of_SomeD)

named_theorems ref_no_panic \<open>lookups of references that do not panic\<close>
named_theorems ref_inside \<open>lookups of references that stay inside the bundle\<close>

lemma contract_ref_in_app_refs:
  assumes "sil_lib_ok lib"
  shows [ref_no_panic]: "contract_ref_in_app lib b app name \<noteq> Panic"
    and [ref_inside]: "contract_ref_in_app lib b app name = Ok r \<Longrightarrow> ref_ok lib b r"
  using contract_ref_in_artifact_iff(2) [OF assms] contract_ref_in_artifact_ok [OF assms bundle_app_attached]
  by (auto simp: contract_ref_in_app_def and_then_Panic_iff and_then_Ok_iff)

lemma observed_contract_ref_refs:
  assumes "sil_lib_ok lib"
  shows [ref_no_panic]: "observed_contract_ref lib b a app c \<noteq> Panic"
    and [ref_inside]: "observed_contract_ref lib b a app c = Ok r \<Longrightarrow> ref_ok lib b r"
  using contract_ref_in_app_refs [OF assms]
  by (auto simp: observed_contract_ref_def and_then_Panic_iff and_then_Ok_iff Let_def)

lemma actor_subject_contract_ref_refs:
  assumes "sil_lib_ok lib" and "attached b a"
  shows [ref_no_panic]: "actor_subject_contract_ref lib b a actor \<noteq> Panic"
    and [ref_inside]: "actor_subject_contract_ref lib b a actor = Ok r \<Longrightarrow> ref_ok lib b r"
  using observed_contract_ref_refs [OF assms(1)] contract_ref_in_artifact_iff(2) [OF assms(1)]
    contract_ref_in_artifact_ok [OF assms]
  by (auto simp: actor_subject_contract_ref_def and_then_Panic_iff and_then_Ok_iff split: if_splits)

lemma find_observed_actor_not_Panic [simp]: "find_observed_actor entry observe side handle \<noteq> Panic"
  by (simp add: find_observed_actor_def find_observe_def and_then_Panic_iff)

lemma observed_target_refs:
  fixes observe :: string
  assumes "sil_lib_ok lib" and "attached b a"
  defines "f \<equiv> \<lambda>target. case target of
    DynamicActor _ \<Rightarrow> Err (MissingObservedCovenant observe)
  | StaticActor app name \<Rightarrow>
      if app = art_app a then contract_ref_in_artifact lib a name else observed_contract_ref lib b a app name"
  shows "f target \<noteq> Panic" and "f target = Ok r \<Longrightarrow> ref_ok lib b r"
  using contract_ref_in_artifact_iff(2) [OF assms(1)] contract_ref_in_artifact_ok [OF assms(1,2)]
    observed_contract_ref_refs [OF assms(1)]
  by (cases target; auto simp: f_def split: if_splits)+

lemma observed_subject_refs:
  assumes "sil_lib_ok lib" and "attached b a"
  shows [ref_no_panic]: "observed_subject_contract_ref lib b a entry contexts observe side handle actor \<noteq> Panic"
    and [ref_inside]: "observed_subject_contract_ref lib b a entry contexts observe side handle actor = Ok r \<Longrightarrow> ref_ok lib b r"
  by (auto simp: observed_subject_contract_ref_def and_then_Panic_iff and_then_Ok_iff Let_def
      contract_ref_in_app_refs(1) [OF assms(1)] observed_target_refs(1) [OF assms]
      dest: contract_ref_in_app_refs(2) [OF assms(1)] observed_target_refs(2) [OF assms]
      split: option.split_asm)

lemma hidden_template_actor_not_Panic [simp]: "hidden_template_actor hidden entry sels \<noteq> Panic"
  by (auto simp: hidden_template_actor_def selected_actor_def and_then_Panic_iff
      split: hidden_param_subject.splits option.splits)

lemma spawned_actor_not_Panic [simp]: "spawned_actor entry contexts spawn handle \<noteq> Panic"
  by (simp add: spawned_actor_def)

lemma hidden_contract_refs:
  assumes "sil_lib_ok lib" and "attached b a"
  shows [ref_no_panic]: "hidden_template_contract_ref lib b a hidden entry sels contexts \<noteq> Panic"
    and [ref_inside]: "hidden_template_contract_ref lib b a hidden entry sels contexts = Ok r \<Longrightarrow> ref_ok lib b r"
  by (auto simp: hidden_template_contract_ref_def and_then_Panic_iff and_then_Ok_iff
      contract_ref_in_app_refs(1) [OF assms(1)] actor_subject_contract_ref_refs(1) [OF assms]
      observed_subject_refs(1) [OF assms] contract_ref_in_artifact_iff(2) [OF assms(1)]
      dest: contract_ref_in_app_refs(2) [OF assms(1)] actor_subject_contract_ref_refs(2) [OF assms]
        observed_subject_refs(2) [OF assms] contract_ref_in_artifact_ok [OF assms]
      split: hidden_param_subject.split_asm)

lemma imported_open_not_Panic [simp]: "imported_app entry subject \<noteq> Panic" "open_state entry subject \<noteq> Panic"
  by (auto simp: imported_app_def open_state_def and_then_Panic_iff split: hidden_param_subject.splits)

lemma actor_ref_not_Panic [simp]: "actor_ref_in_artifact a name \<noteq> Panic"
  by (simp add: actor_ref_in_artifact_def)

lemma hidden_template_not_Panic:
  "sil_lib_ok lib \<Longrightarrow> attached b a \<Longrightarrow> hidden_template lib b a hidden entry sels contexts \<noteq> Panic"
  by (auto simp: hidden_template_def and_then_Panic_iff hidden_contract_refs(1) split: option.splits if_splits)

text \<open>A plain Silverscript template comes from a contract of an attached artifact.\<close>

lemma hidden_template_inside:
  assumes "sil_lib_ok lib" and "attached b a"
    and "hidden_template lib b a hidden entry sels contexts = Ok (SilTemplate c)"
  obtains r where "ref_ok lib b r" and "cr_contract r = c"
  using assms(3) hidden_contract_refs(2) [OF assms(1,2)]
  by (fastforce simp: hidden_template_def and_then_Ok_iff split: option.splits if_splits)

section \<open>No panics\<close>

lemma built_attached: "built lib b \<Longrightarrow> attached b a \<Longrightarrow> check_consistency lib a = Ok ()"
  using bundle_okD(2) [OF built_bundle_ok] bundle_okD(1) [OF built_bundle_ok] by (fastforce simp: attached_def)

lemma ref_parts:
  assumes "runtime_lib_ok lib" and "built lib b" and "ref_ok lib b r"
  shows "\<exists>p s f. sl_script_parts lib (sc_compiled (cr_contract r)) (cc_bytecode (sc_compiled (cr_contract r))) = Some (p, s, f)"
proof -
  have "al_check_sil_abi lib (art_sil_abi (cr_artifact r)) = Ok ()"
    using built_attached [OF assms(2)] assms(3) by (auto simp: ref_ok_def check_consistency_def and_then_Ok_iff)
  then show ?thesis using runtime_lib_okD(7) [OF assms(1)] assms(3) by (auto simp: ref_ok_def)
qed

lemma template_bytes_not_Panic:
  assumes "runtime_lib_ok lib" and "built lib b" and "attached b a"
    and "hidden_template lib b a hidden entry sels contexts = Ok t"
  shows "prefix_bytes lib t \<noteq> Panic" "suffix_bytes lib t \<noteq> Panic" "suffix_len lib t \<noteq> Panic"
proof -
  have "template_parts lib c \<noteq> Panic" if "t = SilTemplate c" for c
  proof -
    from hidden_template_inside [OF runtime_lib_okD(2) [OF assms(1)] assms(3) assms(4) [unfolded that]]
    obtain r where "ref_ok lib b r" "cr_contract r = c" .
    with ref_parts [OF assms(1,2)] show ?thesis by (auto simp: template_parts_def)
  qed
  then show "prefix_bytes lib t \<noteq> Panic" "suffix_bytes lib t \<noteq> Panic" "suffix_len lib t \<noteq> Panic"
    by (auto simp: prefix_bytes_def suffix_bytes_def suffix_len_def and_then_Panic_iff split: template_view.splits)
qed

lemma try_fold_PanicD: "try_fold f s xs = Panic \<Longrightarrow> \<exists>t x. x \<in> set xs \<and> f t x = Panic"
  using try_fold_not_Panic [of xs f s] by blast

lemma proof_bytes_not_Panic:
  "runtime_lib_ok lib \<Longrightarrow> route_template_proof_bytes lib a i leaf \<noteq> Panic"
  "runtime_lib_ok lib \<Longrightarrow> route_template_proof_bytes_for_actor lib a i actor \<noteq> Panic"
  by (auto simp: route_template_proof_bytes_def route_template_proof_bytes_for_actor_def proof_bytes_def
      route_template_proof_in_artifact_def and_then_Panic_iff runtime_lib_okD(6)
      dest!: try_fold_PanicD)

lemma family_table_not_Panic: "route_family_table_bytes lib a i \<noteq> Panic"
  by (auto simp: route_family_table_bytes_def and_then_Panic_iff Let_def contract_in_artifact_def
      dest!: try_fold_PanicD split: route_template_leaf.split_asm)

lemma payload_not_Panic:
  "runtime_lib_ok lib \<Longrightarrow> state_expansion_preimage_payload lib a cn c n m source \<noteq> Panic"
  by (simp add: payload_eq and_then_Panic_iff preimage_bytes_not_Panic)

lemma value_args_not_Panic:
  assumes "runtime_lib_ok lib"
  shows "state_expansion_preimage_arg lib r hidden source \<noteq> Panic"
    and "observed_output_field_arg lib b hidden observed \<noteq> Panic"
  using contract_ref_in_app_refs(1) [OF runtime_lib_okD(2) [OF assms]] runtime_state_values_not_Panic [OF assms]
    payload_not_Panic [OF assms]
  by (auto simp: state_expansion_preimage_arg_def observed_output_field_arg_def and_then_Panic_iff
      split: hidden_param_subject.splits)

lemma subject_not_Panic [simp]:
  "hidden_actor_subject hidden \<noteq> Panic" "hidden_family_subject hidden \<noteq> Panic" "required_route_proof hidden \<noteq> Panic"
  by (auto simp: hidden_actor_subject_def hidden_family_subject_def required_route_proof_def split: hidden_param_subject.splits)

text \<open>
  C33: Resolving the generated arguments of an entry never panics: the state spans the runtime
  cuts with \<^verbatim>\<open>expect\<close> are those of contracts of attached artifacts, wherever the parameter's
  subject leads (an own, imported, observed, spawned or selected actor), and attaching an
  artifact has checked them.
\<close>

theorem hidden_args_never_panic:
  assumes lib: "runtime_lib_ok lib" and b: "built lib b" and r: "contract_ref_in_app lib b app name = Ok r"
  shows "resolve_hidden_args lib b r entry source sels contexts \<noteq> Panic"
proof -
  note sil = runtime_lib_okD(2) [OF lib]
  have a: "attached b (cr_artifact r)"
    using contract_ref_in_app_refs(2) [OF sil r] by (simp add: ref_ok_def)
  have "hidden_argument lib b r entry source sels contexts hidden \<noteq> Panic" for hidden
    unfolding hidden_argument_def Let_def
    by (auto simp: and_then_Panic_iff hidden_template_not_Panic [OF sil a] template_bytes_not_Panic [OF lib b a]
        proof_bytes_not_Panic [OF lib] family_table_not_Panic value_args_not_Panic [OF lib]
        contract_ref_in_artifact_iff(2) [OF sil]
        split: hidden_param_purpose.splits hidden_param_subject.splits)
  then show ?thesis by (simp add: resolve_hidden_args_def try_map_not_Panic)
qed

section \<open>Selected actors\<close>

lemma position_SomeD: "position p xs = Some k \<Longrightarrow> k < length xs \<and> p (xs ! k) \<and> (\<forall>j < k. \<not> p (xs ! j))"
  by (induction xs arbitrary: k) (auto simp: nth_Cons' less_Suc_eq_0_disj split: if_splits)

definition arg_lowered ::
  "('ty, 'val, 'x) runtime_lib_scheme \<Rightarrow> string list \<Rightarrow> 'ty entry_decl \<Rightarrow> (string, string) btree \<Rightarrow> nat \<Rightarrow>
    'val arg_value \<Rightarrow> 'val \<Rightarrow> bool" where
  "arg_lowered lib params entry sels i arg v = (case arg of
      ArgPlain w \<Rightarrow> v = w
    | ArgActor selected \<Rightarrow> i < length params \<and> (\<exists>selector k.
        find (\<lambda>s. ts_name s = params ! i) (en_template_selectors entry) = Some selector
        \<and> position (\<lambda>variant. variant = selected) (ts_variants selector) = Some k
        \<and> v = rl_int_value lib (of_nat k) \<and> map_of sels (params ! i) = Some selected))"

lemma arg_lowered_plain [simp]: "arg_lowered lib params entry sels i (ArgPlain w) v \<longleftrightarrow> v = w"
  by (simp add: arg_lowered_def)

lemma arg_lowered_insert:
  "arg_lowered lib params entry sels i arg v \<Longrightarrow> i < j \<Longrightarrow> j < length params \<Longrightarrow> distinct params \<Longrightarrow>
    arg_lowered lib params entry (bm_insert (params ! j) w sels) i arg v"
  by (auto simp: arg_lowered_def nth_eq_iff_index_eq split: arg_value.splits)

lemma lower_arg_step:
  assumes "lower_arg lib an en params entry (args, sels) (length us, u) = Ok (args', sels')"
    and "length args = length us" and "\<forall>i < length us. arg_lowered lib params entry sels i (us ! i) (args ! i)"
    and "distinct params"
  shows "length args' = Suc (length us) \<and> (\<forall>i < Suc (length us). arg_lowered lib params entry sels' i ((us @ [u]) ! i) (args' ! i))"
proof (cases u)
  case (ArgPlain v)
  with assms show ?thesis by (auto simp: lower_arg_def nth_append less_Suc_eq)
next
  case (ArgActor selected)
  with assms(1) obtain param selector k where *:
    "slice_at params (length us) = Some param"
    "find (\<lambda>s. ts_name s = param) (en_template_selectors entry) = Some selector"
    "position (\<lambda>variant. variant = selected) (ts_variants selector) = Some k"
    "args' = args @ [rl_int_value lib (of_nat k)]" "sels' = bm_insert (ts_name selector) selected sels"
    by (auto simp: lower_arg_def and_then_Ok_iff)
  then have param: "length us < length params" "params ! length us = param" "ts_name selector = param"
    by (auto simp: slice_at_def split: if_splits dest: find_SomeD)
  have "arg_lowered lib params entry sels' i (us ! i) (args ! i)" if "i < length us" for i
    using assms(3,4) that param arg_lowered_insert [of lib params entry sels i] by (metis *(5))
  moreover have "arg_lowered lib params entry sels' (length us) u (rl_int_value lib (of_nat k))"
    using * param ArgActor by (simp add: arg_lowered_def)
  ultimately show ?thesis using assms(2) *(4) by (auto simp: nth_append less_Suc_eq)
qed

lemma lower_args_spec:
  assumes "lower_arg_values lib an en params entry us = Ok (args, sels)" and "distinct params"
  shows "length args = length us \<and> (\<forall>i < length us. arg_lowered lib params entry sels i (us ! i) (args ! i))"
  using assms(1)
proof (induction us arbitrary: args sels rule: rev_induct)
  case Nil
  then show ?case by (simp add: lower_arg_values_def)
next
  case (snoc u us)
  then obtain args0 sels0 where
    "lower_arg_values lib an en params entry us = Ok (args0, sels0)"
    "lower_arg lib an en params entry (args0, sels0) (length us, u) = Ok (args, sels)"
    by (auto simp: lower_arg_values_def enumerate_append_eq try_fold_append and_then_Ok_iff)
  with snoc.IH lower_arg_step [OF this(2) _ _ assms(2)] show ?case by auto
qed

text \<open>
  The index the contract receives for an actor argument and the actor whose template fills
  the hidden witnesses are the same choice: the value passed is the position of the named
  actor among the variants of the parameter's selector, and every hidden parameter about
  that selector resolves to this actor.
\<close>

theorem selector_choice_coherent:
  assumes "lower_arg_values lib an en params entry us = Ok (args, sels)" and "distinct params"
    and "i < length us" and "us ! i = ArgActor selected"
    and "hp_subject hidden = SubjectTemplateSelector (params ! i)"
    and "\<forall>s \<in> set (en_template_selectors entry). ts_name s = params ! i \<longrightarrow> ts_fixed_actor s \<in> {None, Some selected}"
  shows "\<exists>selector k. selector \<in> set (en_template_selectors entry) \<and> ts_name selector = params ! i
    \<and> k < length (ts_variants selector) \<and> ts_variants selector ! k = selected
    \<and> length args = length us \<and> args ! i = rl_int_value lib (of_nat k)
    \<and> hidden_template_actor hidden entry sels = Ok selected"
proof -
  obtain selector k where *: "find (\<lambda>s. ts_name s = params ! i) (en_template_selectors entry) = Some selector"
    "position (\<lambda>variant. variant = selected) (ts_variants selector) = Some k"
    "args ! i = rl_int_value lib (of_nat k)" "map_of sels (params ! i) = Some selected"
  proof -
    have "arg_lowered lib params entry sels i (us ! i) (args ! i)" using lower_args_spec [OF assms(1,2)] assms(3) by blast
    with that show thesis by (auto simp: arg_lowered_def assms(4))
  qed
  have selector: "selector \<in> set (en_template_selectors entry)" "ts_name selector = params ! i"
    using find_SomeD [OF *(1)] by simp_all
  have k: "k < length (ts_variants selector)" "ts_variants selector ! k = selected"
    using position_SomeD [OF *(2)] by simp_all
  then have "\<not> list_all (\<lambda>variant. variant \<noteq> selected) (ts_variants selector)" by (auto simp: list_all_length)
  moreover have "selected_actor selector sels = Ok selected"
    using assms(6) selector *(4) by (auto simp: selected_actor_def)
  ultimately have "hidden_template_actor hidden entry sels = Ok selected"
    using *(1) by (simp add: hidden_template_actor_def assms(5))
  with selector k *(3) lower_args_spec [OF assms(1,2)] show ?thesis by blast
qed

section \<open>Example calls\<close>

lemma hidden_args_never_panic_witness:
  "resolve_hidden_args demo_runtime_lib \<lparr>bu_primary_alias = ''tiny'', bu_apps = [(''tiny'', provider_artifact)]\<rparr>
    \<lparr>cr_artifact = provider_artifact, cr_name = ''A'', cr_contract = demo_contract_a\<rparr> demo_entry [] []
    \<lparr>hc_observed = (None :: (string, byte list observed_context) btree option), hc_spawned = None\<rparr> \<noteq> Panic"
proof (rule hidden_args_never_panic [OF demo_runtime_lib_ok])
  show "built demo_runtime_lib \<lparr>bu_primary_alias = ''tiny'', bu_apps = [(''tiny'', provider_artifact)]\<rparr>"
    by (intro built_named [of _ "''tiny''" provider_artifact]) (simp add: demo_aliases demo_runtime_consistent)
  show "contract_ref_in_app demo_runtime_lib \<lparr>bu_primary_alias = ''tiny'', bu_apps = [(''tiny'', provider_artifact)]\<rparr> ''tiny'' ''A''
      = Ok \<lparr>cr_artifact = provider_artifact, cr_name = ''A'', cr_contract = demo_contract_a\<rparr>"
    by code_simp
qed

definition selecting_entry :: "nat entry_decl" where
  "selecting_entry = (plain_entry ''go'')\<lparr>en_template_selectors :=
     [\<lparr>ts_name = ''next'', ts_actor_enum = ''Kind'', ts_state = ''S'', ts_variants = [''A'', ''B''], ts_fixed_actor = None\<rparr>]\<rparr>"

definition selector_param :: "nat hidden_param" where
  "selector_param = \<lparr>hp_recipe_id = ''r'', hp_name = ''next_hash'', hp_ty = 0, hp_subject = SubjectTemplateSelector ''next'',
     hp_purpose = TemplateHash, hp_route_proof_id = None\<rparr>"

lemma selector_choice_coherent_witness:
  "hidden_template_actor selector_param selecting_entry [(''next'', ''B'')] = Ok ''B''"
proof -
  have "lower_arg_values demo_runtime_lib ''A'' ''go'' [''amount'', ''next''] selecting_entry [ArgPlain [3], ArgActor ''B'']
      = Ok ([[3], [1]], [(''next'', ''B'')])" by code_simp
  moreover have "hp_subject selector_param = SubjectTemplateSelector ([''amount'', ''next''] ! 1)"
    by (simp add: selector_param_def)
  moreover have "\<forall>s \<in> set (en_template_selectors selecting_entry). ts_name s = [''amount'', ''next''] ! 1 \<longrightarrow>
      ts_fixed_actor s \<in> {None, Some ''B''}"
    by (simp add: selecting_entry_def)
  ultimately show ?thesis
    using selector_choice_coherent [of demo_runtime_lib "''A''" "''go''" "[''amount'', ''next'']" selecting_entry
        "[ArgPlain [3], ArgActor ''B'']" _ _ 1 "''B''" selector_param] by fastforce
qed

end
