(* ===== verification/Route_Witness.thy ===== *)
theory Route_Witness
  imports Hidden_Arguments
begin

text \<open>
  The route material a transaction carries, put together: the proof and leaf arguments the
  runtime resolves for an actor recompute the root that it writes into the state of the
  contract that checks them.
\<close>

section \<open>Recomputing a root\<close>

text \<open>What a contract does with a leaf and the concatenated siblings of a proof.\<close>

fun apply_proof :: "'x hash_lib_scheme \<Rightarrow> proof_side list \<Rightarrow> byte list \<Rightarrow> byte list \<Rightarrow> byte list" where
  "apply_proof lib [] bytes h = h"
| "apply_proof lib (side # sides) bytes h =
     apply_proof lib sides (drop 32 bytes)
       (case side of SideLeft \<Rightarrow> merkle_parent lib (take 32 bytes) h | SideRight \<Rightarrow> merkle_parent lib h (take 32 bytes))"

lemma proof_bytes_fold:
  "try_fold (\<lambda>proof step. and_then (map_err Codec (rl_decode_hex lib (ps_hash_hex step))) (\<lambda>bytes. Ok (proof @ bytes)))
     acc steps = Ok out \<longleftrightarrow>
   (\<exists>sibs. list_all2 (\<lambda>step sib. rl_decode_hex lib (ps_hash_hex step) = Ok sib) steps sibs \<and> out = acc @ concat sibs)"
proof (induction steps arbitrary: acc)
  case (Cons step steps)
  then show ?case by (auto simp: and_then_Ok_iff list_all2_Cons1) fastforce+
qed auto

lemma decode_hash_codec:
  assumes "hex_codecs_agree lib" and "decode_hash_hex lib i t = Ok h"
  shows "rl_decode_hex lib t = Ok h" and "length h = 32"
  using assms by (auto simp: hex_codecs_agree_def decode_hash_hex_def decode_hex_for_template_def and_then_Ok_iff
      split: if_splits)

lemma resolve_steps_apply:
  assumes lib: "hex_codecs_agree lib" and "try_fold (resolve_step lib i) h steps = Ok root"
    and "list_all2 (\<lambda>step sib. rl_decode_hex lib (ps_hash_hex step) = Ok sib) steps sibs"
  shows "apply_proof lib (map ps_side steps) (concat sibs) h = root \<and> length (concat sibs) = 32 * length steps"
  using assms(2,3)
proof (induction steps arbitrary: h sibs)
  case (Cons step steps)
  obtain sib rest where sibs: "sibs = sib # rest" "rl_decode_hex lib (ps_hash_hex step) = Ok sib"
    "list_all2 (\<lambda>step sib. rl_decode_hex lib (ps_hash_hex step) = Ok sib) steps rest"
    using Cons.prems(2) by (auto simp: list_all2_Cons1)
  obtain h' where step: "resolve_step lib i h step = Ok h'" "try_fold (resolve_step lib i) h' steps = Ok root"
    using Cons.prems(1) by (auto simp: and_then_Ok_iff)
  then obtain s where s: "decode_hash_hex lib i (ps_hash_hex step) = Ok s"
    "h' = (case ps_side step of SideLeft \<Rightarrow> merkle_parent lib s h | SideRight \<Rightarrow> merkle_parent lib h s)"
    by (auto simp: resolve_step_def and_then_Ok_iff)
  have "s = sib" "length sib = 32" using decode_hash_codec [OF lib s(1)] sibs(2) by auto
  with Cons.IH [OF step(2) sibs(3)] s(2) sibs(1) show ?case by (cases "ps_side step") simp_all
qed simp

section \<open>The proof of an actor\<close>

lemma find_proof:
  assumes "distinct (map rp_id ps)" and "p \<in> set ps"
  shows "find (\<lambda>q. rp_id q = rp_id p) ps = Some p"
  using assms by (induction ps) auto

lemma actor_leaf_resolves:
  assumes lib: "runtime_lib_ok lib" and ok: "check_consistency lib a = Ok ()"
    and h: "hashes_well_formed (ap_template_plan (art_argent a))"
    and p: "p \<in> set (tp_route_proofs (ap_template_plan (art_argent a)))"
  shows "find (\<lambda>q. rp_id q = rp_id p) (tp_route_proofs (ap_template_plan (art_argent a))) = Some p"
    and "leaf \<in> set (rp_leaves p) \<Longrightarrow> is_template_leaf_of actor (pl_leaf leaf) \<Longrightarrow>
      \<exists>hash root. abi_hash a actor = Some hash \<and> try_fold (resolve_step lib (rp_id p)) hash (pl_proof leaf) = Ok root
        \<and> decode_hash_hex lib i (rp_root_hex p) = Ok root"
proof -
  let ?plan = "ap_template_plan (art_argent a)"
  note sil = runtime_lib_okD(2) [OF lib] and hash = runtime_lib_okD(3) [OF lib]
  have "check_plan_consistency lib ?plan a = Ok ()" using ok by (auto simp: check_consistency_def and_then_Ok_iff)
  then obtain templates families proofs recipes where c: "checked_plan lib ?plan a templates families proofs recipes"
    by (rule check_plan_OkD)
  obtain tables where r: "checked_routes lib ?plan a templates families tables proofs"
    using checked_planD(3) [OF c] by blast
  note ix = checked_planD(1) [OF c]
  show "find (\<lambda>q. rp_id q = rp_id p) (tp_route_proofs ?plan) = Some p"
    by (rule find_proof [OF indexesD(3) [OF checked_routesD(2) [OF r]] p])
  assume leaf: "leaf \<in> set (rp_leaves p)" "is_template_leaf_of actor (pl_leaf leaf)"
  obtain table where table: "plan_proof lib ?plan table = Ok p" using checked_proof [OF sil h r ix p] .
  let ?roots = "map (\<lambda>p. (rp_id p, rp_root_hex p)) (tp_route_proofs ?plan)"
    and ?by_id = "template_hash_by_id (tp_templates ?plan)"
  obtain hs where hs: "table_leaf_hashes lib table ?by_id ?roots = Ok hs"
    using table by (auto simp: plan_proof_def route_proof_from_table_def and_then_Ok_iff)
  have "receipts32 ?by_id" using indexed_receipts32 [OF ix h] lookup_by_id [OF ix] by simp
  then have hs32: "hashes32 hs" by (rule table_leaf_hashes_OkD(2) [OF hs])
  have parts: "rp_root_hex p = encode_hex lib (merkle_root lib hs)" "length (rp_leaves p) = length (rt_entries table)"
    "\<And>j. j < length (rt_entries table) \<Longrightarrow>
      proof_leaf lib (merkle_layers lib hs) (j, rt_entries table ! j, hs ! j) = Ok (rp_leaves p ! j)"
    using table proof_from_table_Ok [OF hs, of p] by (auto simp: plan_proof_def merkle_root_hex_layers)
  obtain j where j: "j < length (rt_entries table)" "rp_leaves p ! j = leaf"
    using leaf(1) parts(2) by (auto simp: in_set_conv_nth)
  have len: "j < length hs" using j(1) table_leaf_hashes_OkD(1) [OF hs] by simp
  obtain steps where steps: "merkle_proof lib (merkle_layers lib hs) j = Ok steps"
    "merkle_proof_root lib (rp_id p) (encode_hex lib (hs ! j)) steps = Ok (merkle_root lib hs)"
    using merkle_proof_layers [OF hash hs32 len] .
  have leaf': "pl_leaf leaf = te_leaf (rt_entries table ! j)" "pl_proof leaf = steps"
    using parts(3) [OF j(1)] j(2) steps(1) by (auto simp: proof_leaf_def and_then_Ok_iff)
  have h32: "length (hs ! j) = 32" using hs32 len nth_mem by blast
  have "try_fold (resolve_step lib (rp_id p)) (hs ! j) (pl_proof leaf) = Ok (merkle_root lib hs)"
    using steps(2) leaf'(2) h32 hash by (simp add: merkle_proof_root_def)
  moreover have "decode_hash_hex lib i (rp_root_hex p) = Ok (merkle_root lib hs)"
    using merkle_root_length [OF hash hs32] hash by (simp add: parts(1))
  moreover have "abi_hash a actor = Some (hs ! j)"
  proof -
    have "leaf_hash lib (rt_id table) ?by_id ?roots (te_leaf (rt_entries table ! j)) = Ok (hs ! j)"
      using hs j(1) by (auto simp: table_leaf_hashes_def try_map_Ok_iff list_all2_conv_all_nth)
    moreover obtain tid where "te_leaf (rt_entries table ! j) = TemplateLeaf actor tid"
      using leaf(2) leaf'(1) by (auto simp: is_template_leaf_of_def split: route_template_leaf.splits)
    ultimately show ?thesis using template_leaf_hash [OF sil c] by metis
  qed
  ultimately show "\<exists>hash root. abi_hash a actor = Some hash
      \<and> try_fold (resolve_step lib (rp_id p)) hash (pl_proof leaf) = Ok root \<and> decode_hash_hex lib i (rp_root_hex p) = Ok root"
    by blast
qed

text \<open>
  C34: The route arguments of a call open the commitment in the caller's state: for an artifact
  that passed its check, the proof argument resolved for an actor is the concatenation of
  32-byte siblings which, applied to the very value resolved for the leaf argument of that
  actor, recomputes the root that the runtime writes into the state field of the proof.
\<close>

theorem route_arguments_open_commitment:
  assumes lib: "runtime_lib_ok lib" "hex_codecs_agree lib" and ok: "check_consistency lib a = Ok ()"
    and h: "hashes_well_formed (ap_template_plan (art_argent a))" and r: "cr_artifact r = a"
    and p: "p \<in> set (tp_route_proofs (ap_template_plan (art_argent a)))" "hp_route_proof_id hidden = Some (rp_id p)"
    and hidden: "hp_purpose hidden = RouteTemplateProof" "hidden_actor_subject hidden = Ok actor"
      "hidden_argument lib b r entry source sels contexts hidden = Ok v"
    and leaf: "hp_purpose leaf_param = RouteTemplateLeaf" "hidden_actor_subject leaf_param = Ok actor"
    and rs: "find_runtime_state_plan a cn = Some rs" "fr_role field = TemplateRootRole ls"
      "route_proof_receipt_id (rsp_source rs) (fr_name field) = rp_id p"
  shows "\<exists>leaf hash bytes root. leaf \<in> set (rp_leaves p)
    \<and> v = sl_bytes_value lib bytes \<and> length bytes = 32 * length (pl_proof leaf)
    \<and> hidden_argument lib b r entry source sels contexts leaf_param = Ok (sl_bytes_value lib hash)
    \<and> generated_value lib a cn field = Ok (sl_bytes_value lib root)
    \<and> apply_proof lib (map ps_side (pl_proof leaf)) bytes hash = root"
proof -
  note res = actor_leaf_resolves [OF lib(1) ok h p(1)]
  obtain bytes where bytes: "route_template_proof_bytes_for_actor lib a (rp_id p) actor = Ok bytes" "v = sl_bytes_value lib bytes"
    using hidden p(2) r by (auto simp: hidden_argument_def required_route_proof_def and_then_Ok_iff Let_def)
  then obtain l where l: "l \<in> set (rp_leaves p)" "is_template_leaf_of actor (pl_leaf l)" "proof_bytes lib l = Ok bytes"
    using res(1) by (auto simp: route_template_proof_bytes_for_actor_def route_template_proof_in_artifact_def and_then_Ok_iff
        dest!: find_SomeD)
  obtain hash root where root: "abi_hash a actor = Some hash"
    "try_fold (resolve_step lib (rp_id p)) hash (pl_proof l) = Ok root" "decode_hash_hex lib (rp_id p) (rp_root_hex p) = Ok root"
    using res(2) [OF l(1,2)] by blast
  obtain sibs where sibs: "list_all2 (\<lambda>step sib. rl_decode_hex lib (ps_hash_hex step) = Ok sib) (pl_proof l) sibs"
    "bytes = concat sibs"
    using l(3) by (auto simp: proof_bytes_def proof_bytes_fold)
  have "apply_proof lib (map ps_side (pl_proof l)) bytes hash = root \<and> length bytes = 32 * length (pl_proof l)"
    using resolve_steps_apply [OF lib(2) root(2) sibs(1)] sibs(2) by simp
  moreover have "hidden_argument lib b r entry source sels contexts leaf_param = Ok (sl_bytes_value lib hash)"
    using root(1) leaf r contract_ref_in_artifact_iff(1) [OF runtime_lib_okD(2) [OF lib(1)], of a actor]
    by (auto simp: hidden_argument_def abi_hash_def Let_def and_then_Ok_iff)
  moreover have "generated_value lib a cn field = Ok (sl_bytes_value lib root)"
    using rs res(1) root(3) by (simp add: generated_value_def fixed_runtime_context_value_def Let_def)
  ultimately show ?thesis using l(1) bytes(2) by blast
qed

section \<open>Route arguments of a call\<close>

definition demo_param :: "string \<Rightarrow> hidden_param_purpose \<Rightarrow> nat hidden_param" where
  "demo_param actor purpose = \<lparr>hp_recipe_id = ''r'', hp_name = ''w'', hp_ty = 0, hp_subject = SubjectActor actor,
     hp_purpose = purpose, hp_route_proof_id = Some ''route_proof/S/kids''\<rparr>"

definition demo_ref :: "nat contract_ref" where
  "demo_ref = \<lparr>cr_artifact = provider_artifact, cr_name = ''A'', cr_contract = demo_contract_a\<rparr>"

definition no_contexts :: "byte list hidden_contexts" where
  "no_contexts = \<lparr>hc_observed = None, hc_spawned = None\<rparr>"

lemma demo_codecs: "hex_codecs_agree demo_runtime_lib"
  by (simp add: hex_codecs_agree_def demo_runtime_lib_def artifact_lib.defs demo_artifact_lib_def sil_lib.defs)

lemma demo_proof_argument:
  "hidden_argument demo_runtime_lib demo_bundle demo_ref demo_entry [] [] no_contexts (demo_param ''B'' RouteTemplateProof)
    = Ok (demo_leaf 1)"
  by code_simp

lemma route_arguments_open_commitment_witness:
  "\<exists>(leaf :: route_proof_leaf) hash. hidden_argument demo_runtime_lib demo_bundle demo_ref demo_entry [] [] no_contexts
        (demo_param ''B'' RouteTemplateLeaf) = Ok (sl_bytes_value demo_runtime_lib hash)
    \<and> generated_value demo_runtime_lib provider_artifact ''A''
        \<lparr>fr_name = ''kids'', fr_role = TemplateRootRole [ContractLeaf ''A'', ContractLeaf ''B'']\<rparr>
      = Ok (sl_bytes_value demo_runtime_lib (apply_proof demo_runtime_lib (map ps_side (pl_proof leaf)) (demo_leaf 1) hash))"
proof -
  have plan: "ap_template_plan (art_argent provider_artifact) = demo_plan"
    by (simp add: provider_artifact_def seal_demo_def demo_artifact_def plain_artifact_def Let_def)
  have p: "hd (tp_route_proofs demo_plan) \<in> set (tp_route_proofs demo_plan)" "rp_id (hd (tp_route_proofs demo_plan)) = ''route_proof/S/kids''"
    by (simp_all add: demo_plan_def demo_proof_def)
  have rs: "find_runtime_state_plan provider_artifact ''A'' = Some (hd (tp_runtime_states demo_plan))"
    by (simp add: find_runtime_state_plan_def plan) (simp add: demo_plan_def)
  have id: "route_proof_receipt_id (rsp_source (hd (tp_runtime_states demo_plan))) ''kids'' = ''route_proof/S/kids''"
    by (simp add: demo_plan_def route_proof_receipt_id_def)
  have bytes: "sl_bytes_value demo_runtime_lib = id"
    by (simp add: demo_runtime_lib_def artifact_lib.defs demo_artifact_lib_def sil_lib.defs demo_sil_lib_def)
  show ?thesis
    using route_arguments_open_commitment [OF demo_runtime_lib_ok demo_codecs demo_runtime_consistent _ _ _ _ _ _
        demo_proof_argument, of "hd (tp_route_proofs demo_plan)" "''B''" "demo_param ''B'' RouteTemplateLeaf" "''A''" _
        "\<lparr>fr_name = ''kids'', fr_role = TemplateRootRole [ContractLeaf ''A'', ContractLeaf ''B'']\<rparr>", OF _ _ _ _ _ _ _ _ rs]
      p id demo_hashes
    by (auto simp: plan demo_ref_def demo_param_def hidden_actor_subject_def bytes)
qed

end
