(* ===== verification/Observed_Contexts.thy ===== *)
theory Observed_Contexts
  imports Hidden_Arguments
begin

text \<open>
  Validation of the covenants an entry observes: \<^verbatim>\<open>validate_observed_contexts\<close> and its parts
  in \<^verbatim>\<open>crates/argent-runtime/src/lib.rs\<close>. The contexts are what the transaction
  resolver found for the observe clauses; validation ties every observed handle to a declared
  one, to an admissible actor and, for an input, to the script of the spent output.
\<close>

section \<open>One observed actor\<close>

definition validate_observed_actor ::
  "'ty artifact_bundle \<Rightarrow> ('ty, 'val, 'x) sil_lib_scheme \<Rightarrow> 'ty artifact \<Rightarrow> string \<Rightarrow> string \<Rightarrow> observed_actor_side \<Rightarrow>
    observed_actor \<Rightarrow> string \<Rightarrow> (builder_error, unit) outcome" where
  "validate_observed_actor b lib observing app observe_name side expected found_actor = (case oa_target expected of
      DynamicActor expected_state \<Rightarrow>
        and_then (bundle_app b app) (\<lambda>a.
        and_then (actor_ref_in_artifact a found_actor) (\<lambda>found.
        (let found_state = ac_state (ar_actor found);
             mismatch = ObservedStateLayoutMismatch observe_name (side_of side) (oa_name expected) expected_state found_actor in
         if \<not> state_satisfies a found_state expected_state then Err mismatch
         else and_then (state_artifact observing expected_state) (\<lambda>expected_layout.
           and_then (state_artifact a found_state) (\<lambda>found_layout.
             if \<not> same_lowered_state_layout expected_layout found_layout then Err mismatch else Ok ())))))
    | StaticActor expected_app expected_actor \<Rightarrow>
        (let expected_alias = artifact_app_alias expected_app in
         if app \<noteq> expected_alias then Err (ObservedAppMismatch observe_name expected_alias app)
         else if expected_actor \<noteq> found_actor
         then Err (ObservedActorMismatch observe_name (side_of side) (oa_name expected) expected_actor found_actor)
         else if expected_app = art_app observing
         then and_then (contract_in_artifact lib observing expected_actor) (\<lambda>_. Ok ())
         else validate_actor_interface b observing app expected_actor))"

section \<open>Inputs, outputs and whole contexts\<close>

definition check_handles ::
  "string \<Rightarrow> observed_side \<Rightarrow> observed_actor list \<Rightarrow> string list \<Rightarrow> (builder_error, unit) outcome" where
  "check_handles observe_name side expected handles =
     try_each (\<lambda>handle. if list_all (\<lambda>actor. oa_name actor \<noteq> handle) expected
       then Err (UnknownObservedActor observe_name side handle) else Ok ()) handles"

definition validate_observed_input ::
  "('ty, 'val, 'x) runtime_lib_scheme \<Rightarrow> 'ty artifact_bundle \<Rightarrow> 'ty artifact \<Rightarrow> string \<Rightarrow> 'val observed_context \<Rightarrow>
    observed_actor \<Rightarrow> (builder_error, unit) outcome" where
  "validate_observed_input lib b observing observe_name seen input =
     and_then (ok_or (map_of (oc_inputs seen) (oa_name input)) (MissingObservedActor observe_name SideIn (oa_name input))) (\<lambda>observed.
     and_then (validate_observed_actor b lib observing (oc_app seen) observe_name SideInput input (oi_actor observed)) (\<lambda>_.
     and_then (contract_ref_in_app lib b (oc_app seen) (oi_actor observed)) (\<lambda>r.
     and_then (redeem_script_for_contract lib r (oi_state observed)) (\<lambda>script.
       if ue_script_public_key (oi_utxo observed) \<noteq> rl_pay_to_script_hash lib script
       then Err (ObservedUtxoScriptMismatch observe_name (oa_name input) (oi_actor observed))
       else Ok ()))))"

definition validate_observed_inputs ::
  "('ty, 'val, 'x) runtime_lib_scheme \<Rightarrow> 'ty artifact_bundle \<Rightarrow> 'ty artifact \<Rightarrow> string \<Rightarrow> observed_actor list \<Rightarrow>
    'val observed_context \<Rightarrow> (builder_error, unit) outcome" where
  "validate_observed_inputs lib b observing observe_name expected seen =
     and_then (check_handles observe_name SideIn expected (bm_keys (oc_inputs seen))) (\<lambda>_.
       try_each (validate_observed_input lib b observing observe_name seen) expected)"

definition validate_observed_output ::
  "('ty, 'val, 'x) runtime_lib_scheme \<Rightarrow> 'ty artifact_bundle \<Rightarrow> 'ty artifact \<Rightarrow> string \<Rightarrow> 'val observed_context \<Rightarrow>
    observed_actor \<Rightarrow> (builder_error, unit) outcome" where
  "validate_observed_output lib b observing observe_name seen output =
     and_then (ok_or (map_of (oc_outputs seen) (oa_name output)) (MissingObservedActor observe_name SideOut (oa_name output))) (\<lambda>observed.
     and_then (validate_observed_actor b lib observing (oc_app seen) observe_name SideOutput output (oo_actor observed)) (\<lambda>_.
     and_then (contract_ref_in_app lib b (oc_app seen) (oo_actor observed)) (\<lambda>r.
     and_then (redeem_script_for_contract lib r (oo_state observed)) (\<lambda>_. Ok ()))))"

definition validate_observed_outputs ::
  "('ty, 'val, 'x) runtime_lib_scheme \<Rightarrow> 'ty artifact_bundle \<Rightarrow> 'ty artifact \<Rightarrow> string \<Rightarrow> observed_actor list \<Rightarrow>
    'val observed_context \<Rightarrow> (builder_error, unit) outcome" where
  "validate_observed_outputs lib b observing observe_name expected seen =
     and_then (check_handles observe_name SideOut expected (bm_keys (oc_outputs seen))) (\<lambda>_.
       try_each (validate_observed_output lib b observing observe_name seen) expected)"

definition validate_observed_covenant ::
  "('ty, 'val, 'x) runtime_lib_scheme \<Rightarrow> 'ty artifact_bundle \<Rightarrow> 'ty artifact \<Rightarrow> string \<Rightarrow> observe_decl \<Rightarrow>
    'val observed_context \<Rightarrow> (builder_error, unit) outcome" where
  "validate_observed_covenant lib b observing observe_name observe seen =
     and_then (bundle_app b (oc_app seen)) (\<lambda>_.
     and_then (validate_observed_inputs lib b observing observe_name (ob_inputs observe) seen) (\<lambda>_.
       validate_observed_outputs lib b observing observe_name (ob_outputs observe) seen))"

definition validate_observed_contexts ::
  "('ty, 'val, 'x) runtime_lib_scheme \<Rightarrow> 'ty artifact_bundle \<Rightarrow> 'ty artifact \<Rightarrow> string \<Rightarrow> string \<Rightarrow> 'ty entry_decl \<Rightarrow>
    (string, 'val observed_context) btree \<Rightarrow> (builder_error, unit) outcome" where
  "validate_observed_contexts lib b observing actor_name entry_name entry observed =
     and_then (try_each (\<lambda>observe_name. and_then (find_observe actor_name entry_name entry observe_name) (\<lambda>_. Ok ()))
       (bm_keys observed)) (\<lambda>_.
       try_each (\<lambda>observe.
         and_then (ok_or (map_of observed (ob_name observe)) (MissingObservedCovenant (ob_name observe))) (\<lambda>seen.
           validate_observed_covenant lib b observing (ob_name observe) observe seen)) (en_observes entry))"

section \<open>What an accepted observation is\<close>

text \<open>
  The actor an observation may show: any actor of the observed app whose state is, or expands,
  the expected one with the layout the observer was compiled against; or exactly the named
  actor, whose interface both sides recorded under the same fingerprint.
\<close>

definition admissible :: "('ty, 'val, 'x) sil_lib_scheme \<Rightarrow> 'ty artifact_bundle \<Rightarrow> 'ty artifact \<Rightarrow> string \<Rightarrow> actor_target \<Rightarrow> string \<Rightarrow> bool" where
  "admissible lib b observing app target found = (case target of
      DynamicActor state \<Rightarrow> \<exists>a decl expected_layout found_layout. map_of (bu_apps b) app = Some a
        \<and> find (\<lambda>actor. ac_name actor = found) (ap_actors (art_argent a)) = Some decl
        \<and> state_satisfies a (ac_state decl) state
        \<and> find (\<lambda>s. as_name s = state) (ap_states (art_argent observing)) = Some expected_layout
        \<and> find (\<lambda>s. as_name s = ac_state decl) (ap_states (art_argent a)) = Some found_layout
        \<and> same_lowered_state_layout expected_layout found_layout
    | StaticActor expected_app actor \<Rightarrow> app = artifact_app_alias expected_app \<and> found = actor
        \<and> (if expected_app = art_app observing then sl_contract lib (art_sil_abi observing) actor \<noteq> None
           else interface_agrees b observing app actor))"

text \<open>The script an actor of an app has for an authored state.\<close>

definition actor_script ::
  "('ty, 'val, 'x) runtime_lib_scheme \<Rightarrow> 'ty artifact_bundle \<Rightarrow> string \<Rightarrow> string \<Rightarrow> 'val state_map \<Rightarrow>
    (builder_error, script_public_key) outcome" where
  "actor_script lib b app actor state =
     script_public_key_for_actor lib b (qualified_path app actor) state"

definition observation_holds ::
  "('ty, 'val, 'x) runtime_lib_scheme \<Rightarrow> 'ty artifact_bundle \<Rightarrow> 'ty artifact \<Rightarrow> observe_decl \<Rightarrow> 'val observed_context \<Rightarrow> bool" where
  "observation_holds lib b observing observe seen \<longleftrightarrow>
     map_of (bu_apps b) (oc_app seen) \<noteq> None
     \<and> set (bm_keys (oc_inputs seen)) = oa_name ` set (ob_inputs observe)
     \<and> set (bm_keys (oc_outputs seen)) = oa_name ` set (ob_outputs observe)
     \<and> (\<forall>input \<in> set (ob_inputs observe). \<exists>i. map_of (oc_inputs seen) (oa_name input) = Some i
         \<and> admissible lib b observing (oc_app seen) (oa_target input) (oi_actor i)
         \<and> actor_script lib b (oc_app seen) (oi_actor i) (oi_state i) = Ok (ue_script_public_key (oi_utxo i)))
     \<and> (\<forall>output \<in> set (ob_outputs observe). \<exists>out. map_of (oc_outputs seen) (oa_name output) = Some out
         \<and> admissible lib b observing (oc_app seen) (oa_target output) (oo_actor out)
         \<and> (\<exists>spk. actor_script lib b (oc_app seen) (oo_actor out) (oo_state out) = Ok spk))"

lemma if_Ok_iff: "(if c then m else Err e) = Ok x \<longleftrightarrow> c \<and> m = Ok x"
  by simp

lemma actor_ref_iff:
  "actor_ref_in_artifact a n = Ok r \<longleftrightarrow>
    (\<exists>decl. find (\<lambda>actor. ac_name actor = n) (ap_actors (art_argent a)) = Some decl \<and> r = \<lparr>ar_artifact = a, ar_actor = decl\<rparr>)"
  by (auto simp: actor_ref_in_artifact_def)

lemma validate_observed_actor_iff:
  "validate_observed_actor b lib observing app observe_name side expected found = Ok () \<longleftrightarrow>
    admissible lib b observing app (oa_target expected) found"
  apply (auto simp: validate_observed_actor_def admissible_def bundle_app_def actor_ref_iff state_artifact_def
      contract_in_artifact_def and_then_Ok_iff if_Ok_iff Let_def split: actor_target.split if_split_asm)
  subgoal for _ a decl
    by (rule exI [of _ "\<lparr>ar_artifact = a, ar_actor = decl\<rparr>"]) auto
  done

lemma actor_script_iff:
  "actor_script lib b app actor state = Ok spk \<longleftrightarrow>
    (\<exists>r script. contract_ref_in_app lib b app actor = Ok r \<and> redeem_script_for_contract lib r state = Ok script
      \<and> spk = rl_pay_to_script_hash lib script)"
  by (auto simp: actor_script_def script_public_key_for_actor_def qualified_path_def and_then_Ok_iff)

lemma check_handles_iff:
  "check_handles observe_name side expected handles = Ok u \<longleftrightarrow> set handles \<subseteq> oa_name ` set expected"
  by (auto simp: check_handles_def try_each_Ok_iff list_all_iff split: if_splits)

lemma validate_observed_input_iff:
  "validate_observed_input lib b observing n seen input = Ok () \<longleftrightarrow>
    (\<exists>i. map_of (oc_inputs seen) (oa_name input) = Some i
      \<and> admissible lib b observing (oc_app seen) (oa_target input) (oi_actor i)
      \<and> actor_script lib b (oc_app seen) (oi_actor i) (oi_state i) = Ok (ue_script_public_key (oi_utxo i)))"
  by (auto simp: validate_observed_input_def and_then_Ok_iff validate_observed_actor_iff actor_script_iff split: if_splits)

lemma validate_observed_output_iff:
  "validate_observed_output lib b observing n seen output = Ok () \<longleftrightarrow>
    (\<exists>out. map_of (oc_outputs seen) (oa_name output) = Some out
      \<and> admissible lib b observing (oc_app seen) (oa_target output) (oo_actor out)
      \<and> (\<exists>spk. actor_script lib b (oc_app seen) (oo_actor out) (oo_state out) = Ok spk))"
  by (auto simp: validate_observed_output_def and_then_Ok_iff validate_observed_actor_iff actor_script_iff)

text \<open>Handles that are all declared, and all declared handles shown.\<close>

lemma all_shown_iff:
  assumes "\<forall>e \<in> set es. \<exists>v. map_of m (f e) = Some v \<and> P e v"
  shows "set (bm_keys m) \<subseteq> f ` set es \<longleftrightarrow> set (bm_keys m) = f ` set es"
proof -
  have "f e \<in> set (bm_keys m)" if "e \<in> set es" for e
    using assms that by (metis list.set_map map_of_eq_None_iff option.distinct(1))
  then show ?thesis by blast
qed

lemma all_shown:
  "(set (bm_keys m) \<subseteq> f ` set es \<and> (\<forall>e \<in> set es. \<exists>v. map_of m (f e) = Some v \<and> P e v)) \<longleftrightarrow>
    (set (bm_keys m) = f ` set es \<and> (\<forall>e \<in> set es. \<exists>v. map_of m (f e) = Some v \<and> P e v))"
  using all_shown_iff [of es m f P] by blast

lemma validate_observed_covenant_iff:
  "validate_observed_covenant lib b observing n observe seen = Ok () \<longleftrightarrow> observation_holds lib b observing observe seen"
  unfolding validate_observed_covenant_def validate_observed_inputs_def validate_observed_outputs_def
    observation_holds_def bundle_app_def and_then_Ok_iff try_each_Ok_iff check_handles_iff validate_observed_input_iff
    validate_observed_output_iff all_shown
  by auto

text \<open>
  C35: Observation contexts are accepted exactly when they show what the entry declares: one
  context per observe clause and no other; in each, exactly the declared input and output
  handles, each showing an admissible actor of the attached app; every observed input spends
  a UTXO whose script is the script of that actor's contract in the claimed state, and every
  observed output's state can be materialised.
\<close>

theorem observed_contexts_decided:
  "validate_observed_contexts lib b observing actor_name entry_name entry observed = Ok () \<longleftrightarrow>
    set (bm_keys observed) = ob_name ` set (en_observes entry)
    \<and> (\<forall>observe \<in> set (en_observes entry). \<exists>seen. map_of observed (ob_name observe) = Some seen
        \<and> observation_holds lib b observing observe seen)"
proof -
  have known: "(\<exists>o'. find (\<lambda>o'. ob_name o' = n) os = Some o') \<longleftrightarrow> n \<in> ob_name ` set os" for n os
    by (induction os) auto
  have "validate_observed_contexts lib b observing actor_name entry_name entry observed = Ok () \<longleftrightarrow>
      (\<forall>n \<in> set (bm_keys observed). \<exists>o'. find_observe actor_name entry_name entry n = Ok o')
      \<and> (\<forall>observe \<in> set (en_observes entry). \<exists>seen. map_of observed (ob_name observe) = Some seen
          \<and> observation_holds lib b observing observe seen)"
    by (simp add: validate_observed_contexts_def and_then_Ok_iff try_each_Ok_iff validate_observed_covenant_iff)
  also have "(\<forall>n \<in> set (bm_keys observed). \<exists>o'. find_observe actor_name entry_name entry n = Ok o')
      \<longleftrightarrow> set (bm_keys observed) \<subseteq> ob_name ` set (en_observes entry)"
    by (auto simp: find_observe_def known)
  also note all_shown [of observed ob_name "en_observes entry" "observation_holds lib b observing"]
  finally show ?thesis .
qed

section \<open>An observed covenant\<close>

definition observing_entry :: "nat entry_decl" where
  "observing_entry = (plain_entry ''go'')\<lparr>en_observes :=
     [\<lparr>ob_name = ''market'', ob_covenant_expr = ''id'', ob_covenant_id_source = EntryArgument 0,
       ob_inputs = [\<lparr>oa_name = ''stall'', oa_target = StaticActor ''Tiny'' ''A'', oa_cardinality = One\<rparr>],
       ob_outputs = []\<rparr>]\<rparr>"

definition seen_market :: "byte list observed_context" where
  "seen_market = \<lparr>oc_app = ''tiny'',
     oc_inputs = [(''stall'', \<lparr>oi_actor = ''A'', oi_state = [(''n'', [5])],
       oi_utxo = \<lparr>ue_amount = 1000,
         ue_script_public_key = rl_pay_to_script_hash demo_runtime_lib ([7] @ demo_kids @ demo_main @ [5] @ [9]),
         ue_block_daa_score = 0, ue_is_coinbase = False, ue_covenant_id = None\<rparr>\<rparr>)],
     oc_outputs = []\<rparr>"

lemma observed_contexts_decided_witness:
  "observation_holds demo_runtime_lib demo_bundle client_artifact (hd (en_observes observing_entry)) seen_market"
proof -
  have "validate_observed_contexts demo_runtime_lib demo_bundle client_artifact ''C'' ''go'' observing_entry
      [(''market'', seen_market)] = Ok ()"
    by code_simp
  then show ?thesis
    by (simp add: observed_contexts_decided) (simp add: observing_entry_def)
qed

end
