(* ===== verification/Tx_Context.thy ===== *)
theory Tx_Context
  imports Hidden_Arguments
begin

text \<open>
  Transaction contexts, \<^verbatim>\<open>crates/argent-runtime/src/context.rs\<close>: the description of one
  transaction that a caller writes before scripts, covenant ids and generated arguments are
  known. A callback on the unsigned transaction, a type of the Kaspa crates that is opaque here,
  is a function; its boxed error is a text. \<^verbatim>\<open>SubnetworkId\<close> is its bytes.
\<close>

typedecl mutable_transaction

section \<open>Calls and inputs\<close>

datatype 'val entry_args =
    StaticArgs "'val arg_value list"
  | ArgsWithTransaction "mutable_transaction \<Rightarrow> nat \<Rightarrow> (string, 'val arg_value list) outcome"

record 'val entry_call =
  ec_name :: string
  ec_args :: "'val entry_args"

definition entry_call_new :: "string \<Rightarrow> 'val entry_call" where
  "entry_call_new name = \<lparr>ec_name = name, ec_args = StaticArgs []\<rparr>"

definition call_args :: "'val entry_call \<Rightarrow> 'val arg_value list \<Rightarrow> 'val entry_call" where
  "call_args call args = call\<lparr>ec_args := StaticArgs args\<rparr>"

definition call_args_with :: "'val entry_call \<Rightarrow> (mutable_transaction \<Rightarrow> nat \<Rightarrow> 'val arg_value list) \<Rightarrow> 'val entry_call" where
  "call_args_with call build = call\<lparr>ec_args := ArgsWithTransaction (\<lambda>tx input_index. Ok (build tx input_index))\<rparr>"

definition call_try_args_with ::
  "'val entry_call \<Rightarrow> (mutable_transaction \<Rightarrow> nat \<Rightarrow> (string, 'val arg_value list) outcome) \<Rightarrow> 'val entry_call" where
  "call_try_args_with call build = call\<lparr>ec_args := ArgsWithTransaction build\<rparr>"

datatype input_sig_script =
    StaticScript "byte list"
  | ScriptWithTransaction "mutable_transaction \<Rightarrow> nat \<Rightarrow> (string, byte list) outcome"

record 'val actor_input =
  ain_actor :: actor_path
  ain_state :: "'val state_map"
  ain_entry :: "'val entry_call"
  ain_outpoint :: outpoint
  ain_utxo :: utxo_entry
  ain_sequence :: "64 word"

record ordinary_input =
  oin_outpoint :: outpoint
  oin_utxo :: utxo_entry
  oin_signature_script :: input_sig_script
  oin_sequence :: "64 word"

datatype 'val context_input = ActorIn "'val actor_input" | OrdinaryIn ordinary_input

section \<open>Output states\<close>

record state_context =
  scx_genesis_covenant_ids :: "(16 word, (string, byte list) btree) btree"

definition genesis_covenant_id :: "state_context \<Rightarrow> 16 word \<Rightarrow> string \<Rightarrow> byte list option" where
  "genesis_covenant_id cx authorizing_input subgroup =
     Option.bind (map_of (scx_genesis_covenant_ids cx) authorizing_input) (\<lambda>groups. map_of groups subgroup)"

definition insert_genesis_covenant_id :: "state_context \<Rightarrow> 16 word \<Rightarrow> string \<Rightarrow> byte list \<Rightarrow> state_context" where
  "insert_genesis_covenant_id cx authorizing_input subgroup covenant_id =
     (let ids = scx_genesis_covenant_ids cx;
          groups = (case map_of ids authorizing_input of None \<Rightarrow> [] | Some groups \<Rightarrow> groups) in
      cx\<lparr>scx_genesis_covenant_ids := bm_insert authorizing_input (bm_insert subgroup covenant_id groups) ids\<rparr>)"

datatype 'val output_state =
    StaticState "'val state_map"
  | StateWithContext "state_context \<Rightarrow> (string, 'val state_map) outcome"

definition resolve_state :: "'val output_state \<Rightarrow> state_context \<Rightarrow> (string, 'val state_map) outcome" where
  "resolve_state state cx = (case state of StaticState s \<Rightarrow> Ok s | StateWithContext build \<Rightarrow> build cx)"

definition is_deferred :: "'val output_state \<Rightarrow> bool" where
  "is_deferred state = (case state of StaticState _ \<Rightarrow> False | StateWithContext _ \<Rightarrow> True)"

definition state_with :: "(state_context \<Rightarrow> 'val state_map) \<Rightarrow> 'val output_state" where
  "state_with build = StateWithContext (\<lambda>cx. Ok (build cx))"

definition try_state_with :: "(state_context \<Rightarrow> (string, 'val state_map) outcome) \<Rightarrow> 'val output_state" where
  "try_state_with build = StateWithContext build"

section \<open>Outputs\<close>

datatype 'val output_owner = OwnedByActor actor_path "'val output_state" | OwnedByScript script_public_key

record covenant_binding =
  cb_authorizing_input :: "16 word"
  cb_covenant_id :: "byte list"

datatype output_covenant = Unbound | Existing covenant_binding | Genesis "16 word" string

record 'val context_output =
  co_owner :: "'val output_owner"
  co_covenant :: output_covenant
  co_value :: "64 word"

section \<open>The context of a transaction\<close>

record 'val tx_context =
  tx_inputs :: "'val context_input list"
  tx_outputs :: "'val context_output list"
  tx_lock_time :: "64 word"
  tx_subnetwork_id :: "byte list"
  tx_gas :: "64 word"
  tx_payload :: "byte list"

text \<open>\<^verbatim>\<open>TxContext::default\<close>; the native subnetwork id, twenty zero bytes, is the library's default.\<close>

definition tx_context_new :: "byte list \<Rightarrow> 'val tx_context" where
  "tx_context_new native = \<lparr>tx_inputs = [], tx_outputs = [], tx_lock_time = 0, tx_subnetwork_id = native,
     tx_gas = 0, tx_payload = []\<rparr>"

definition set_lock_time :: "'val tx_context \<Rightarrow> 64 word \<Rightarrow> 'val tx_context" where
  "set_lock_time cx lock_time = cx\<lparr>tx_lock_time := lock_time\<rparr>"

definition set_lane :: "'val tx_context \<Rightarrow> byte list \<Rightarrow> 64 word \<Rightarrow> 'val tx_context" where
  "set_lane cx i gas = cx\<lparr>tx_subnetwork_id := i, tx_gas := gas\<rparr>"

definition set_payload :: "'val tx_context \<Rightarrow> byte list \<Rightarrow> 'val tx_context" where
  "set_payload cx payload = cx\<lparr>tx_payload := payload\<rparr>"

definition add_actor_input ::
  "'val tx_context \<Rightarrow> actor_path \<Rightarrow> 'val state_map \<Rightarrow> 'val entry_call \<Rightarrow> outpoint \<Rightarrow> utxo_entry \<Rightarrow> 64 word \<Rightarrow> 'val tx_context" where
  "add_actor_input cx actor state entry outpoint utxo sequence =
     cx\<lparr>tx_inputs := tx_inputs cx @ [ActorIn \<lparr>ain_actor = actor, ain_state = state, ain_entry = entry,
       ain_outpoint = outpoint, ain_utxo = utxo, ain_sequence = sequence\<rparr>]\<rparr>"

definition add_input :: "'val tx_context \<Rightarrow> outpoint \<Rightarrow> utxo_entry \<Rightarrow> input_sig_script \<Rightarrow> 64 word \<Rightarrow> 'val tx_context" where
  "add_input cx outpoint utxo signature_script sequence =
     cx\<lparr>tx_inputs := tx_inputs cx @ [OrdinaryIn \<lparr>oin_outpoint = outpoint, oin_utxo = utxo,
       oin_signature_script = signature_script, oin_sequence = sequence\<rparr>]\<rparr>"

definition add_actor_output ::
  "'val tx_context \<Rightarrow> actor_path \<Rightarrow> 'val output_state \<Rightarrow> covenant_binding \<Rightarrow> 64 word \<Rightarrow> 'val tx_context" where
  "add_actor_output cx actor state covenant amount =
     cx\<lparr>tx_outputs := tx_outputs cx @ [\<lparr>co_owner = OwnedByActor actor state, co_covenant = Existing covenant,
       co_value = amount\<rparr>]\<rparr>"

definition add_actor_genesis_output ::
  "'val tx_context \<Rightarrow> 16 word \<Rightarrow> string \<Rightarrow> actor_path \<Rightarrow> 'val state_map \<Rightarrow> 64 word \<Rightarrow> 'val tx_context" where
  "add_actor_genesis_output cx authorizing_input subgroup actor state amount =
     cx\<lparr>tx_outputs := tx_outputs cx @ [\<lparr>co_owner = OwnedByActor actor (StaticState state),
       co_covenant = Genesis authorizing_input subgroup, co_value = amount\<rparr>]\<rparr>"

definition add_output :: "'val tx_context \<Rightarrow> script_public_key \<Rightarrow> covenant_binding option \<Rightarrow> 64 word \<Rightarrow> 'val tx_context" where
  "add_output cx spk covenant amount =
     cx\<lparr>tx_outputs := tx_outputs cx @ [\<lparr>co_owner = OwnedByScript spk,
       co_covenant = (case covenant of None \<Rightarrow> Unbound | Some binding \<Rightarrow> Existing binding), co_value = amount\<rparr>]\<rparr>"

definition add_genesis_output :: "'val tx_context \<Rightarrow> 16 word \<Rightarrow> string \<Rightarrow> script_public_key \<Rightarrow> 64 word \<Rightarrow> 'val tx_context" where
  "add_genesis_output cx authorizing_input subgroup spk amount =
     cx\<lparr>tx_outputs := tx_outputs cx @ [\<lparr>co_owner = OwnedByScript spk,
       co_covenant = Genesis authorizing_input subgroup, co_value = amount\<rparr>]\<rparr>"

lemma genesis_covenant_id_insert:
  "genesis_covenant_id (insert_genesis_covenant_id cx i g c) i' g' =
    (if i' = i \<and> g' = g then Some c else genesis_covenant_id cx i' g')"
  by (auto simp: genesis_covenant_id_def insert_genesis_covenant_id_def Let_def split: option.splits)

end
