(* ===== verification/Genesis_Proof.thy ===== *)
theory Genesis_Proof
  imports Tx_Context
begin

text \<open>
  Genesis proofs, \<^verbatim>\<open>crates/argent-genesis/src\<close>: the consensus preimage of a covenant id
  (\<^verbatim>\<open>preimage.rs\<close>), the Silverscript layer that derives the outputs from contract states
  (\<^verbatim>\<open>sil.rs\<close>), the Argent layer that derives the states from authored ones
  (\<^verbatim>\<open>ag.rs\<close>) and the versioned package (\<^verbatim>\<open>package.rs\<close>). A covenant id and a
  transaction id are their bytes; the hash of a preimage, the pay-to-script-hash script and the
  JSON codec are parameters.
\<close>

section \<open>The consensus preimage\<close>

record indexed_output =
  io_index :: "32 word"
  io_value :: "64 word"
  io_script_public_key :: script_public_key

record consensus_proof =
  cp_authorizing_outpoint :: outpoint
  cp_claimed_covenant_id :: "byte list"
  cp_outputs :: "indexed_output list"

datatype preimage_error =
    EmptyOutputs
  | OutputIndicesNotStrictlyIncreasing "32 word" "32 word"
  | ClaimedCovenantIdMismatch "byte list" "byte list"
  | ExpectedCovenantIdMismatch "byte list" "byte list"

text \<open>The loop over \<^verbatim>\<open>outputs.windows(2)\<close>.\<close>

fun check_windows :: "indexed_output list \<Rightarrow> (preimage_error, unit) outcome" where
  "check_windows (a # b # rest) =
     (if io_index b \<le> io_index a then Err (OutputIndicesNotStrictlyIncreasing (io_index a) (io_index b))
      else check_windows (b # rest))"
| "check_windows outputs = Ok ()"

definition check_output_order :: "indexed_output list \<Rightarrow> (preimage_error, unit) outcome" where
  "check_output_order outputs = (if outputs = [] then Err EmptyOutputs else check_windows outputs)"

definition compute_covenant_id ::
  "('ty, 'val, 'x) runtime_lib_scheme \<Rightarrow> outpoint \<Rightarrow> indexed_output list \<Rightarrow> (preimage_error, byte list) outcome" where
  "compute_covenant_id lib origin outputs =
     and_then (check_output_order outputs) (\<lambda>_.
       Ok (rl_covenant_id lib origin (map (\<lambda>o'. (io_index o', io_value o', io_script_public_key o')) outputs)))"

definition consensus_compose ::
  "('ty, 'val, 'x) runtime_lib_scheme \<Rightarrow> outpoint \<Rightarrow> indexed_output list \<Rightarrow> (preimage_error, consensus_proof) outcome" where
  "consensus_compose lib origin outputs =
     and_then (compute_covenant_id lib origin outputs) (\<lambda>i.
       Ok \<lparr>cp_authorizing_outpoint = origin, cp_claimed_covenant_id = i, cp_outputs = outputs\<rparr>)"

definition computed_covenant_id ::
  "('ty, 'val, 'x) runtime_lib_scheme \<Rightarrow> consensus_proof \<Rightarrow> (preimage_error, byte list) outcome" where
  "computed_covenant_id lib p = compute_covenant_id lib (cp_authorizing_outpoint p) (cp_outputs p)"

definition consensus_check ::
  "('ty, 'val, 'x) runtime_lib_scheme \<Rightarrow> consensus_proof \<Rightarrow> (preimage_error, unit) outcome" where
  "consensus_check lib p =
     and_then (computed_covenant_id lib p) (\<lambda>computed.
       if computed \<noteq> cp_claimed_covenant_id p then Err (ClaimedCovenantIdMismatch (cp_claimed_covenant_id p) computed)
       else Ok ())"

definition consensus_verify ::
  "('ty, 'val, 'x) runtime_lib_scheme \<Rightarrow> consensus_proof \<Rightarrow> byte list \<Rightarrow> (preimage_error, unit) outcome" where
  "consensus_verify lib p expected =
     and_then (consensus_check lib p) (\<lambda>_.
       if cp_claimed_covenant_id p \<noteq> expected then Err (ExpectedCovenantIdMismatch expected (cp_claimed_covenant_id p))
       else Ok ())"

section \<open>Silverscript states\<close>

record 'val sil_output =
  go_index :: "32 word"
  go_value :: "64 word"
  go_abi_index :: nat
  go_contract :: string
  go_runtime_state :: "'val state_map"

record ('ty, 'val) sil_proof =
  spf_abis :: "'ty sil_abi list"
  spf_authorizing_outpoint :: outpoint
  spf_claimed_covenant_id :: "byte list"
  spf_outputs :: "'val sil_output list"

record 'val sil_bootstrap =
  sb_authorizing_outpoint :: outpoint
  sb_outputs :: "'val sil_output list"

datatype sil_proof_error =
    InvalidAbi nat string
  | UnknownAbi "32 word" nat
  | UnknownAbiContract "32 word" nat string
  | RuntimeStateError "32 word" nat string codec_error
  | Preimage preimage_error

definition check_abis :: "('ty, 'val, 'x) runtime_lib_scheme \<Rightarrow> 'ty sil_abi list \<Rightarrow> (sil_proof_error, unit) outcome" where
  "check_abis lib abis =
     try_each (\<lambda>(abi_index, abi). map_err (InvalidAbi abi_index) (al_check_sil_abi lib abi)) (List.enumerate 0 abis)"

definition sil_materialize_output ::
  "('ty, 'val, 'x) runtime_lib_scheme \<Rightarrow> 'ty sil_abi list \<Rightarrow> 'val sil_output \<Rightarrow> (sil_proof_error, indexed_output) outcome" where
  "sil_materialize_output lib abis output =
     and_then (ok_or (slice_at abis (go_abi_index output)) (UnknownAbi (go_index output) (go_abi_index output))) (\<lambda>abi.
     and_then (ok_or (sl_contract lib abi (go_contract output))
       (UnknownAbiContract (go_index output) (go_abi_index output) (go_contract output))) (\<lambda>contract.
     and_then (map_err (RuntimeStateError (go_index output) (go_abi_index output) (go_contract output))
       (materialize_redeem_script lib abi contract (go_runtime_state output))) (\<lambda>script.
       Ok \<lparr>io_index = go_index output, io_value = go_value output,
           io_script_public_key = rl_pay_to_script_hash lib script\<rparr>)))"

definition sil_materialize_outputs ::
  "('ty, 'val, 'x) runtime_lib_scheme \<Rightarrow> 'ty sil_abi list \<Rightarrow> 'val sil_output list \<Rightarrow>
    (sil_proof_error, indexed_output list) outcome" where
  "sil_materialize_outputs lib abis outputs = try_map (sil_materialize_output lib abis) outputs"

definition sil_compose ::
  "('ty, 'val, 'x) runtime_lib_scheme \<Rightarrow> 'ty sil_abi list \<Rightarrow> outpoint \<Rightarrow> 'val sil_output list \<Rightarrow>
    (sil_proof_error, ('ty, 'val) sil_proof) outcome" where
  "sil_compose lib abis origin outputs =
     and_then (check_abis lib abis) (\<lambda>_.
     and_then (sil_materialize_outputs lib abis outputs) (\<lambda>indexed.
     and_then (map_err Preimage (consensus_compose lib origin indexed)) (\<lambda>preimage.
       Ok \<lparr>spf_abis = abis, spf_authorizing_outpoint = origin,
           spf_claimed_covenant_id = cp_claimed_covenant_id preimage, spf_outputs = outputs\<rparr>)))"

definition sil_bootstrap_compose ::
  "('ty, 'val, 'x) runtime_lib_scheme \<Rightarrow> 'val sil_bootstrap \<Rightarrow> 'ty sil_abi list \<Rightarrow>
    (sil_proof_error, ('ty, 'val) sil_proof) outcome" where
  "sil_bootstrap_compose lib bootstrap abis =
     sil_compose lib abis (sb_authorizing_outpoint bootstrap) (sb_outputs bootstrap)"

definition sil_consensus_proof ::
  "('ty, 'val, 'x) runtime_lib_scheme \<Rightarrow> ('ty, 'val) sil_proof \<Rightarrow> (sil_proof_error, consensus_proof) outcome" where
  "sil_consensus_proof lib p =
     and_then (check_abis lib (spf_abis p)) (\<lambda>_.
     and_then (sil_materialize_outputs lib (spf_abis p) (spf_outputs p)) (\<lambda>outputs.
       Ok \<lparr>cp_authorizing_outpoint = spf_authorizing_outpoint p,
           cp_claimed_covenant_id = spf_claimed_covenant_id p, cp_outputs = outputs\<rparr>))"

definition sil_check ::
  "('ty, 'val, 'x) runtime_lib_scheme \<Rightarrow> ('ty, 'val) sil_proof \<Rightarrow> (sil_proof_error, unit) outcome" where
  "sil_check lib p = and_then (sil_consensus_proof lib p) (\<lambda>c. map_err Preimage (consensus_check lib c))"

definition sil_verify ::
  "('ty, 'val, 'x) runtime_lib_scheme \<Rightarrow> ('ty, 'val) sil_proof \<Rightarrow> byte list \<Rightarrow> (sil_proof_error, unit) outcome" where
  "sil_verify lib p expected = and_then (sil_consensus_proof lib p) (\<lambda>c. map_err Preimage (consensus_verify lib c expected))"

section \<open>Authored actor states\<close>

record 'val argent_output =
  ao_index :: "32 word"
  ao_value :: "64 word"
  ao_actor :: string
  ao_authored_state :: "'val state_map"

record 'val argent_proof =
  apf_authorizing_outpoint :: outpoint
  apf_claimed_covenant_id :: "byte list"
  apf_outputs :: "'val argent_output list"

record 'val argent_bootstrap =
  abs_app :: string
  abs_authorizing_outpoint :: outpoint
  abs_outputs :: "'val argent_output list"

datatype export_reason = RawScriptOutput | NotInPrimaryApp string string

datatype argent_proof_error =
    AppMismatch string string
  | MissingGenesisGroup "16 word" string
  | ExportOutput nat export_reason
  | ContextError builder_error
  | BundleError builder_error
  | OutputStateError "32 word" string builder_error
  | SilError sil_proof_error

definition in_group :: "16 word \<Rightarrow> string \<Rightarrow> 'val context_output \<Rightarrow> bool" where
  "in_group authorizing_input subgroup output = (case co_covenant output of
      Genesis input name \<Rightarrow> input = authorizing_input \<and> name = subgroup
    | _ \<Rightarrow> False)"

definition export_output ::
  "'ty artifact_bundle \<Rightarrow> nat \<Rightarrow> 'val context_output \<Rightarrow> (argent_proof_error, 'val argent_output) outcome" where
  "export_output b output_index output = (case co_owner output of
      OwnedByScript _ \<Rightarrow> Err (ExportOutput output_index RawScriptOutput)
    | OwnedByActor actor state \<Rightarrow>
        and_then (if path_app actor \<noteq> None \<and> path_app actor \<noteq> Some (bu_primary_alias b)
          then and_then (bundle_primary b) (\<lambda>primary.
            Err (ExportOutput output_index (NotInPrimaryApp (show_path actor) (art_app primary))))
          else Ok ()) (\<lambda>_.
        (case state of
           StateWithContext _ \<Rightarrow> Err (ContextError (GenesisOutputStateCallback output_index (show_path actor)))
         | StaticState authored \<Rightarrow>
             if output_index < 2 ^ 32
             then Ok \<lparr>ao_index = of_nat output_index, ao_value = co_value output, ao_actor = path_actor actor,
                 ao_authored_state = authored\<rparr>
             else Err (ContextError (GenesisOutputIndexOverflow output_index)))))"

definition from_context ::
  "'ty artifact_bundle \<Rightarrow> 'val tx_context \<Rightarrow> 16 word \<Rightarrow> string \<Rightarrow> (argent_proof_error, 'val argent_bootstrap) outcome" where
  "from_context b cx authorizing_input subgroup =
     and_then (ok_or (slice_at (tx_inputs cx) (unat authorizing_input))
       (ContextError (GenesisAuthorizingInputOutOfRange authorizing_input (length (tx_inputs cx))))) (\<lambda>input.
     (let origin = (case input of ActorIn i \<Rightarrow> ain_outpoint i | OrdinaryIn i \<Rightarrow> oin_outpoint i) in
      and_then (try_fold (\<lambda>outputs (output_index, output).
          if \<not> in_group authorizing_input subgroup output then Ok outputs
          else and_then (export_output b output_index output) (\<lambda>out. Ok (outputs @ [out]))) []
        (List.enumerate 0 (tx_outputs cx))) (\<lambda>outputs.
      if outputs = [] then Err (MissingGenesisGroup authorizing_input subgroup)
      else and_then (bundle_primary b) (\<lambda>primary.
        Ok \<lparr>abs_app = art_app primary, abs_authorizing_outpoint = origin, abs_outputs = outputs\<rparr>))))"

definition argent_materialize_output ::
  "('ty, 'val, 'x) runtime_lib_scheme \<Rightarrow> 'ty tx_builder \<Rightarrow> 'val argent_output \<Rightarrow>
    (argent_proof_error, 'val sil_output) outcome" where
  "argent_materialize_output lib builder output =
     and_then (map_err (OutputStateError (ao_index output) (ao_actor output))
       (materialize_actor_state lib builder (ao_actor output) (ao_authored_state output))) (\<lambda>state.
       Ok \<lparr>go_index = ao_index output, go_value = ao_value output, go_abi_index = 0, go_contract = ao_actor output,
           go_runtime_state = state\<rparr>)"

definition argent_materialize_outputs ::
  "('ty, 'val, 'x) runtime_lib_scheme \<Rightarrow> 'ty artifact_bundle \<Rightarrow> 'val argent_output list \<Rightarrow>
    (argent_proof_error, 'val sil_output list) outcome" where
  "argent_materialize_outputs lib b outputs =
     and_then (map_err BundleError (from_bundle b)) (\<lambda>builder. try_map (argent_materialize_output lib builder) outputs)"

definition argent_compose ::
  "('ty, 'val, 'x) runtime_lib_scheme \<Rightarrow> 'ty artifact_bundle \<Rightarrow> outpoint \<Rightarrow> 'val argent_output list \<Rightarrow>
    (argent_proof_error, 'val argent_proof) outcome" where
  "argent_compose lib b origin outputs =
     and_then (argent_materialize_outputs lib b outputs) (\<lambda>sil_outputs.
     and_then (bundle_primary b) (\<lambda>primary.
     and_then (map_err SilError (sil_compose lib [art_sil_abi primary] origin sil_outputs)) (\<lambda>p.
       Ok \<lparr>apf_authorizing_outpoint = origin, apf_claimed_covenant_id = spf_claimed_covenant_id p,
           apf_outputs = outputs\<rparr>)))"

definition argent_bootstrap_compose ::
  "('ty, 'val, 'x) runtime_lib_scheme \<Rightarrow> 'val argent_bootstrap \<Rightarrow> 'ty artifact_bundle \<Rightarrow>
    (argent_proof_error, 'val argent_proof) outcome" where
  "argent_bootstrap_compose lib bootstrap b =
     and_then (bundle_primary b) (\<lambda>primary.
       if abs_app bootstrap \<noteq> art_app primary then Err (AppMismatch (art_app primary) (abs_app bootstrap))
       else argent_compose lib b (abs_authorizing_outpoint bootstrap) (abs_outputs bootstrap))"

definition argent_sil_proof ::
  "('ty, 'val, 'x) runtime_lib_scheme \<Rightarrow> 'val argent_proof \<Rightarrow> 'ty artifact_bundle \<Rightarrow>
    (argent_proof_error, ('ty, 'val) sil_proof) outcome" where
  "argent_sil_proof lib p b =
     and_then (argent_materialize_outputs lib b (apf_outputs p)) (\<lambda>outputs.
     and_then (bundle_primary b) (\<lambda>primary.
       Ok \<lparr>spf_abis = [art_sil_abi primary], spf_authorizing_outpoint = apf_authorizing_outpoint p,
           spf_claimed_covenant_id = apf_claimed_covenant_id p, spf_outputs = outputs\<rparr>))"

definition argent_check ::
  "('ty, 'val, 'x) runtime_lib_scheme \<Rightarrow> 'val argent_proof \<Rightarrow> 'ty artifact_bundle \<Rightarrow> (argent_proof_error, unit) outcome" where
  "argent_check lib p b = and_then (argent_sil_proof lib p b) (\<lambda>sil. map_err SilError (sil_check lib sil))"

definition argent_verify ::
  "('ty, 'val, 'x) runtime_lib_scheme \<Rightarrow> 'val argent_proof \<Rightarrow> 'ty artifact_bundle \<Rightarrow> byte list \<Rightarrow>
    (argent_proof_error, unit) outcome" where
  "argent_verify lib p b expected = and_then (argent_sil_proof lib p b) (\<lambda>sil. map_err SilError (sil_verify lib sil expected))"

section \<open>Packages\<close>

definition genesis_proof_schema_version :: "32 word" where
  "genesis_proof_schema_version = 1"

record ('ty, 'val) argent_package =
  pk_primary :: "'ty artifact"
  pk_dependencies :: "'ty artifact list"
  pk_proof :: "'val argent_proof"

datatype ('ty, 'val) proof_layer =
    ConsensusLayer consensus_proof
  | SilLayer "('ty, 'val) sil_proof"
  | ArgentLayer "('ty, 'val) argent_package"

record ('ty, 'val) proof_package =
  pp_schema_version :: "32 word"
  pp_proof :: "('ty, 'val) proof_layer"

datatype package_error =
    UnsupportedVersion "32 word" "32 word"
  | ArgentLayerRequired string
  | JsonError string
  | PackageConsensus preimage_error
  | PackageSil sil_proof_error
  | PackageArgent argent_proof_error

definition argent_package_new :: "'ty artifact_bundle \<Rightarrow> 'val argent_proof \<Rightarrow> (argent_proof_error, ('ty, 'val) argent_package) outcome" where
  "argent_package_new b p =
     and_then (bundle_primary b) (\<lambda>primary.
       Ok \<lparr>pk_primary = primary, pk_dependencies = bundle_dependencies b, pk_proof = p\<rparr>)"

definition runtime_bundle ::
  "('ty, 'val, 'x) runtime_lib_scheme \<Rightarrow> ('ty, 'val) argent_package \<Rightarrow> (argent_proof_error, 'ty artifact_bundle) outcome" where
  "runtime_bundle lib pk =
     and_then (map_err BundleError (bundle_new lib (pk_primary pk))) (\<lambda>b.
       try_fold (\<lambda>b a. map_err BundleError (with_artifact lib b a)) b (pk_dependencies pk))"

definition argent_package_check ::
  "('ty, 'val, 'x) runtime_lib_scheme \<Rightarrow> ('ty, 'val) argent_package \<Rightarrow> (argent_proof_error, unit) outcome" where
  "argent_package_check lib pk = and_then (runtime_bundle lib pk) (argent_check lib (pk_proof pk))"

definition argent_package_verify ::
  "('ty, 'val, 'x) runtime_lib_scheme \<Rightarrow> ('ty, 'val) argent_package \<Rightarrow> byte list \<Rightarrow> (argent_proof_error, unit) outcome" where
  "argent_package_verify lib pk expected =
     and_then (runtime_bundle lib pk) (\<lambda>b. argent_verify lib (pk_proof pk) b expected)"

definition package_new :: "('ty, 'val) proof_layer \<Rightarrow> ('ty, 'val) proof_package" where
  "package_new layer = \<lparr>pp_schema_version = genesis_proof_schema_version, pp_proof = layer\<rparr>"

definition check_version :: "('ty, 'val) proof_package \<Rightarrow> (package_error, unit) outcome" where
  "check_version package =
     (if pp_schema_version package \<noteq> genesis_proof_schema_version
      then Err (UnsupportedVersion genesis_proof_schema_version (pp_schema_version package)) else Ok ())"

definition package_from_json ::
  "(string \<Rightarrow> (string, ('ty, 'val) proof_package) outcome) \<Rightarrow> string \<Rightarrow> (package_error, ('ty, 'val) proof_package) outcome" where
  "package_from_json parse source =
     and_then (map_err JsonError (parse source)) (\<lambda>package. and_then (check_version package) (\<lambda>_. Ok package))"

definition package_to_json ::
  "(('ty, 'val) proof_package \<Rightarrow> (string, string) outcome) \<Rightarrow> ('ty, 'val) proof_package \<Rightarrow> (package_error, string) outcome" where
  "package_to_json print package = and_then (check_version package) (\<lambda>_. map_err JsonError (print package))"

definition package_check ::
  "('ty, 'val, 'x) runtime_lib_scheme \<Rightarrow> ('ty, 'val) proof_package \<Rightarrow> (package_error, unit) outcome" where
  "package_check lib package =
     and_then (check_version package) (\<lambda>_. case pp_proof package of
       ConsensusLayer p \<Rightarrow> map_err PackageConsensus (consensus_check lib p)
     | SilLayer p \<Rightarrow> map_err PackageSil (sil_check lib p)
     | ArgentLayer pk \<Rightarrow> map_err PackageArgent (argent_package_check lib pk))"

definition package_verify ::
  "('ty, 'val, 'x) runtime_lib_scheme \<Rightarrow> ('ty, 'val) proof_package \<Rightarrow> byte list \<Rightarrow> (package_error, unit) outcome" where
  "package_verify lib package expected =
     and_then (check_version package) (\<lambda>_. case pp_proof package of
       ConsensusLayer p \<Rightarrow> map_err PackageConsensus (consensus_verify lib p expected)
     | SilLayer p \<Rightarrow> map_err PackageSil (sil_verify lib p expected)
     | ArgentLayer pk \<Rightarrow> map_err PackageArgent (argent_package_verify lib pk expected))"

definition package_verify_argent ::
  "('ty, 'val, 'x) runtime_lib_scheme \<Rightarrow> ('ty, 'val) proof_package \<Rightarrow> byte list \<Rightarrow> (package_error, unit) outcome" where
  "package_verify_argent lib package expected =
     and_then (check_version package) (\<lambda>_. case pp_proof package of
       ArgentLayer pk \<Rightarrow> map_err PackageArgent (argent_package_verify lib pk expected)
     | ConsensusLayer _ \<Rightarrow> Err (ArgentLayerRequired ''consensus'')
     | SilLayer _ \<Rightarrow> Err (ArgentLayerRequired ''sil''))"

section \<open>What a consensus proof establishes\<close>

lemma check_windows_iff: "check_windows outputs = Ok u \<longleftrightarrow> sorted_wrt (<) (map io_index outputs)"
  by (induction outputs rule: check_windows.induct) (auto simp: not_le dest: less_trans)

lemma check_windows_not_Panic [simp]: "check_windows outputs \<noteq> Panic"
  by (induction outputs rule: check_windows.induct) auto

definition preimage_id :: "('ty, 'val, 'x) runtime_lib_scheme \<Rightarrow> outpoint \<Rightarrow> indexed_output list \<Rightarrow> byte list" where
  "preimage_id lib origin outputs =
     rl_covenant_id lib origin (map (\<lambda>o'. (io_index o', io_value o', io_script_public_key o')) outputs)"

lemma compute_covenant_id_iff:
  "compute_covenant_id lib origin outputs = Ok i \<longleftrightarrow>
    outputs \<noteq> [] \<and> sorted_wrt (<) (map io_index outputs) \<and> i = preimage_id lib origin outputs"
  by (auto simp: compute_covenant_id_def check_output_order_def and_then_Ok_iff check_windows_iff preimage_id_def)

lemma consensus_not_Panic [simp]: "compute_covenant_id lib origin outputs \<noteq> Panic" "consensus_verify lib p expected \<noteq> Panic"
  by (auto simp: compute_covenant_id_def check_output_order_def consensus_verify_def consensus_check_def
      computed_covenant_id_def and_then_Panic_iff)

lemma consensus_verify_iff:
  "consensus_verify lib p expected = Ok u \<longleftrightarrow>
    cp_outputs p \<noteq> [] \<and> sorted_wrt (<) (map io_index (cp_outputs p)) \<and> cp_claimed_covenant_id p = expected
    \<and> expected = preimage_id lib (cp_authorizing_outpoint p) (cp_outputs p)"
  by (auto simp: consensus_verify_def consensus_check_def computed_covenant_id_def and_then_Ok_iff compute_covenant_id_iff)

lemma consensus_compose_iff:
  "consensus_compose lib origin outputs = Ok p \<longleftrightarrow> outputs \<noteq> [] \<and> sorted_wrt (<) (map io_index outputs)
    \<and> p = \<lparr>cp_authorizing_outpoint = origin, cp_claimed_covenant_id = preimage_id lib origin outputs, cp_outputs = outputs\<rparr>"
  by (auto simp: consensus_compose_def and_then_Ok_iff compute_covenant_id_iff)

section \<open>The layers\<close>

definition abis_ok :: "('ty, 'val, 'x) runtime_lib_scheme \<Rightarrow> 'ty sil_abi list \<Rightarrow> bool" where
  "abis_ok lib abis \<longleftrightarrow> (\<forall>abi \<in> set abis. al_check_sil_abi lib abi = Ok ())"

lemma check_abis_iff: "check_abis lib abis = Ok u \<longleftrightarrow> abis_ok lib abis"
proof -
  have "snd ` set (List.enumerate 0 abis) = set abis" by (metis list.set_map map_snd_enumerate)
  then show ?thesis by (force simp: check_abis_def abis_ok_def try_each_Ok_iff)
qed

lemma sil_verify_iff:
  "sil_verify lib p expected = Ok () \<longleftrightarrow> abis_ok lib (spf_abis p) \<and> spf_claimed_covenant_id p = expected
    \<and> (\<exists>outs. sil_materialize_outputs lib (spf_abis p) (spf_outputs p) = Ok outs \<and> outs \<noteq> []
        \<and> sorted_wrt (<) (map io_index outs) \<and> expected = preimage_id lib (spf_authorizing_outpoint p) outs)"
  by (auto simp: sil_verify_def sil_consensus_proof_def and_then_Ok_iff check_abis_iff consensus_verify_iff)

lemma sil_compose_iff:
  "sil_compose lib abis origin outputs = Ok p \<longleftrightarrow> abis_ok lib abis
    \<and> (\<exists>outs. sil_materialize_outputs lib abis outputs = Ok outs \<and> outs \<noteq> [] \<and> sorted_wrt (<) (map io_index outs)
        \<and> p = \<lparr>spf_abis = abis, spf_authorizing_outpoint = origin,
            spf_claimed_covenant_id = preimage_id lib origin outs, spf_outputs = outputs\<rparr>)"
  by (auto simp: sil_compose_def and_then_Ok_iff check_abis_iff consensus_compose_iff)

text \<open>The consensus output of an authored actor state: the script its contract has in that state.\<close>

definition actor_output ::
  "('ty, 'val, 'x) runtime_lib_scheme \<Rightarrow> 'ty artifact_bundle \<Rightarrow> 'val argent_output \<Rightarrow> indexed_output \<Rightarrow> bool" where
  "actor_output lib b output indexed \<longleftrightarrow> io_index indexed = ao_index output \<and> io_value indexed = ao_value output
     \<and> script_public_key_for_actor lib b (primary_path (ao_actor output)) (ao_authored_state output)
       = Ok (io_script_public_key indexed)"

lemma slice_at_single: "slice_at [x] i = Some y \<longleftrightarrow> i = 0 \<and> y = x"
  by (auto simp: slice_at_def)

lemma two_layers_output:
  assumes lib: "sil_lib_ok lib" and a: "map_of (bu_apps b) (bu_primary_alias b) = Some a"
  shows "(\<exists>s. argent_materialize_output lib \<lparr>tb_bundle = b\<rparr> output = Ok s
      \<and> sil_materialize_output lib [art_sil_abi a] s = Ok indexed) \<longleftrightarrow> actor_output lib b output indexed"
  by (cases indexed)
    (auto simp: slice_at_single bundle_primary_def argent_materialize_output_def sil_materialize_output_def materialize_actor_state_def actor_output_def
      script_public_key_for_actor_def primary_path_def redeem_script_for_contract_def a and_then_Ok_iff
      contract_ref_in_artifact_iff(1) [OF lib] lib [unfolded sil_lib_ok_def])

lemma list_all2_through:
  "(\<exists>ss. list_all2 P xs ss \<and> list_all2 Q ss ys) \<longleftrightarrow> list_all2 (\<lambda>x y. \<exists>s. P x s \<and> Q s y) xs ys"
proof -
  have "(\<lambda>x y. \<exists>s. P x s \<and> Q s y) = P OO Q" by (auto simp: fun_eq_iff)
  then show ?thesis by (simp add: list.rel_compp relcompp_apply)
qed

text \<open>The consensus outputs that the two upper layers derive from authored states.\<close>

definition argent_lowers ::
  "('ty, 'val, 'x) runtime_lib_scheme \<Rightarrow> 'ty artifact_bundle \<Rightarrow> 'val argent_output list \<Rightarrow> indexed_output list \<Rightarrow> bool" where
  "argent_lowers lib b outputs indexed \<longleftrightarrow>
     dependencies_attached b \<and> interfaces_agree b \<and> list_all2 (actor_output lib b) outputs indexed"

lemma two_layers:
  assumes "sil_lib_ok lib" and "map_of (bu_apps b) (bu_primary_alias b) = Some a"
  shows "(\<exists>sils. argent_materialize_outputs lib b outputs = Ok sils
      \<and> sil_materialize_outputs lib [art_sil_abi a] sils = Ok indexed) \<longleftrightarrow> argent_lowers lib b outputs indexed"
proof -
  have out: "actor_output lib b = (\<lambda>o' i. \<exists>s. argent_materialize_output lib \<lparr>tb_bundle = b\<rparr> o' = Ok s
      \<and> sil_materialize_output lib [art_sil_abi a] s = Ok i)"
    by (simp add: fun_eq_iff two_layers_output [OF assms])
  show ?thesis
    unfolding argent_lowers_def out list_all2_through [symmetric]
    by (auto simp: argent_materialize_outputs_def sil_materialize_outputs_def and_then_Ok_iff from_bundle_iff try_map_Ok_iff)
qed

text \<open>Such outputs keep the indices and are determined by the scripts.\<close>

definition actor_scripts ::
  "('ty, 'val, 'x) runtime_lib_scheme \<Rightarrow> 'ty artifact_bundle \<Rightarrow> 'val argent_output list \<Rightarrow> script_public_key list \<Rightarrow> bool" where
  "actor_scripts lib b outputs scripts \<longleftrightarrow> list_all2 (\<lambda>o' spk.
     script_public_key_for_actor lib b (primary_path (ao_actor o')) (ao_authored_state o') = Ok spk) outputs scripts"

definition committed :: "'val argent_output list \<Rightarrow> script_public_key list \<Rightarrow> (32 word \<times> 64 word \<times> script_public_key) list" where
  "committed outputs scripts = map (\<lambda>(o', spk). (ao_index o', ao_value o', spk)) (zip outputs scripts)"

lemma lowered_outputs:
  assumes "list_all2 (actor_output lib b) outputs indexed"
  shows "map io_index indexed = map ao_index outputs"
    and "actor_scripts lib b outputs (map io_script_public_key indexed)"
    and "map (\<lambda>o'. (io_index o', io_value o', io_script_public_key o')) indexed
      = committed outputs (map io_script_public_key indexed)"
  using assms by (induction rule: list_all2_induct) (auto simp: actor_output_def actor_scripts_def committed_def)

lemma outputs_of_scripts:
  assumes "actor_scripts lib b outputs scripts"
  shows "\<exists>indexed. list_all2 (actor_output lib b) outputs indexed \<and> map io_script_public_key indexed = scripts"
  using assms unfolding actor_scripts_def
proof (induction rule: list_all2_induct)
  case (Cons out outs spk spks)
  then obtain indexed where "list_all2 (actor_output lib b) outs indexed" "map io_script_public_key indexed = spks" by blast
  moreover have "actor_output lib b out \<lparr>io_index = ao_index out, io_value = ao_value out, io_script_public_key = spk\<rparr>"
    using Cons.hyps(1) by (simp add: actor_output_def)
  ultimately show ?case
    by (intro exI [of _ "\<lparr>io_index = ao_index out, io_value = ao_value out, io_script_public_key = spk\<rparr> # indexed"]) simp
qed simp

lemma lowered_iff_scripts:
  "(\<exists>indexed. argent_lowers lib b outputs indexed \<and> i = preimage_id lib origin indexed) \<longleftrightarrow>
    dependencies_attached b \<and> interfaces_agree b
    \<and> (\<exists>scripts. actor_scripts lib b outputs scripts \<and> i = rl_covenant_id lib origin (committed outputs scripts))"
    (is "?l \<longleftrightarrow> ?r")
proof
  assume ?l
  then obtain indexed where "list_all2 (actor_output lib b) outputs indexed" "dependencies_attached b" "interfaces_agree b"
    "i = preimage_id lib origin indexed" unfolding argent_lowers_def by blast
  with lowered_outputs(2,3) [OF this(1)] show ?r
    by (intro conjI exI [of _ "map io_script_public_key indexed"]) (simp_all add: preimage_id_def)
next
  assume ?r
  then obtain scripts where *: "dependencies_attached b" "interfaces_agree b" "actor_scripts lib b outputs scripts"
    "i = rl_covenant_id lib origin (committed outputs scripts)" by blast
  from outputs_of_scripts [OF *(3)] obtain indexed where
    i: "list_all2 (actor_output lib b) outputs indexed" "map io_script_public_key indexed = scripts" by blast
  have "i = preimage_id lib origin indexed" using lowered_outputs(3) [OF i(1)] *(4) i(2) by (simp add: preimage_id_def)
  with i(1) *(1,2) show ?l unfolding argent_lowers_def by blast
qed

lemma built_primary_abi:
  assumes "built lib b"
  obtains a where "map_of (bu_apps b) (bu_primary_alias b) = Some a" and "check_consistency lib a = Ok ()"
    and "abis_ok lib [art_sil_abi a]"
proof -
  obtain a where a: "map_of (bu_apps b) (bu_primary_alias b) = Some a"
    using bundle_okD(3) [OF built_bundle_ok [OF assms]] by blast
  moreover have ok: "check_consistency lib a = Ok ()" using bundle_okD(2) [OF built_bundle_ok [OF assms] a] by simp
  ultimately show ?thesis using that by (auto simp: abis_ok_def check_consistency_def and_then_Ok_iff)
qed

lemma argent_verify_iff:
  assumes lib: "runtime_lib_ok lib" and b: "built lib b"
  shows "argent_verify lib p b expected = Ok () \<longleftrightarrow>
    apf_claimed_covenant_id p = expected \<and> apf_outputs p \<noteq> [] \<and> sorted_wrt (<) (map ao_index (apf_outputs p))
    \<and> (\<exists>indexed. argent_lowers lib b (apf_outputs p) indexed
        \<and> expected = preimage_id lib (apf_authorizing_outpoint p) indexed)"
proof -
  obtain a where a: "map_of (bu_apps b) (bu_primary_alias b) = Some a" "abis_ok lib [art_sil_abi a]"
    using built_primary_abi [OF b] .
  have "argent_verify lib p b expected = Ok () \<longleftrightarrow> apf_claimed_covenant_id p = expected
    \<and> (\<exists>indexed. (\<exists>sils. argent_materialize_outputs lib b (apf_outputs p) = Ok sils
         \<and> sil_materialize_outputs lib [art_sil_abi a] sils = Ok indexed)
       \<and> indexed \<noteq> [] \<and> sorted_wrt (<) (map io_index indexed)
       \<and> expected = preimage_id lib (apf_authorizing_outpoint p) indexed)"
    by (auto simp: argent_verify_def argent_sil_proof_def and_then_Ok_iff sil_verify_iff bundle_primary_def a)
  also have "\<dots> \<longleftrightarrow> apf_claimed_covenant_id p = expected
    \<and> (\<exists>indexed. argent_lowers lib b (apf_outputs p) indexed \<and> indexed \<noteq> [] \<and> sorted_wrt (<) (map io_index indexed)
       \<and> expected = preimage_id lib (apf_authorizing_outpoint p) indexed)"
    unfolding two_layers [OF runtime_lib_okD(2) [OF lib] a(1)] ..
  also have "\<dots> \<longleftrightarrow> apf_claimed_covenant_id p = expected \<and> apf_outputs p \<noteq> [] \<and> sorted_wrt (<) (map ao_index (apf_outputs p))
    \<and> (\<exists>indexed. argent_lowers lib b (apf_outputs p) indexed \<and> expected = preimage_id lib (apf_authorizing_outpoint p) indexed)"
    using lowered_outputs(1) [of lib b "apf_outputs p"] unfolding argent_lowers_def by (metis map_is_Nil_conv)
  finally show ?thesis .
qed

text \<open>
  C36: Verification of an Argent genesis proof refines down to the consensus preimage: on a
  bundle built through its constructors it accepts exactly when the dependencies and interfaces
  of the bundle agree, the outputs are non-empty with strictly increasing transaction indices,
  and both the claim and the independent id are the covenant id of the authorizing outpoint
  and, for every authored state, the script its contract of the primary app has in that state
  under the output's index and value.
\<close>

theorem argent_proof_refines_preimage:
  assumes "runtime_lib_ok lib" and "built lib b"
  shows "argent_verify lib p b expected = Ok () \<longleftrightarrow>
    apf_claimed_covenant_id p = expected \<and> apf_outputs p \<noteq> [] \<and> sorted_wrt (<) (map ao_index (apf_outputs p))
    \<and> dependencies_attached b \<and> interfaces_agree b
    \<and> (\<exists>scripts. list_all2 (\<lambda>o' spk. script_public_key_for_actor lib b (primary_path (ao_actor o')) (ao_authored_state o') = Ok spk)
          (apf_outputs p) scripts
        \<and> expected = rl_covenant_id lib (apf_authorizing_outpoint p)
            (map (\<lambda>(o', spk). (ao_index o', ao_value o', spk)) (zip (apf_outputs p) scripts)))"
  using argent_verify_iff [OF assms] lowered_iff_scripts [of lib b "apf_outputs p"]
  by (simp add: actor_scripts_def committed_def)

section \<open>Composition and packages\<close>

lemma argent_compose_iff:
  assumes lib: "runtime_lib_ok lib" and b: "built lib b"
  shows "argent_compose lib b origin outputs = Ok p \<longleftrightarrow>
    outputs \<noteq> [] \<and> sorted_wrt (<) (map ao_index outputs)
    \<and> (\<exists>indexed. argent_lowers lib b outputs indexed \<and> p = \<lparr>apf_authorizing_outpoint = origin,
        apf_claimed_covenant_id = preimage_id lib origin indexed, apf_outputs = outputs\<rparr>)"
proof -
  obtain a where a: "map_of (bu_apps b) (bu_primary_alias b) = Some a" "abis_ok lib [art_sil_abi a]"
    using built_primary_abi [OF b] .
  have "argent_compose lib b origin outputs = Ok p \<longleftrightarrow>
    (\<exists>indexed. (\<exists>sils. argent_materialize_outputs lib b outputs = Ok sils
         \<and> sil_materialize_outputs lib [art_sil_abi a] sils = Ok indexed)
       \<and> indexed \<noteq> [] \<and> sorted_wrt (<) (map io_index indexed)
       \<and> p = \<lparr>apf_authorizing_outpoint = origin, apf_claimed_covenant_id = preimage_id lib origin indexed, apf_outputs = outputs\<rparr>)"
    by (auto simp: argent_compose_def and_then_Ok_iff sil_compose_iff bundle_primary_def a)
  then show ?thesis
    unfolding two_layers [OF runtime_lib_okD(2) [OF lib] a(1)]
    using lowered_outputs(1) [of lib b outputs] unfolding argent_lowers_def by (metis map_is_Nil_conv)
qed

lemma attach_all:
  assumes "\<forall>(k, a) \<in> set xs. k = artifact_app_alias (art_app a) \<and> check_consistency lib a = Ok ()"
    and "distinct (map fst xs)" and "\<forall>k \<in> fst ` set xs. map_of (bu_apps b) k = None"
  shows "try_fold (\<lambda>b a. map_err BundleError (with_artifact lib b a)) b (map snd xs)
    = Ok (b\<lparr>bu_apps := fold (\<lambda>(k, v). bm_insert k v) xs (bu_apps b)\<rparr>)"
  using assms
proof (induction xs arbitrary: b)
  case (Cons x xs)
  obtain k a where x: "x = (k, a)" by (cases x)
  let ?b = "b\<lparr>bu_apps := bm_insert k a (bu_apps b)\<rparr>"
  have "with_artifact lib b a = Ok ?b"
    using Cons.prems by (auto simp: with_artifact_def x)
  moreover have "\<forall>k' \<in> fst ` set xs. map_of (bu_apps ?b) k' = None"
    using Cons.prems(2,3) by (auto simp: x rev_image_eqI)
  ultimately show ?case using Cons.IH [of ?b] Cons.prems(1,2) by (simp add: x)
qed simp

lemma map_of_filter_key: "map_of (filter (\<lambda>(k, _). k \<noteq> k0) m) k = (if k = k0 then None else map_of m k)"
  by (induction m) auto

text \<open>Attaching the dependencies of a bundle to its primary app gives the bundle back.\<close>

lemma runtime_bundle_new:
  assumes b: "built lib b" and pk: "argent_package_new b p = Ok pk"
  shows "runtime_bundle lib pk = Ok b" and "pk_proof pk = p"
proof -
  have ok: "bundle_ok lib b" by (rule built_bundle_ok [OF b])
  obtain a where a: "map_of (bu_apps b) (bu_primary_alias b) = Some a"
    using bundle_okD(3) [OF ok] by blast
  then have nm: "bu_primary_alias b = artifact_app_alias (art_app a)" and check: "check_consistency lib a = Ok ()"
    using bundle_okD(2) [OF ok a] by auto
  have pk': "pk = \<lparr>pk_primary = a, pk_dependencies = bundle_dependencies b, pk_proof = p\<rparr>"
    using pk by (auto simp: argent_package_new_def bundle_primary_def a)
  then show "pk_proof pk = p" by simp
  let ?xs = "filter (\<lambda>(k, _). k \<noteq> bu_primary_alias b) (bu_apps b)"
  let ?m = "fold (\<lambda>(k, v). bm_insert k v) ((bu_primary_alias b, a) # ?xs) []"
  have sorted: "sorted_wrt (<) (bm_keys (bu_apps b))" using ok by (simp add: bundle_ok_def)
  have d: "distinct (map fst (bu_apps b))" by (rule sorted_keys_distinct [OF sorted])
  then have dx: "distinct (map fst ?xs)" by (rule distinct_map_filter)
  have "\<forall>(k, a) \<in> set ?xs. k = artifact_app_alias (art_app a) \<and> check_consistency lib a = Ok ()"
    using ok by (auto simp: bundle_ok_def)
  moreover have "\<forall>k \<in> fst ` set ?xs. map_of [(bu_primary_alias b, a)] k = None" by auto
  ultimately have "runtime_bundle lib pk = Ok \<lparr>bu_primary_alias = bu_primary_alias b, bu_apps = ?m\<rparr>"
    using attach_all [OF _ dx, of lib "\<lparr>bu_primary_alias = bu_primary_alias b, bu_apps = [(bu_primary_alias b, a)]\<rparr>"]
    by (simp add: runtime_bundle_def pk' bundle_new_def bundle_named_def check_artifact_consistency_def check nm [symmetric]
        bundle_dependencies_def Let_def)
  moreover have "?m = bu_apps b"
  proof (rule btree_eqI)
    show "sorted_wrt (<) (bm_keys ?m)" by (rule bm.filled_sorted)
    have dist: "distinct (map fst ((bu_primary_alias b, a) # ?xs))" using dx by auto
    have filt: "map_of ?xs k = (if k = bu_primary_alias b then None else map_of (bu_apps b) k)" for k
      by (rule map_of_filter_key)
    show "map_of ?m = map_of (bu_apps b)"
      using bm.get_filled_distinct [OF dist] by (auto simp: fun_eq_iff a filt)
  qed (rule sorted)
  ultimately show "runtime_bundle lib pk = Ok b" by simp
qed

text \<open>A composed proof is accepted for exactly the id it claims.\<close>

lemma composed_verifies:
  assumes "runtime_lib_ok lib" and "built lib b" and "argent_compose lib b origin outputs = Ok p"
  shows "argent_verify lib p b expected = Ok () \<longleftrightarrow> expected = apf_claimed_covenant_id p"
proof -
  obtain indexed where p: "outputs \<noteq> []" "sorted_wrt (<) (map ao_index outputs)" "argent_lowers lib b outputs indexed"
    "p = \<lparr>apf_authorizing_outpoint = origin, apf_claimed_covenant_id = preimage_id lib origin indexed, apf_outputs = outputs\<rparr>"
    using assms(3) unfolding argent_compose_iff [OF assms(1,2)] by blast
  then show ?thesis unfolding argent_verify_iff [OF assms(1,2)] by auto
qed

text \<open>
  C37: Composing and packaging round-trips: a proof composed on a built bundle and packaged with
  it is accepted by the Argent verification of the package for exactly one id, the composed
  claim, and by the check of the package; the package carries the whole verification context.
\<close>

theorem genesis_package_roundtrip:
  assumes "runtime_lib_ok lib" and "built lib b"
    and "argent_compose lib b origin outputs = Ok p" and "argent_package_new b p = Ok pk"
  shows "(package_verify_argent lib (package_new (ArgentLayer pk)) expected = Ok ()
      \<longleftrightarrow> expected = apf_claimed_covenant_id p)
    \<and> package_verify lib (package_new (ArgentLayer pk)) (apf_claimed_covenant_id p) = Ok ()
    \<and> pk_proof pk = p \<and> runtime_bundle lib pk = Ok b"
proof -
  have "argent_verify lib p b expected = Ok () \<longleftrightarrow> expected = apf_claimed_covenant_id p" for expected
    by (rule composed_verifies [OF assms(1-3)])
  with runtime_bundle_new [OF assms(2,4)] show ?thesis
    by (simp add: package_verify_argent_def package_verify_def package_new_def check_version_def argent_package_verify_def)
qed

section \<open>A genesis group\<close>

definition tiny_bundle :: "nat artifact_bundle" where
  "tiny_bundle = \<lparr>bu_primary_alias = ''tiny'', bu_apps = [(''tiny'', provider_artifact)]\<rparr>"

lemma tiny_bundle_built: "built demo_runtime_lib tiny_bundle"
  by (rule built_named [of _ "''tiny''" provider_artifact])
    (simp add: demo_aliases tiny_bundle_def demo_runtime_consistent)

definition demo_origin :: outpoint where
  "demo_origin = \<lparr>op_transaction_id = [1], op_index = 7\<rparr>"

definition demo_outputs :: "byte list argent_output list" where
  "demo_outputs = [\<lparr>ao_index = 0, ao_value = 1000, ao_actor = ''A'', ao_authored_state = [(''n'', [5])]\<rparr>,
     \<lparr>ao_index = 2, ao_value = 3000, ao_actor = ''A'', ao_authored_state = [(''n'', [6])]\<rparr>]"

definition demo_proof_of_genesis :: "byte list argent_proof" where
  "demo_proof_of_genesis = \<lparr>apf_authorizing_outpoint = demo_origin, apf_claimed_covenant_id = [1, 2], apf_outputs = demo_outputs\<rparr>"

lemma demo_composes: "argent_compose demo_runtime_lib tiny_bundle demo_origin demo_outputs = Ok demo_proof_of_genesis"
  by code_simp

lemma demo_verifies: "argent_verify demo_runtime_lib demo_proof_of_genesis tiny_bundle [1, 2] = Ok ()"
  unfolding composed_verifies [OF demo_runtime_lib_ok tiny_bundle_built demo_composes]
  by (simp add: demo_proof_of_genesis_def)

lemma argent_proof_refines_preimage_witness:
  "\<exists>scripts. [1, 2] = rl_covenant_id demo_runtime_lib demo_origin
    (map (\<lambda>(o', spk). (ao_index o', ao_value o', spk)) (zip demo_outputs scripts))"
  using demo_verifies argent_proof_refines_preimage [OF demo_runtime_lib_ok tiny_bundle_built, of demo_proof_of_genesis "[1, 2]"]
  by (auto simp: demo_proof_of_genesis_def)

lemma genesis_package_roundtrip_witness:
  "\<exists>pk. argent_package_new tiny_bundle demo_proof_of_genesis = Ok pk
    \<and> package_verify_argent demo_runtime_lib (package_new (ArgentLayer pk)) [1, 2] = Ok ()
    \<and> package_verify_argent demo_runtime_lib (package_new (ArgentLayer pk)) [1, 3] \<noteq> Ok ()"
proof -
  obtain pk where pk: "argent_package_new tiny_bundle demo_proof_of_genesis = Ok pk"
    by (simp add: argent_package_new_def bundle_primary_def tiny_bundle_def)
  have "apf_claimed_covenant_id demo_proof_of_genesis = [1, 2]" by (simp add: demo_proof_of_genesis_def)
  with genesis_package_roundtrip [OF demo_runtime_lib_ok tiny_bundle_built demo_composes pk] pk show ?thesis by force
qed

end
