(* ===== verification/Lexer.thy ===== *)
theory Lexer
  imports Naming
begin

text \<open>
  Tokenisation of Argent sources, \<^verbatim>\<open>src/compiler/syntax/lexer.rs\<close>, with the reserved
  spellings it uses from \<^verbatim>\<open>word.rs\<close>. A source is its bytes; taking a slice of a \<^verbatim>\<open>str\<close>
  at a position that is not a character boundary panics, as in Rust. The position of the
  lexer is a \<^typ>\<open>nat\<close>, and the nesting depth of a block comment is not bounded (an overflow
  of its 32-bit counter would need a source of four gigabytes). Decoding of a string literal
  (\<^verbatim>\<open>serde_json\<close>) is a parameter.
\<close>

section \<open>Sources\<close>

definition peek_byte :: "string \<Rightarrow> nat \<Rightarrow> nat \<Rightarrow> char option" where
  "peek_byte s pos offset = (if pos + offset < length s then Some (s ! (pos + offset)) else None)"

text \<open>\<^verbatim>\<open>str::is_char_boundary\<close>: no byte of the form \<open>10xxxxxx\<close> starts at the position.\<close>

definition continuation :: "char \<Rightarrow> bool" where
  "continuation c \<longleftrightarrow> 128 \<le> code c \<and> code c < 192"

definition char_boundary :: "string \<Rightarrow> nat \<Rightarrow> bool" where
  "char_boundary s i \<longleftrightarrow> i = 0 \<or> i = length s \<or> (i < length s \<and> \<not> continuation (s ! i))"

definition slice_str :: "string \<Rightarrow> nat \<Rightarrow> nat \<Rightarrow> ('e, string) outcome" where
  "slice_str s a b = (if a \<le> b \<and> char_boundary s a \<and> char_boundary s b then Ok (take (b - a) (drop a s)) else Panic)"

text \<open>What is used of a \<^verbatim>\<open>str\<close> being UTF-8: a continuation byte does not follow an ASCII byte.\<close>

definition utf8_source :: "string \<Rightarrow> bool" where
  "utf8_source s \<longleftrightarrow> (\<forall>i. Suc i < length s \<longrightarrow> code (s ! i) < 128 \<longrightarrow> \<not> continuation (s ! Suc i))"

section \<open>Tokens\<close>

record span =
  sn_start :: nat
  sn_end :: nat

datatype token_kind = Ident string | Number string | Str string | Arrow | Symbol char | Eof

record token =
  tk_kind :: token_kind
  tk_span :: span

datatype lex_error =
    UnexpectedCharacter nat
  | UnterminatedBlockComment nat
  | InvalidString nat string
  | UnterminatedEscape nat
  | UnterminatedString nat
  | RenamedWord nat
  | ReservedPrefix nat string string

definition push :: "token_kind \<Rightarrow> nat \<Rightarrow> nat \<Rightarrow> token list \<Rightarrow> token list" where
  "push kind start end' tokens = tokens @ [\<lparr>tk_kind = kind, tk_span = \<lparr>sn_start = start, sn_end = end'\<rparr>\<rparr>]"

definition reserved_generated_prefix :: string where
  "reserved_generated_prefix = ''gen__''"

definition reserved_generated_type_prefix :: string where
  "reserved_generated_type_prefix = ''Gen__''"

definition legacy_covenant_id :: string where
  "legacy_covenant_id = ''covid''"

section \<open>Scanning\<close>

text \<open>\<^verbatim>\<open>while matches!(self.peek_byte(0), ..) { self.pos += 1 }\<close>\<close>

function skip_while :: "(char \<Rightarrow> bool) \<Rightarrow> string \<Rightarrow> nat \<Rightarrow> nat" where
  "skip_while p s pos = (if pos < length s \<and> p (s ! pos) then skip_while p s (Suc pos) else pos)"
  by pat_completeness auto
termination by (relation "measure (\<lambda>(p, s, pos). length s - pos)") auto

declare skip_while.simps [simp del]

definition newline :: char where
  "newline = char_of (10 :: nat)"

definition skip_line_comment :: "string \<Rightarrow> nat \<Rightarrow> nat" where
  "skip_line_comment s pos = skip_while (\<lambda>c. c \<noteq> newline) s pos"

function block_comment_loop :: "string \<Rightarrow> nat \<Rightarrow> nat \<Rightarrow> nat \<Rightarrow> (lex_error, nat) outcome" where
  "block_comment_loop s start depth pos =
     (if pos < length s then
        if peek_byte s pos 0 = Some (CHR ''/'') \<and> peek_byte s pos 1 = Some (CHR ''*'')
        then block_comment_loop s start (depth + 1) (pos + 2)
        else if peek_byte s pos 0 = Some (CHR ''*'') \<and> peek_byte s pos 1 = Some (CHR ''/'')
        then if depth - 1 = 0 then Ok (pos + 2) else block_comment_loop s start (depth - 1) (pos + 2)
        else block_comment_loop s start depth (pos + 1)
      else Err (UnterminatedBlockComment start))"
  by pat_completeness auto
termination by (relation "measure (\<lambda>(s, start, depth, pos). length s - pos)") auto

declare block_comment_loop.simps [simp del]

definition skip_block_comment :: "string \<Rightarrow> nat \<Rightarrow> (lex_error, nat) outcome" where
  "skip_block_comment s pos = block_comment_loop s pos 1 (pos + 2)"

definition quote :: char where
  "quote = char_of (34 :: nat)"

definition backslash :: char where
  "backslash = char_of (92 :: nat)"

function string_loop ::
  "(string \<Rightarrow> (string, string) outcome) \<Rightarrow> string \<Rightarrow> nat \<Rightarrow> nat \<Rightarrow> (lex_error, string \<times> nat) outcome" where
  "string_loop from_json s start pos =
     (if pos < length s then
        if s ! pos = quote
        then and_then (slice_str s start (pos + 1)) (\<lambda>literal.
          and_then (map_err (InvalidString start) (from_json literal)) (\<lambda>text. Ok (text, pos + 1)))
        else if s ! pos = backslash
        then if pos + 1 < length s then string_loop from_json s start (pos + 2) else Err (UnterminatedEscape (pos + 1))
        else string_loop from_json s start (pos + 1)
      else Err (UnterminatedString start))"
  by pat_completeness auto
termination by (relation "measure (\<lambda>(f, s, start, pos). length s - pos)") auto

declare string_loop.simps [simp del]

definition number_byte :: "char \<Rightarrow> bool" where
  "number_byte c \<longleftrightarrow> is_ascii_digit c \<or> c = underscore"

definition hex_byte :: "char \<Rightarrow> bool" where
  "hex_byte c \<longleftrightarrow> is_ascii_digit c \<or> (97 \<le> code c \<and> code c \<le> 102) \<or> (65 \<le> code c \<and> code c \<le> 70)"

definition ident_byte :: "char \<Rightarrow> bool" where
  "ident_byte c \<longleftrightarrow> is_ascii_alphanumeric c \<or> c = underscore"

definition number_end :: "string \<Rightarrow> nat \<Rightarrow> nat" where
  "number_end s start =
     (if peek_byte s start 0 = Some (CHR ''0'') \<and> peek_byte s start 1 \<in> {Some (CHR ''x''), Some (CHR ''X'')}
      then skip_while hex_byte s (start + 2)
      else let pos = skip_while number_byte s start in
        if peek_byte s pos 0 \<in> {Some (CHR ''e''), Some (CHR ''E'')} then skip_while number_byte s (pos + 1) else pos)"

definition lex_number :: "string \<Rightarrow> nat \<Rightarrow> (lex_error, string \<times> nat) outcome" where
  "lex_number s start =
     (let pos = number_end s start in and_then (slice_str s start pos) (\<lambda>raw. Ok (raw, pos)))"

definition starts_with :: "string \<Rightarrow> string \<Rightarrow> bool" where
  "starts_with pre s \<longleftrightarrow> take (length pre) s = pre"

definition lex_ident :: "string \<Rightarrow> nat \<Rightarrow> (lex_error, string \<times> nat) outcome" where
  "lex_ident s start =
     (let pos = skip_while ident_byte s start in
      and_then (slice_str s start pos) (\<lambda>ident.
        if ident = legacy_covenant_id then Err (RenamedWord start)
        else case find (\<lambda>pre. starts_with pre ident) [reserved_generated_prefix, reserved_generated_type_prefix] of
          Some pre \<Rightarrow> Err (ReservedPrefix start ident pre)
        | None \<Rightarrow> Ok (ident, pos)))"

section \<open>The lexer\<close>

definition whitespace :: "char \<Rightarrow> bool" where
  "whitespace c \<longleftrightarrow> c = CHR '' '' \<or> code c = 9 \<or> code c = 13 \<or> code c = 10"

definition symbols :: string where
  "symbols = ''{}()[];:,|&^!=+-*/%<>.''"

text \<open>
  One round of the main loop on a position inside the source: the token pushed, if any, and the
  position after it.
\<close>

definition lex_step ::
  "(string \<Rightarrow> (string, string) outcome) \<Rightarrow> string \<Rightarrow> nat \<Rightarrow> (lex_error, token_kind option \<times> nat) outcome" where
  "lex_step from_json s pos =
     (let b = s ! pos in
      if whitespace b then Ok (None, pos + 1)
      else if b = CHR ''/'' \<and> peek_byte s pos 1 = Some (CHR ''/'') then Ok (None, skip_line_comment s pos)
      else if b = CHR ''/'' \<and> peek_byte s pos 1 = Some (CHR ''*'')
      then and_then (skip_block_comment s pos) (\<lambda>p. Ok (None, p))
      else if b = quote
      then and_then (string_loop from_json s pos (pos + 1)) (\<lambda>(text, p). Ok (Some (Str text), p))
      else if is_ascii_digit b then and_then (lex_number s pos) (\<lambda>(raw, p). Ok (Some (Number raw), p))
      else if is_ascii_alphabetic b \<or> b = underscore
      then and_then (lex_ident s pos) (\<lambda>(ident, p). Ok (Some (Ident ident), p))
      else if b = CHR ''-'' \<and> peek_byte s pos 1 = Some (CHR ''>'') then Ok (Some Arrow, pos + 2)
      else if b \<in> set symbols then Ok (Some (Symbol b), pos + 1)
      else and_then (slice_str s pos (length s)) (\<lambda>_. Err (UnexpectedCharacter pos)))"

lemma skip_while_ge: "pos \<le> skip_while p s pos"
  by (induction p s pos rule: skip_while.induct) (subst skip_while.simps, auto)

lemma skip_while_le: "pos \<le> length s \<Longrightarrow> skip_while p s pos \<le> length s"
  by (induction p s pos rule: skip_while.induct) (subst skip_while.simps, auto)

lemma skip_while_first: "pos < length s \<Longrightarrow> p (s ! pos) \<Longrightarrow> pos < skip_while p s pos"
  using skip_while_ge [of "Suc pos" p s] by (subst skip_while.simps) auto

lemma block_comment_result:
  "block_comment_loop s start depth pos = Err (UnterminatedBlockComment start)
   \<or> (\<exists>q. block_comment_loop s start depth pos = Ok (q + 2) \<and> pos \<le> q \<and> q + 1 < length s \<and> s ! (q + 1) = CHR ''/'')"
proof (induction s start depth pos rule: block_comment_loop.induct)
  case (1 s start depth pos)
  let ?open = "peek_byte s pos 0 = Some (CHR ''/'') \<and> peek_byte s pos 1 = Some (CHR ''*'')"
    and ?close = "peek_byte s pos 0 = Some (CHR ''*'') \<and> peek_byte s pos 1 = Some (CHR ''/'')"
  note eq = block_comment_loop.simps [of s start depth pos]
  consider "\<not> pos < length s" | "pos < length s" "?open" | "pos < length s" "\<not> ?open" "?close" "depth - 1 = 0"
    | "pos < length s" "\<not> ?open" "?close" "depth - 1 \<noteq> 0" | "pos < length s" "\<not> ?open" "\<not> ?close"
    by blast
  then show ?case
  proof cases
    case 1
    then show ?thesis unfolding eq by simp
  next
    case 2
    have "block_comment_loop s start depth pos = block_comment_loop s start (depth + 1) (pos + 2)"
      unfolding eq if_P [OF 2(1)] if_P [OF 2(2)] ..
    with "1.IH"(1) [OF 2] show ?thesis by (metis add_leD1)
  next
    case 3
    have "block_comment_loop s start depth pos = Ok (pos + 2)"
      unfolding eq if_P [OF 3(1)] if_not_P [OF 3(2)] if_P [OF 3(3)] if_P [OF 3(4)] ..
    with 3(3) show ?thesis by (auto simp: peek_byte_def split: if_splits)
  next
    case 4
    have "block_comment_loop s start depth pos = block_comment_loop s start (depth - 1) (pos + 2)"
      unfolding eq if_P [OF 4(1)] if_not_P [OF 4(2)] if_P [OF 4(3)] if_not_P [OF 4(4)] ..
    with "1.IH"(2) [OF 4] show ?thesis by (metis add_leD1)
  next
    case 5
    have "block_comment_loop s start depth pos = block_comment_loop s start depth (pos + 1)"
      unfolding eq if_P [OF 5(1)] if_not_P [OF 5(2)] if_not_P [OF 5(3)] ..
    with "1.IH"(3) [OF 5] show ?thesis by (metis add_leD1)
  qed
qed

lemma block_comment_bounds:
  "block_comment_loop s start depth pos = Ok p \<Longrightarrow> pos < p \<and> p \<le> length s \<and> s ! (p - 1) = CHR ''/''"
  using block_comment_result [of s start depth pos] by auto

lemma block_comment_not_panic: "block_comment_loop s start depth pos \<noteq> Panic"
  using block_comment_result [of s start depth pos] by auto

lemma string_loop_bounds:
  "string_loop f s start pos = Ok (text, p) \<Longrightarrow> pos < p \<and> p \<le> length s"
proof (induction f s start pos rule: string_loop.induct)
  case (1 f s start pos)
  note eq = 1(3) [unfolded string_loop.simps [of f s start pos]]
  have pos: "pos < length s" using eq by (simp split: if_splits)
  consider "s ! pos = quote" | "s ! pos \<noteq> quote" "s ! pos = backslash" | "s ! pos \<noteq> quote" "s ! pos \<noteq> backslash" by blast
  then show ?case
  proof cases
    case 1
    with eq pos show ?thesis by (auto simp: and_then_Ok_iff)
  next
    case 2
    then have next': "pos + 1 < length s" using eq pos by (simp split: if_splits)
    with eq pos 2 have "string_loop f s start (pos + 2) = Ok (text, p)" by simp
    with "1.IH"(1) [OF pos 2 next'] show ?thesis by linarith
  next
    case 3
    with eq pos have "string_loop f s start (pos + 1) = Ok (text, p)" by simp
    with "1.IH"(2) [OF pos 3] show ?thesis by linarith
  qed
qed

lemma string_loop_text:
  "string_loop f s start pos = Ok (text, p) \<Longrightarrow>
    \<exists>literal. slice_str s start p = (Ok literal :: (lex_error, string) outcome) \<and> f literal = Ok text \<and> s ! (p - 1) = quote"
proof (induction f s start pos rule: string_loop.induct)
  case (1 f s start pos)
  note eq = 1(3) [unfolded string_loop.simps [of f s start pos]]
  have pos: "pos < length s" using eq by (simp split: if_splits)
  consider "s ! pos = quote" | "s ! pos \<noteq> quote" "s ! pos = backslash" | "s ! pos \<noteq> quote" "s ! pos \<noteq> backslash" by blast
  then show ?case
  proof cases
    case 1
    with eq pos show ?thesis by (auto simp: and_then_Ok_iff)
  next
    case 2
    then have next': "pos + 1 < length s" using eq pos by (simp split: if_splits)
    with eq pos 2 have "string_loop f s start (pos + 2) = Ok (text, p)" by simp
    with "1.IH"(1) [OF pos 2 next'] show ?thesis by blast
  next
    case 3
    with eq pos have "string_loop f s start (pos + 1) = Ok (text, p)" by simp
    with "1.IH"(2) [OF pos 3] show ?thesis by blast
  qed
qed

lemma number_end_bounds:
  assumes "pos < length s" and "is_ascii_digit (s ! pos)"
  shows "pos < number_end s pos \<and> number_end s pos \<le> length s"
proof (cases "peek_byte s pos 0 = Some (CHR ''0'') \<and> peek_byte s pos 1 \<in> {Some (CHR ''x''), Some (CHR ''X'')}")
  case True
  then have "pos + 2 \<le> length s" by (auto simp: peek_byte_def split: if_splits)
  with True show ?thesis
    using skip_while_ge [of "pos + 2" hex_byte s] skip_while_le [of "pos + 2" s hex_byte] by (simp add: number_end_def)
next
  case False
  let ?p = "skip_while number_byte s pos"
  have p: "pos < ?p" "?p \<le> length s"
    using assms skip_while_first [of pos s number_byte] skip_while_le [of pos s number_byte] by (simp_all add: number_byte_def)
  moreover have "peek_byte s ?p 0 \<noteq> None \<Longrightarrow> ?p + 1 \<le> length s" by (simp add: peek_byte_def split: if_splits)
  ultimately show ?thesis
    using False skip_while_ge [of "?p + 1" number_byte s] skip_while_le [of "?p + 1" s number_byte]
    by (auto simp: number_end_def Let_def)
qed

lemma ident_end_bounds:
  assumes "pos < length s" and "is_ascii_alphabetic (s ! pos) \<or> s ! pos = underscore"
  shows "pos < skip_while ident_byte s pos \<and> skip_while ident_byte s pos \<le> length s"
  using assms skip_while_first [of pos s ident_byte] skip_while_le [of pos s ident_byte]
  by (auto simp: ident_byte_def is_ascii_alphanumeric_def)

text \<open>
  The shape of a number token: a hexadecimal literal, or digits and underscores with an optional
  exponent of digits and underscores.
\<close>

definition exponent_mark :: "char \<Rightarrow> bool" where
  "exponent_mark c \<longleftrightarrow> c = CHR ''e'' \<or> c = CHR ''E''"

definition split_exponent :: "string \<Rightarrow> string \<times> string option" where
  "split_exponent raw = (takeWhile (\<lambda>c. \<not> exponent_mark c) raw,
     (case dropWhile (\<lambda>c. \<not> exponent_mark c) raw of [] \<Rightarrow> None | c # exponent \<Rightarrow> Some exponent))"

definition hex_literal :: "string \<Rightarrow> bool" where
  "hex_literal raw \<longleftrightarrow> starts_with ''0x'' raw \<or> starts_with ''0X'' raw"

definition number_token :: "string \<Rightarrow> bool" where
  "number_token raw \<longleftrightarrow>
     (if hex_literal raw then list_all hex_byte (drop 2 raw)
      else (case split_exponent raw of (base, exponent) \<Rightarrow>
        base \<noteq> [] \<and> is_ascii_digit (hd base) \<and> list_all number_byte base
        \<and> (case exponent of None \<Rightarrow> True | Some digits \<Rightarrow> list_all number_byte digits)))"

text \<open>What the text of a token is, by its kind.\<close>

definition token_matches :: "(string \<Rightarrow> (string, string) outcome) \<Rightarrow> token_kind \<Rightarrow> string \<Rightarrow> bool" where
  "token_matches from_json kind text = (case kind of
      Ident ident \<Rightarrow> text = ident \<and> is_identifier ident \<and> ident \<noteq> legacy_covenant_id
        \<and> \<not> starts_with reserved_generated_prefix ident \<and> \<not> starts_with reserved_generated_type_prefix ident
    | Number raw \<Rightarrow> text = raw \<and> number_token raw
    | Str decoded \<Rightarrow> from_json text = Ok decoded
    | Arrow \<Rightarrow> text = ''->''
    | Symbol c \<Rightarrow> text = [c] \<and> c \<in> set symbols
    | Eof \<Rightarrow> text = [])"

abbreviation source_text :: "string \<Rightarrow> nat \<Rightarrow> nat \<Rightarrow> string" where
  "source_text s a b \<equiv> take (b - a) (drop a s)"

lemma source_text_one: "pos < length s \<Longrightarrow> source_text s pos (Suc pos) = [s ! pos]"
  by (simp add: take_Suc_conv_app_nth)

lemma source_text_two: "Suc pos < length s \<Longrightarrow> source_text s pos (Suc (Suc pos)) = [s ! pos, s ! Suc pos]"
  by (simp add: Cons_nth_drop_Suc [symmetric])

lemma source_text_hd: "pos < b \<Longrightarrow> pos < length s \<Longrightarrow> source_text s pos b \<noteq> [] \<and> hd (source_text s pos b) = s ! pos"
  by (simp add: hd_drop_conv_nth)

lemma skip_while_all: "pos \<le> i \<Longrightarrow> i < skip_while p s pos \<Longrightarrow> p (s ! i)"
proof (induction p s pos rule: skip_while.induct)
  case (1 p s pos)
  show ?case
  proof (cases "pos < length s \<and> p (s ! pos)")
    case True
    with 1 show ?thesis by (cases "i = pos") (simp_all add: skip_while.simps [of p s pos])
  next
    case False
    then have "skip_while p s pos = pos" by (subst skip_while.simps) (rule if_not_P)
    with 1(2,3) show ?thesis by simp
  qed
qed

lemma ident_text:
  assumes "pos < length s" and "is_ascii_alphabetic (s ! pos) \<or> s ! pos = underscore"
  shows "is_identifier (source_text s pos (skip_while ident_byte s pos))"
proof -
  let ?e = "skip_while ident_byte s pos"
  have e: "pos < ?e" "?e \<le> length s" using ident_end_bounds [OF assms] by simp_all
  have all: "c \<in> set (source_text s pos ?e) \<Longrightarrow> ident_byte c" for c
  proof -
    assume "c \<in> set (source_text s pos ?e)"
    then obtain j where "j < ?e - pos" "pos + j < length s" "c = s ! (pos + j)" by (auto simp: in_set_conv_nth)
    then show "ident_byte c" using skip_while_all [of pos "pos + j" ident_byte s] by simp
  qed
  obtain rest where rest: "source_text s pos ?e = s ! pos # rest"
    using source_text_hd [of pos ?e s] e assms(1) by (metis list.exhaust_sel)
  then have "list_all (\<lambda>ch. is_ascii_alphanumeric ch \<or> ch = underscore) rest"
    using all by (auto simp: list_all_iff ident_byte_def)
  with assms(2) show ?thesis by (simp add: is_identifier_def rest)
qed

section \<open>Progress\<close>

lemma newline_slash: "CHR ''/'' \<noteq> newline"
  by code_simp

lemma lex_step_progress:
  assumes "pos < length s" and "lex_step f s pos = Ok (kind, p)"
  shows "pos < p \<and> p \<le> length s"
proof -
  have lineC: "pos < skip_line_comment s pos \<and> skip_line_comment s pos \<le> length s" if "s ! pos = CHR ''/''"
    using assms(1) that skip_while_first [of pos s "\<lambda>c. c \<noteq> newline"] skip_while_le [of pos s "\<lambda>c. c \<noteq> newline"]
    using newline_slash by (simp add: skip_line_comment_def)
  have blockC: "skip_block_comment s pos = Ok q \<Longrightarrow> pos < q \<and> q \<le> length s" for q
    using block_comment_bounds [of s pos 1 "pos + 2" q] by (auto simp: skip_block_comment_def)
  have strC: "string_loop f s pos (pos + 1) = Ok (t, q) \<Longrightarrow> pos < q \<and> q \<le> length s" for t q
    using string_loop_bounds [of f s pos "pos + 1" t q] by simp
  have numC: "lex_number s pos = Ok (raw, q) \<Longrightarrow> is_ascii_digit (s ! pos) \<Longrightarrow> pos < q \<and> q \<le> length s" for raw q
    using number_end_bounds [OF assms(1)] by (auto simp: lex_number_def Let_def and_then_Ok_iff)
  have identC: "lex_ident s pos = Ok (raw, q) \<Longrightarrow> is_ascii_alphabetic (s ! pos) \<or> s ! pos = underscore \<Longrightarrow>
      pos < q \<and> q \<le> length s" for raw q
    using ident_end_bounds [OF assms(1)]
    by (auto simp: lex_ident_def Let_def and_then_Ok_iff split: if_splits option.splits)
  have arrow: "peek_byte s pos 1 = Some c \<Longrightarrow> pos + 2 \<le> length s" for c
    by (simp add: peek_byte_def split: if_splits)
  show ?thesis
    using assms lineC blockC strC numC identC arrow
    by (auto simp: lex_step_def Let_def and_then_Ok_iff split: if_splits)
qed

function lex_run ::
  "(string \<Rightarrow> (string, string) outcome) \<Rightarrow> string \<Rightarrow> nat \<Rightarrow> token list \<Rightarrow> (lex_error, token list) outcome" where
  "lex_run from_json s pos tokens =
     (if pos < length s
      then and_then (lex_step from_json s pos) (\<lambda>(kind, pos').
        lex_run from_json s pos' (case kind of None \<Rightarrow> tokens | Some k \<Rightarrow> push k pos pos' tokens))
      else Ok (push Eof pos pos tokens))"
  by pat_completeness auto
termination
  by (relation "measure (\<lambda>(f, s, pos, tokens). length s - pos)") (auto dest!: lex_step_progress)

declare lex_run.simps [simp del]

definition lex_argent_source :: "(string \<Rightarrow> (string, string) outcome) \<Rightarrow> string \<Rightarrow> (lex_error, token list) outcome" where
  "lex_argent_source from_json s = lex_run from_json s 0 []"

section \<open>No slice splits a character\<close>

lemma boundary_after:
  "utf8_source s \<Longrightarrow> i < length s \<Longrightarrow> code (s ! i) < 128 \<Longrightarrow> char_boundary s (Suc i)"
  by (cases "Suc i = length s") (auto simp: char_boundary_def utf8_source_def)

lemma boundary_at: "i < length s \<Longrightarrow> code (s ! i) < 128 \<Longrightarrow> char_boundary s i"
  by (simp add: char_boundary_def continuation_def)

lemma ascii_classes:
  "is_ascii_digit c \<Longrightarrow> code c < 128" "is_ascii_alphabetic c \<Longrightarrow> code c < 128"
  "number_byte c \<Longrightarrow> code c < 128" "hex_byte c \<Longrightarrow> code c < 128" "ident_byte c \<Longrightarrow> code c < 128"
  "whitespace c \<Longrightarrow> code c < 128" "c \<in> set symbols \<Longrightarrow> code c < 128"
  by (auto simp: number_byte_def hex_byte_def ident_byte_def whitespace_def symbols_def char_classes code_def)

lemma skip_while_boundary:
  assumes "utf8_source s" and "\<And>c. p c \<Longrightarrow> code c < 128" and "char_boundary s pos" and "pos \<le> length s"
  shows "char_boundary s (skip_while p s pos)"
proof (cases "skip_while p s pos = pos")
  case False
  then obtain e where e: "skip_while p s pos = Suc e" "pos \<le> e"
    using skip_while_ge [of pos p s] by (metis le_less_Suc_eq le_less less_imp_Suc_add le_add1 add.commute nat_less_le)
  have "e < length s" using skip_while_le [OF assms(4), of p] e by simp
  moreover have "p (s ! e)" using skip_while_all [of pos e p s] e by simp
  ultimately show ?thesis using boundary_after [OF assms(1)] assms(2) e(1) by simp
qed (simp add: assms(3))


lemma slice_str_Ok:
  "a \<le> b \<Longrightarrow> char_boundary s a \<Longrightarrow> char_boundary s b \<Longrightarrow> slice_str s a b = Ok (source_text s a b)"
  by (simp add: slice_str_def)

lemma slice_str_OkD: "slice_str s a b = Ok t \<Longrightarrow> t = source_text s a b"
  by (simp add: slice_str_def split: if_splits)

lemma skip_while_stop: "skip_while p s pos < length s \<Longrightarrow> \<not> p (s ! skip_while p s pos)"
proof (induction p s pos rule: skip_while.induct)
  case (1 p s pos)
  then show ?case by (cases "pos < length s \<and> p (s ! pos)") (auto simp: skip_while.simps [of p s pos])
qed

lemma newline_code: "code newline = 10" "code quote = 34" "code backslash = 92"
  by (code_simp, code_simp, code_simp)

lemma after_ascii:
  assumes "utf8_source s" and "p \<le> length s" and "0 < p" and "code (s ! (p - 1)) < 128"
  shows "char_boundary s p"
  using boundary_after [OF assms(1), of "p - 1"] assms(2-4) by simp

lemma string_loop_end:
  assumes "string_loop f s start pos = Ok (t, p)" and "utf8_source s"
  shows "char_boundary s p"
proof -
  have "0 < p" "p \<le> length s" "s ! (p - 1) = quote"
    using string_loop_bounds [OF assms(1)] string_loop_text [OF assms(1)] by auto
  then show ?thesis using after_ascii [OF assms(2), of p] newline_code by simp
qed

lemma string_loop_not_panic:
  assumes "utf8_source s" and "\<And>t. f t \<noteq> Panic" and "char_boundary s start"
  shows "start \<le> pos \<Longrightarrow> string_loop f s start pos \<noteq> Panic"
  using assms
proof (induction f s start pos rule: string_loop.induct)
  case (1 f s start pos)
  have "slice_str s start (pos + 1) = (Ok (source_text s start (pos + 1)) :: (lex_error, string) outcome)"
    if "pos < length s" "s ! pos = quote"
    using that 1(3,4,6) boundary_after [of s pos] by (intro slice_str_Ok) (simp_all add: newline_code)
  moreover have "map_err (InvalidString start) (f (source_text s start (pos + 1))) \<noteq> Panic"
    using 1(5) [of "source_text s start (pos + 1)"] by (cases "f (source_text s start (pos + 1))") simp_all
  moreover have "and_then x (\<lambda>t. Ok (t, pos + 1)) \<noteq> Panic" if "x \<noteq> Panic" for x :: "(lex_error, string) outcome"
    using that by (cases x) simp_all
  ultimately show ?case
    using 1 by (subst string_loop.simps) (simp del: map_err.simps)
qed

lemma number_end_boundary:
  assumes "utf8_source s" and "pos < length s" and "is_ascii_digit (s ! pos)"
  shows "char_boundary s (number_end s pos)"
proof (cases "peek_byte s pos 0 = Some (CHR ''0'') \<and> peek_byte s pos 1 \<in> {Some (CHR ''x''), Some (CHR ''X'')}")
  case True
  then have "pos + 1 < length s" "s ! (pos + 1) = CHR ''x'' \<or> s ! (pos + 1) = CHR ''X''"
    by (auto simp: peek_byte_def split: if_splits)
  then have "char_boundary s (pos + 2)" using after_ascii [OF assms(1), of "pos + 2"] by (auto simp: code_def)
  then show ?thesis
    using True skip_while_boundary [OF assms(1), of hex_byte "pos + 2"] \<open>pos + 1 < length s\<close> ascii_classes(4)
    by (simp add: number_end_def)
next
  case False
  let ?p = "skip_while number_byte s pos"
  have p: "char_boundary s ?p" "?p \<le> length s"
    using skip_while_boundary [OF assms(1), of number_byte pos] boundary_at [OF assms(2)] ascii_classes(1,3) assms(2,3)
      skip_while_le [of pos s number_byte] by auto
  have "char_boundary s (skip_while number_byte s (?p + 1))" if "peek_byte s ?p 0 \<in> {Some (CHR ''e''), Some (CHR ''E'')}"
  proof -
    have e: "?p < length s" "s ! ?p = CHR ''e'' \<or> s ! ?p = CHR ''E''" using that by (auto simp: peek_byte_def split: if_splits)
    then have "char_boundary s (?p + 1)" using boundary_after [OF assms(1), of ?p] by (auto simp: code_def)
    with e skip_while_boundary [OF assms(1), of number_byte "?p + 1"] ascii_classes(3) show ?thesis by simp
  qed
  with False p show ?thesis by (auto simp: number_end_def Let_def)
qed

section \<open>The text of a number\<close>

lemma source_text_all:
  assumes "\<And>i. a \<le> i \<Longrightarrow> i < b \<Longrightarrow> p (s ! i)"
  shows "list_all p (source_text s a b)"
  using assms by (auto simp: list_all_length)

lemma source_text_split:
  assumes "a \<le> b" and "b \<le> c" and "c \<le> length s"
  shows "source_text s a c = source_text s a b @ source_text s b c"
proof -
  have "c - a = (b - a) + (c - b)" using assms(1,2) by simp
  then show ?thesis using assms(1) by (simp only: take_add drop_drop) simp
qed

lemma number_byte_no_mark: "number_byte c \<Longrightarrow> \<not> exponent_mark c"
  by (auto simp: number_byte_def exponent_mark_def char_classes code_def)

lemma split_exponent_plain: "list_all number_byte base \<Longrightarrow> split_exponent base = (base, None)"
  by (simp add: split_exponent_def takeWhile_eq_all_conv list_all_iff number_byte_no_mark dropWhile_eq_Nil_conv [THEN iffD2])

lemma split_exponent_mark:
  assumes "list_all number_byte base" and "exponent_mark c"
  shows "split_exponent (base @ c # digits) = (base, Some digits)"
proof -
  have "\<And>x. x \<in> set base \<Longrightarrow> \<not> exponent_mark x" using assms(1) by (simp add: list_all_iff number_byte_no_mark)
  then show ?thesis using assms(2) by (simp add: split_exponent_def takeWhile_append2 dropWhile_append2)
qed

lemma number_text:
  assumes "pos < length s" and "is_ascii_digit (s ! pos)"
  shows "number_token (source_text s pos (number_end s pos))"
proof (cases "peek_byte s pos 0 = Some (CHR ''0'') \<and> peek_byte s pos 1 \<in> {Some (CHR ''x''), Some (CHR ''X'')}")
  case True
  let ?e = "skip_while hex_byte s (pos + 2)"
  have two: "Suc pos < length s" "s ! pos = CHR ''0''" "s ! Suc pos \<in> {CHR ''x'', CHR ''X''}"
    using True by (auto simp: peek_byte_def split: if_splits)
  have e: "pos + 2 \<le> ?e" "?e \<le> length s"
    using skip_while_ge [of "pos + 2" hex_byte s] skip_while_le [of "pos + 2" s hex_byte] two(1) by simp_all
  have "source_text s pos ?e = s ! pos # s ! Suc pos # source_text s (pos + 2) ?e"
    using source_text_split [of pos "pos + 2" ?e s] source_text_two [OF two(1)] e by simp
  moreover have "list_all hex_byte (source_text s (pos + 2) ?e)"
    by (rule source_text_all) (rule skip_while_all)
  moreover have "number_end s pos = ?e" using True by (simp add: number_end_def)
  ultimately show ?thesis using two(2,3) by (auto simp: number_token_def hex_literal_def starts_with_def)
next
  case False
  let ?p = "skip_while number_byte s pos"
  let ?base = "source_text s pos ?p"
  have p: "pos < ?p" "?p \<le> length s"
    using assms skip_while_first [of pos s number_byte] skip_while_le [of pos s number_byte] by (simp_all add: number_byte_def)
  have base: "list_all number_byte ?base" by (rule source_text_all) (rule skip_while_all)
  have hd: "?base \<noteq> []" "hd ?base = s ! pos" using source_text_hd [OF p(1) assms(1)] by simp_all
  have not_hex: "\<not> hex_literal (source_text s pos e)" if "pos < e" for e
  proof
    assume hex: "hex_literal (source_text s pos e)"
    then have "2 \<le> length (source_text s pos e)" by (auto simp: hex_literal_def starts_with_def dest!: arg_cong [of _ _ length])
    then have "Suc pos < length s" "Suc pos < e" by auto
    then have "take 2 (source_text s pos e) = [s ! pos, s ! Suc pos]"
      using source_text_two [of pos s] by (simp add: min_def)
    moreover have "take 2 (source_text s pos e) \<in> {''0x'', ''0X''}"
      using hex by (auto simp: hex_literal_def starts_with_def numeral_2_eq_2)
    ultimately have "s ! pos = CHR ''0''" "s ! Suc pos \<in> {CHR ''x'', CHR ''X''}" by auto
    with False \<open>Suc pos < length s\<close> show False by (auto simp: peek_byte_def)
  qed
  show ?thesis
  proof (cases "peek_byte s ?p 0 \<in> {Some (CHR ''e''), Some (CHR ''E'')}")
    case True
    let ?e = "skip_while number_byte s (?p + 1)"
    have mark: "?p < length s" "exponent_mark (s ! ?p)" using True by (auto simp: peek_byte_def exponent_mark_def split: if_splits)
    have e: "?p + 1 \<le> ?e" "?e \<le> length s"
      using mark(1) skip_while_ge [of "?p + 1" number_byte s] skip_while_le [of "?p + 1" s number_byte] by simp_all
    have "source_text s pos ?e = ?base @ s ! ?p # source_text s (?p + 1) ?e"
      using source_text_split [of pos ?p ?e s] source_text_split [of ?p "?p + 1" ?e s] source_text_one [OF mark(1)] e p by simp
    moreover have "list_all number_byte (source_text s (?p + 1) ?e)" by (rule source_text_all) (rule skip_while_all)
    moreover have "number_end s pos = ?e" unfolding number_end_def Let_def if_not_P [OF False] if_P [OF True] ..
    ultimately show ?thesis
      using not_hex [of ?e] e(1) p(1) base hd assms(2) mark(2) by (simp add: number_token_def split_exponent_mark)
  next
    case no_mark: False
    have "number_end s pos = ?p" unfolding number_end_def Let_def if_not_P [OF False] if_not_P [OF no_mark] ..
    then show ?thesis
      using not_hex [OF p(1)] base hd assms(2) by (simp add: number_token_def split_exponent_plain)
  qed
qed

section \<open>One token\<close>

lemma lex_step_boundary:
  assumes "utf8_source s" and "pos < length s" and "char_boundary s pos" and "lex_step f s pos = Ok (kind, p)"
  shows "char_boundary s p"
proof -
  have one: "char_boundary s (pos + 1)" if "code (s ! pos) < 128" using boundary_after [OF assms(1,2) that] by simp
  have line: "char_boundary s (skip_line_comment s pos)"
  proof (cases "skip_line_comment s pos < length s")
    case True
    then have "s ! skip_line_comment s pos = newline"
      using skip_while_stop [of "\<lambda>c. c \<noteq> newline" s pos] by (simp add: skip_line_comment_def)
    with True show ?thesis by (intro boundary_at) (simp_all add: newline_code)
  next
    case False
    then have "skip_line_comment s pos = length s"
      using skip_while_le [of pos s "\<lambda>c. c \<noteq> newline"] assms(2) by (simp add: skip_line_comment_def)
    then show ?thesis by (simp add: char_boundary_def)
  qed
  have block: "char_boundary s q" if "skip_block_comment s pos = Ok q" for q
    using block_comment_bounds [of s pos 1 "pos + 2" q] that after_ascii [OF assms(1), of q]
    by (auto simp: skip_block_comment_def code_def)
  have str: "char_boundary s q" if "string_loop f s pos (pos + 1) = Ok (t, q)" for t q
    using string_loop_end [OF that assms(1)] .
  have num: "char_boundary s q" if "lex_number s pos = Ok (raw, q)" "is_ascii_digit (s ! pos)" for raw q
    using that number_end_boundary [OF assms(1,2)] by (auto simp: lex_number_def Let_def and_then_Ok_iff)
  have ident: "char_boundary s q" if "lex_ident s pos = Ok (raw, q)" for raw q
    using that skip_while_boundary [OF assms(1) ascii_classes(5), where pos = pos] assms(2,3)
    by (auto simp: lex_ident_def Let_def and_then_Ok_iff split: if_splits option.splits)
  have arrow: "char_boundary s (pos + 2)" if "peek_byte s pos 1 = Some (CHR ''>'')"
    using that after_ascii [OF assms(1), of "pos + 2"] by (auto simp: peek_byte_def code_def split: if_splits)
  show ?thesis
    using assms(4) one line block str num ident arrow ascii_classes(6,7)
    by (auto simp: lex_step_def Let_def and_then_Ok_iff split: if_splits)
qed

lemma lex_step_not_panic:
  assumes "utf8_source s" and "pos < length s" and "char_boundary s pos" and "\<And>t. f t \<noteq> Panic"
  shows "lex_step f s pos \<noteq> Panic"
proof -
  have str: "string_loop f s pos (pos + 1) \<noteq> Panic"
    using string_loop_not_panic [OF assms(1,4,3), of "pos + 1"] by simp
  have num: "lex_number s pos \<noteq> Panic" if "is_ascii_digit (s ! pos)"
    using number_end_bounds [OF assms(2) that] number_end_boundary [OF assms(1,2) that] assms(3)
    by (simp add: lex_number_def Let_def slice_str_Ok)
  have ident: "lex_ident s pos \<noteq> Panic"
    using skip_while_boundary [OF assms(1) ascii_classes(5), where pos = pos] assms(2,3) skip_while_ge [of pos ident_byte s]
    by (auto simp: lex_ident_def Let_def slice_str_Ok split: option.splits)
  have rest: "slice_str s pos (length s) = (Ok (source_text s pos (length s)) :: (lex_error, string) outcome)"
    using assms(2,3) by (intro slice_str_Ok) (simp_all add: char_boundary_def)
  show ?thesis
    using str num ident rest
    by (auto simp: lex_step_def Let_def and_then_Panic_iff skip_block_comment_def block_comment_not_panic split: if_splits)
qed

lemma reserved_free:
  "find (\<lambda>pre. starts_with pre ident) [reserved_generated_prefix, reserved_generated_type_prefix] = None \<longleftrightarrow>
     \<not> starts_with reserved_generated_prefix ident \<and> \<not> starts_with reserved_generated_type_prefix ident"
  by (simp add: find_None_iff)

lemma lex_step_token:
  assumes "pos < length s" and "lex_step f s pos = Ok (Some kind, p)"
  shows "token_matches f kind (source_text s pos p)"
proof -
  have str: "f (source_text s pos q) = Ok t" if "string_loop f s pos (pos + 1) = Ok (t, q)" for t q
    using string_loop_text [OF that] by (auto dest: slice_str_OkD)
  have num: "token_matches f (Number raw) (source_text s pos q)"
    if "lex_number s pos = Ok (raw, q)" "is_ascii_digit (s ! pos)" for raw q
    using that number_text [OF assms(1) that(2)]
    by (auto simp: lex_number_def Let_def and_then_Ok_iff token_matches_def dest!: slice_str_OkD)
  have ident: "token_matches f (Ident raw) (source_text s pos q)"
    if "lex_ident s pos = Ok (raw, q)" "is_ascii_alphabetic (s ! pos) \<or> s ! pos = underscore" for raw q
    using that(1) ident_text [OF assms(1) that(2)] reserved_free [of "source_text s pos (skip_while ident_byte s pos)"]
    by (auto simp: lex_ident_def Let_def and_then_Ok_iff token_matches_def dest!: slice_str_OkD
        simp del: find.simps split: if_splits option.splits)
  have arrow: "source_text s pos (pos + 2) = ''->''" if "s ! pos = CHR ''-''" "peek_byte s pos 1 = Some (CHR ''>'')"
    using that source_text_two [of pos s] by (auto simp: peek_byte_def split: if_splits)
  have sym: "source_text s pos (pos + 1) = [s ! pos]" using source_text_one [OF assms(1)] by simp
  show ?thesis
    using assms(2) str num ident arrow sym
    by (auto simp: lex_step_def Let_def and_then_Ok_iff token_matches_def split: if_splits simp del: diff_add_inverse add_2_eq_Suc')
qed

section \<open>The token stream\<close>

text \<open>Each token lies after the one before it, inside the source, and is the text it stands for.\<close>

definition token_ok :: "(string \<Rightarrow> (string, string) outcome) \<Rightarrow> string \<Rightarrow> token \<Rightarrow> bool" where
  "token_ok f s t \<longleftrightarrow> sn_start (tk_span t) < sn_end (tk_span t) \<and> sn_end (tk_span t) \<le> length s
     \<and> token_matches f (tk_kind t) (source_text s (sn_start (tk_span t)) (sn_end (tk_span t)))"

definition token_before :: "token \<Rightarrow> token \<Rightarrow> bool" where
  "token_before t u \<longleftrightarrow> sn_end (tk_span t) \<le> sn_start (tk_span u)"

definition stream_ok :: "(string \<Rightarrow> (string, string) outcome) \<Rightarrow> string \<Rightarrow> nat \<Rightarrow> token list \<Rightarrow> bool" where
  "stream_ok f s pos ts \<longleftrightarrow> (\<forall>t \<in> set ts. token_ok f s t \<and> pos \<le> sn_start (tk_span t)) \<and> sorted_wrt token_before ts"

lemma stream_ok_skip: "stream_ok f s q ts \<Longrightarrow> pos \<le> q \<Longrightarrow> stream_ok f s pos ts"
  by (force simp: stream_ok_def)

lemma stream_ok_push:
  assumes "stream_ok f s p ts" and "pos < p" and "p \<le> length s" and "token_matches f k (source_text s pos p)"
  shows "stream_ok f s pos (push k pos p [] @ ts)"
  using assms by (force simp: stream_ok_def push_def token_ok_def token_before_def)

abbreviation eof_token :: "string \<Rightarrow> token" where
  "eof_token s \<equiv> \<lparr>tk_kind = Eof, tk_span = \<lparr>sn_start = length s, sn_end = length s\<rparr>\<rparr>"

lemma lex_run_stream:
  assumes "pos \<le> length s" and "lex_run f s pos tokens = Ok out"
  shows "\<exists>ts. out = tokens @ ts @ [eof_token s] \<and> stream_ok f s pos ts"
  using assms
proof (induction f s pos tokens rule: lex_run.induct)
  case (1 f s pos tokens)
  show ?case
  proof (cases "pos < length s")
    case True
    with 1(3) obtain kind p where step: "lex_step f s pos = Ok (kind, p)"
      and run: "lex_run f s p (case kind of None \<Rightarrow> tokens | Some k \<Rightarrow> push k pos p tokens) = Ok out"
      by (subst (asm) lex_run.simps) (auto simp: and_then_Ok_iff)
    have p: "pos < p" "p \<le> length s" using lex_step_progress [OF True step] by simp_all
    obtain ts where ts: "out = (case kind of None \<Rightarrow> tokens | Some k \<Rightarrow> push k pos p tokens) @ ts @ [eof_token s]"
      and ok: "stream_ok f s p ts"
      using 1(1) [OF True step _ p(2) run] by blast
    show ?thesis
    proof (cases kind)
      case None
      with ts ok stream_ok_skip [OF ok, of pos] p show ?thesis by auto
    next
      case (Some k)
      then have "stream_ok f s pos (push k pos p [] @ ts)"
        using stream_ok_push [OF ok p] lex_step_token [OF True] step by simp
      with Some ts show ?thesis by (intro exI [of _ "push k pos p [] @ ts"]) (simp add: push_def)
    qed
  next
    case False
    with 1(2,3) have "out = tokens @ [] @ [eof_token s]" by (subst (asm) lex_run.simps) (simp add: push_def)
    then show ?thesis by (intro exI [of _ "[]"]) (simp add: stream_ok_def)
  qed
qed

lemma lex_run_not_panic:
  assumes "utf8_source s" and "\<And>t. f t \<noteq> Panic" and "char_boundary s pos"
  shows "lex_run f s pos tokens \<noteq> Panic"
  using assms
proof (induction f s pos tokens rule: lex_run.induct)
  case (1 f s pos tokens)
  show ?case
  proof (cases "pos < length s")
    case True
    note np = lex_step_not_panic [OF 1(2) True 1(4) 1(3)]
    have "lex_run f s p ts \<noteq> Panic" if "lex_step f s pos = Ok (kind, p)"
      "ts = (case kind of None \<Rightarrow> tokens | Some k \<Rightarrow> push k pos p tokens)" for kind p ts
      using 1(1) [OF True that(1)] lex_step_boundary [OF 1(2) True 1(4) that(1)] that(2) 1(2,3) by auto
    with np True show ?thesis by (subst lex_run.simps) (auto simp: and_then_Panic_iff)
  next
    case False
    then show ?thesis by (subst lex_run.simps) simp
  qed
qed

text \<open>
  C38: Lexing a UTF-8 source never panics: no slice of the source splits a character. When it
  succeeds, the tokens are in the order of the source, do not overlap, each is exactly the
  text it stands for (an identifier is a well-formed word outside the reserved names and
  prefixes, a number starts with a digit, a string literal decodes to its value), and one
  end-of-file token at the end of the source closes the stream.
\<close>

theorem lex_stream_faithful:
  assumes "utf8_source s" and "\<And>t. from_json t \<noteq> Panic"
  shows "lex_argent_source from_json s \<noteq> Panic
    \<and> (\<forall>tokens. lex_argent_source from_json s = Ok tokens \<longrightarrow>
      (\<exists>ts. tokens = ts @ [eof_token s] \<and> sorted_wrt token_before ts \<and> (\<forall>t \<in> set ts. token_ok from_json s t)))"
proof (intro conjI allI impI)
  show "lex_argent_source from_json s \<noteq> Panic"
    using lex_run_not_panic [OF assms, where pos = 0 and tokens = "[]"] by (simp add: lex_argent_source_def char_boundary_def)
next
  fix tokens
  assume "lex_argent_source from_json s = Ok tokens"
  then obtain ts where "tokens = [] @ ts @ [eof_token s]" "stream_ok from_json s 0 ts"
    using lex_run_stream [of 0 s from_json "[]" tokens] by (auto simp: lex_argent_source_def)
  then show "\<exists>ts. tokens = ts @ [eof_token s] \<and> sorted_wrt token_before ts \<and> (\<forall>t \<in> set ts. token_ok from_json s t)"
    by (auto simp: stream_ok_def)
qed

definition demo_source :: string where
  "demo_source = ''fee // x'' @ [newline] @ ''->0x1F''"

lemma demo_source_utf8: "utf8_source demo_source"
proof -
  have "list_all (\<lambda>c. \<not> continuation c) demo_source" by code_simp
  then show ?thesis by (auto simp: utf8_source_def list_all_length)
qed

lemma lex_stream_faithful_witness:
  "lex_argent_source Ok demo_source \<noteq> Panic
    \<and> (\<exists>tokens ts. lex_argent_source Ok demo_source = Ok tokens \<and> tokens = ts @ [eof_token demo_source]
        \<and> map tk_kind ts = [Ident ''fee'', Arrow, Number ''0x1F''] \<and> (\<forall>t \<in> set ts. token_ok Ok demo_source t))"
proof -
  have "lex_argent_source Ok demo_source = Ok
    (map (\<lambda>(k, a, b). \<lparr>tk_kind = k, tk_span = \<lparr>sn_start = a, sn_end = b\<rparr>\<rparr>)
      [(Ident ''fee'', 0, 3), (Arrow, 9, 11), (Number ''0x1F'', 11, 15), (Eof, 15, 15)])"
    by code_simp
  moreover note lex_stream_faithful [OF demo_source_utf8, of Ok]
  ultimately show ?thesis by auto
qed

section \<open>The value of a number\<close>

text \<open>
  \<^verbatim>\<open>from_str_radix\<close> and \<^verbatim>\<open>parse\<close> of the integer types: an optional sign (a minus only for a
  signed type), at least one digit, and a value in the range of the type.
\<close>

definition digit_value :: "char \<Rightarrow> int" where
  "digit_value c = (if is_ascii_digit c then int (code c) - 48
     else if 97 \<le> code c \<and> code c \<le> 122 then int (code c) - 87
     else if 65 \<le> code c \<and> code c \<le> 90 then int (code c) - 55 else 36)"

definition radix_value :: "int \<Rightarrow> string \<Rightarrow> int" where
  "radix_value radix ds = fold (\<lambda>c v. v * radix + digit_value c) ds 0"

definition digits_parse :: "int \<Rightarrow> string \<Rightarrow> int option" where
  "digits_parse radix ds =
     (if ds \<noteq> [] \<and> list_all (\<lambda>c. digit_value c < radix) ds then Some (radix_value radix ds) else None)"

definition parse_int :: "int \<Rightarrow> int \<Rightarrow> int \<Rightarrow> string \<Rightarrow> int option" where
  "parse_int lo hi radix t =
     (case (case t of [] \<Rightarrow> None
              | c # ds \<Rightarrow> if c = CHR ''+'' then digits_parse radix ds
                  else if c = CHR ''-'' \<and> lo < 0 then map_option uminus (digits_parse radix ds)
                  else digits_parse radix t) of
        None \<Rightarrow> None | Some v \<Rightarrow> if lo \<le> v \<and> v \<le> hi then Some v else None)"

definition i64_radix :: "int \<Rightarrow> string \<Rightarrow> int option" where
  "i64_radix = parse_int (- (2 ^ 63)) (2 ^ 63 - 1)"

definition parse_i128 :: "string \<Rightarrow> int option" where
  "parse_i128 = parse_int (- (2 ^ 127)) (2 ^ 127 - 1) 10"

definition parse_u32 :: "string \<Rightarrow> int option" where
  "parse_u32 = parse_int 0 (2 ^ 32 - 1) 10"

definition checked_i128 :: "int \<Rightarrow> int option" where
  "checked_i128 v = (if - (2 ^ 127) \<le> v \<and> v < 2 ^ 127 then Some v else None)"

definition try_i64 :: "int \<Rightarrow> int option" where
  "try_i64 v = (if - (2 ^ 63) \<le> v \<and> v < 2 ^ 63 then Some v else None)"

definition parse_number_value :: "string \<Rightarrow> int option" where
  "parse_number_value raw =
     (if starts_with ''0x'' raw then i64_radix 16 (drop 2 raw)
      else if starts_with ''0X'' raw then i64_radix 16 (drop 2 raw)
      else case split_exponent raw of (base, exponent) \<Rightarrow>
        Option.bind (parse_i128 (filter (\<lambda>c. c \<noteq> underscore) base)) (\<lambda>v.
        Option.bind
          (case exponent of None \<Rightarrow> Some v
           | Some ds \<Rightarrow> Option.bind (parse_u32 (filter (\<lambda>c. c \<noteq> underscore) ds)) (\<lambda>e.
               Option.bind (checked_i128 (10 ^ nat e)) (\<lambda>m. checked_i128 (v * m))))
          try_i64))"

text \<open>The value a number token denotes, with no bound: a mantissa and a decimal exponent.\<close>

definition literal_value :: "string \<Rightarrow> (int \<times> nat) option" where
  "literal_value raw =
     (if hex_literal raw then (if drop 2 raw = [] then None else Some (radix_value 16 (drop 2 raw), 0))
      else case split_exponent raw of (base, exponent) \<Rightarrow>
        let m = radix_value 10 (filter (\<lambda>c. c \<noteq> underscore) base) in
        case exponent of None \<Rightarrow> Some (m, 0)
        | Some ds \<Rightarrow> let digits = filter (\<lambda>c. c \<noteq> underscore) ds in
            if digits = [] then None else Some (m, nat (radix_value 10 digits)))"

lemma radix_value_nonneg:
  assumes "0 \<le> radix" and "list_all (\<lambda>c. 0 \<le> digit_value c) ds"
  shows "0 \<le> radix_value radix ds"
proof -
  have "0 \<le> v \<Longrightarrow> 0 \<le> fold (\<lambda>c v. v * radix + digit_value c) ds v" for v
    using assms(2) by (induction ds arbitrary: v) (simp_all add: assms(1))
  then show ?thesis by (simp add: radix_value_def)
qed

lemma digit_classes:
  "is_ascii_digit c \<Longrightarrow> 0 \<le> digit_value c \<and> digit_value c < 10"
  "hex_byte c \<Longrightarrow> 0 \<le> digit_value c \<and> digit_value c < 16"
  "hex_byte c \<Longrightarrow> c \<noteq> CHR ''+'' \<and> c \<noteq> CHR ''-''"
  by (auto simp: digit_value_def hex_byte_def char_classes code_def)

lemma parse_digits:
  assumes "list_all p ds" and "\<And>c. p c \<Longrightarrow> 0 \<le> digit_value c \<and> digit_value c < radix"
    and "\<And>c. p c \<Longrightarrow> c \<noteq> CHR ''+'' \<and> c \<noteq> CHR ''-''" and "lo \<le> 0" and "0 \<le> radix"
  shows "parse_int lo hi radix ds =
    (if ds = [] then None else if radix_value radix ds \<le> hi then Some (radix_value radix ds) else None)"
proof (cases ds)
  case (Cons c cs)
  have "list_all (\<lambda>c. digit_value c < radix) ds" "list_all (\<lambda>c. 0 \<le> digit_value c) ds"
    using assms(1,2) by (auto simp: list_all_iff)
  then have "digits_parse radix ds = Some (radix_value radix ds)" "0 \<le> radix_value radix ds"
    using Cons radix_value_nonneg [OF assms(5)] by (simp_all add: digits_parse_def)
  moreover have "c \<noteq> CHR ''+''" "c \<noteq> CHR ''-''" using Cons assms(1,3) by auto
  ultimately show ?thesis using Cons assms(4) by (simp add: parse_int_def)
qed (simp add: parse_int_def)

lemma hex_digits_parse:
  "list_all hex_byte ds \<Longrightarrow> i64_radix 16 ds =
     (if ds = [] then None else if radix_value 16 ds < 2 ^ 63 then Some (radix_value 16 ds) else None)"
  unfolding i64_radix_def by (subst parse_digits [where p = hex_byte]) (auto dest: digit_classes)

lemma underscores_dropped: "list_all number_byte ds \<Longrightarrow> list_all is_ascii_digit (filter (\<lambda>c. c \<noteq> underscore) ds)"
  by (auto simp: list_all_iff number_byte_def)

lemma hex_digit: "is_ascii_digit c \<Longrightarrow> hex_byte c"
  by (simp add: hex_byte_def)

lemma below_i128: "(a :: int) \<le> b \<Longrightarrow> b < 2 ^ 63 \<Longrightarrow> a < 2 ^ 127 \<and> b < 2 ^ 127"
  by simp

lemma decimal_parse:
  assumes "list_all is_ascii_digit ds" and "lo \<le> 0"
  shows "parse_int lo hi 10 ds = (if ds = [] then None else if radix_value 10 ds \<le> hi then Some (radix_value 10 ds) else None)"
  using assms by (intro parse_digits [where p = is_ascii_digit]) (simp_all add: digit_classes hex_digit)

lemma decimal_nonneg: "list_all is_ascii_digit ds \<Longrightarrow> 0 \<le> radix_value 10 ds"
  by (rule radix_value_nonneg) (auto simp: list_all_iff dest: digit_classes)

lemma exponent_small: "(10 :: int) ^ e < 2 ^ 127 \<Longrightarrow> e < 2 ^ 32"
proof -
  assume "(10 :: int) ^ e < 2 ^ 127"
  moreover have "(2 :: int) ^ e \<le> 10 ^ e" by (rule power_mono) simp_all
  ultimately have "(2 :: int) ^ e < 2 ^ 127" by linarith
  then have "e < 127" by (rule power_less_imp_less_exp [rotated]) simp
  then show "e < 2 ^ 32" by simp
qed

lemma number_checks:
  fixes m x :: int
  assumes "0 \<le> m" and "(10 :: int) ^ nat x < 2 ^ 127 \<Longrightarrow> x < 2 ^ 32"
  shows "Option.bind (if m < 2 ^ 127 then Some m else None) (\<lambda>v.
      Option.bind (Option.bind (if x < 2 ^ 32 then Some x else None) (\<lambda>e.
        Option.bind (checked_i128 (10 ^ nat e)) (\<lambda>q. checked_i128 (v * q)))) try_i64)
    = (if 10 ^ nat x < (2 ^ 127 :: int) \<and> m * 10 ^ nat x < 2 ^ 63 then Some (m * 10 ^ nat x) else None)"
proof -
  define p where "p = (10 :: int) ^ nat x"
  have "0 < p" by (simp add: p_def)
  then have "m \<le> m * p" "0 \<le> m * p" using assms(1) mult_left_mono [of 1 p m] by simp_all
  then have "m * p < 2 ^ 63 \<Longrightarrow> m < 2 ^ 127 \<and> m * p < 2 ^ 127" by (intro below_i128)
  with assms(2) \<open>0 < p\<close> \<open>0 \<le> m * p\<close> show ?thesis
    unfolding p_def [symmetric] by (simp add: checked_i128_def try_i64_def p_def [symmetric])
qed

text \<open>
  C39: Reading a number token gives exactly the number it denotes when that number is a 64-bit
  signed integer and its power of ten is a 128-bit one, and nothing otherwise: no wider
  intermediate value is lost and none wraps. The literal is then never negative. (A zero
  mantissa with an exponent above 38 is the one literal with a small value that is refused.)
\<close>

theorem number_value_exact:
  assumes "number_token raw"
  shows "parse_number_value raw = (case literal_value raw of None \<Rightarrow> None
    | Some (m, e) \<Rightarrow> if 10 ^ e < (2 ^ 127 :: int) \<and> m * 10 ^ e < 2 ^ 63 then Some (m * 10 ^ e) else None)"
proof (cases "hex_literal raw")
  case True
  then have "list_all hex_byte (drop 2 raw)" using assms by (simp add: number_token_def)
  moreover have "parse_number_value raw = i64_radix 16 (drop 2 raw)"
    using True by (auto simp: parse_number_value_def hex_literal_def)
  ultimately show ?thesis using True by (simp add: literal_value_def hex_digits_parse)
next
  case False
  obtain base exponent where split: "split_exponent raw = (base, exponent)" by (cases "split_exponent raw")
  let ?digits = "filter (\<lambda>c. c \<noteq> underscore)"
  let ?m = "radix_value 10 (?digits base)"
  have shape: "base \<noteq> []" "is_ascii_digit (hd base)" "list_all number_byte base"
    "\<And>ds. exponent = Some ds \<Longrightarrow> list_all number_byte ds"
    using assms False split by (auto simp: number_token_def)
  note base = underscores_dropped [OF shape(3)]
  have "hd base \<noteq> underscore" using shape(2) by (auto simp: char_classes code_def)
  then have nonempty: "?digits base \<noteq> []" using shape(1) by (cases base) simp_all
  have m: "parse_i128 (?digits base) = (if ?m < 2 ^ 127 then Some ?m else None)" "0 \<le> ?m"
    using decimal_parse [OF base, of "- (2 ^ 127)" "2 ^ 127 - 1"] nonempty decimal_nonneg [OF base]
    by (auto simp: parse_i128_def)
  have not_hex: "\<not> starts_with ''0x'' raw" "\<not> starts_with ''0X'' raw" using False by (simp_all add: hex_literal_def)
  show ?thesis
  proof (cases exponent)
    case None
    then show ?thesis
      using split not_hex m by (auto simp: parse_number_value_def literal_value_def hex_literal_def try_i64_def)
  next
    case (Some ds)
    let ?x = "radix_value 10 (?digits ds)"
    note exp = underscores_dropped [OF shape(4) [OF Some]]
    have x: "parse_u32 (?digits ds) = (if ?digits ds = [] then None else if ?x < 2 ^ 32 then Some ?x else None)" "0 \<le> ?x"
      using decimal_parse [OF exp, of 0 "2 ^ 32 - 1"] decimal_nonneg [OF exp] by (auto simp: parse_u32_def)
    let ?p = "(10 :: int) ^ nat ?x"
    have small: "?p < 2 ^ 127 \<Longrightarrow> ?x < 2 ^ 32" using exponent_small [of "nat ?x"] x(2) by (simp add: nat_less_iff)
    show ?thesis
    proof (cases "?digits ds = []")
      case True
      then show ?thesis
        using Some split not_hex m(1) x(1)
        by (simp add: parse_number_value_def literal_value_def hex_literal_def)
    next
      case False
      then have "parse_number_value raw = Option.bind (if ?m < 2 ^ 127 then Some ?m else None) (\<lambda>v.
          Option.bind (Option.bind (if ?x < 2 ^ 32 then Some ?x else None) (\<lambda>e.
            Option.bind (checked_i128 (10 ^ nat e)) (\<lambda>q. checked_i128 (v * q)))) try_i64)"
        using not_hex x(1) by (simp add: parse_number_value_def split Some m(1))
      moreover have "literal_value raw = Some (?m, nat ?x)"
        using Some split not_hex False by (simp add: literal_value_def hex_literal_def Let_def)
      ultimately show ?thesis using number_checks [OF m(2) small] by simp
    qed
  qed
qed

lemma number_value_exact_witness:
  "number_token ''1_2e3'' \<and> parse_number_value ''1_2e3'' = Some 12000"
proof -
  have "number_token ''1_2e3''" by code_simp
  moreover have "literal_value ''1_2e3'' = Some (12, 3)" by code_simp
  ultimately show ?thesis using number_value_exact [of "''1_2e3''"] by simp
qed

lemma zero_with_exponent: "number_token ''0e39'' \<and> literal_value ''0e39'' = Some (0, 39) \<and> parse_number_value ''0e39'' = None"
  by code_simp

end
