(* ===== verification/Syntax_Model.thy ===== *)
theory Syntax_Model
  imports Naming
begin

text \<open>
  The declarations of an Argent module as the parser leaves them
  (\<^verbatim>\<open>src/compiler/syntax/mod.rs\<close> and \<^verbatim>\<open>syntax/body/mod.rs\<close>), the identities the resolver
  gives them (\<^verbatim>\<open>syntax/node.rs\<close>), and paths. A \<^verbatim>\<open>Path\<close> is the list of its components,
  which is how Rust compares and orders paths. Expressions and statements are not held here.
\<close>

section \<open>Paths\<close>

datatype path_component = RootDir | CurDir | ParentDir | Normal string

type_synonym path = "path_component list"

fun component_key :: "path_component \<Rightarrow> nat \<times> string" where
  "component_key RootDir = (1, [])"
| "component_key CurDir = (2, [])"
| "component_key ParentDir = (3, [])"
| "component_key (Normal name) = (4, name)"

lemma component_key_inject: "component_key a = component_key b \<longleftrightarrow> a = b"
  by (cases a; cases b) auto

instantiation path_component :: linorder
begin

definition less_eq_path_component :: "path_component \<Rightarrow> path_component \<Rightarrow> bool" where
  "a \<le> b \<longleftrightarrow> component_key a \<le> component_key b"

definition less_path_component :: "path_component \<Rightarrow> path_component \<Rightarrow> bool" where
  "a < b \<longleftrightarrow> component_key a < component_key b"

instance
  by standard (auto simp: less_eq_path_component_def less_path_component_def component_key_inject [symmetric])

end

section \<open>Types\<close>

datatype array_dim = Dynamic | Fixed nat

record type_ref =
  tr_name :: string
  tr_array :: "array_dim option"
  tr_actor_state :: "string option"

definition actor_type_word :: string where
  "actor_type_word = ''actor_type''"

definition is_actor_type :: "type_ref \<Rightarrow> bool" where
  "is_actor_type ty \<longleftrightarrow> tr_name ty = actor_type_word \<and> tr_array ty = None \<and> tr_actor_state ty \<noteq> None"

definition is_builtin :: "type_ref \<Rightarrow> bool" where
  "is_builtin ty \<longleftrightarrow>
     tr_name ty \<in> {''int'', ''temporal'', ''bool'', ''byte'', ''bytes'', ''string'', ''pubkey'', ''sig'', ''datasig'',
       ''State'', ''cov_id''}
     \<or> is_actor_type ty"

section \<open>Declarations\<close>

record import_decl =
  im_path :: string
  im_alias :: "string option"

record const_decl =
  cn_ty :: type_ref
  cn_name :: string

record field_decl =
  fd_ty :: type_ref
  fd_name :: string
  fd_virtual_slot :: bool

record state_digest_expansion_decl =
  dg_field :: string
  dg_state :: string

record state_expansion_decl =
  ex_base :: string
  ex_digests :: "state_digest_expansion_decl list"

record state_decl =
  st_name :: string
  st_fields :: "field_decl list"
  st_expansion :: "state_expansion_decl option"

record param_decl =
  pm_name :: string
  pm_ty :: type_ref

record function_decl =
  fn_name :: string
  fn_params :: "param_decl list"
  fn_return_ty :: "type_ref option"

datatype cardinality_bound = Literal int | ConstBound string

datatype cardinality = One | Range cardinality_bound cardinality_bound

datatype entry_kind = Leader | Delegate

record consume_decl =
  co_name :: string
  co_actor :: string
  co_cardinality :: cardinality

record observed_actor_decl =
  ob_name :: string
  ob_actor :: string
  ob_open_state :: "string option"
  ob_cardinality :: cardinality

record observe_decl =
  os_name :: string
  os_covenant_expr :: string
  os_inputs :: "observed_actor_decl list"
  os_outputs :: "observed_actor_decl list"

record spawn_output_decl =
  sp_name :: string
  sp_actor :: string
  sp_cardinality :: cardinality
  sp_group_index :: nat

record spawn_decl =
  sw_name :: string
  sw_covenant :: string
  sw_outputs :: "spawn_output_decl list"

record emit_output =
  eo_name :: string
  eo_actors :: "string list"
  eo_cardinality :: cardinality
  eo_auth_index :: nat

datatype emit_spec = NoEmits | Outputs "emit_output list"

type_synonym route_id = nat

datatype route_arity = OneActor | ManyActors

datatype entry_successor = ExactSelf | Constructed route_arity

record entry_route =
  er_id :: route_id
  er_output :: string
  er_successor :: entry_successor

record entry_decl =
  en_kind :: entry_kind
  en_name :: string
  en_params :: "param_decl list"
  en_consumes :: "consume_decl list"
  en_observes :: "observe_decl list"
  en_spawns :: "spawn_decl list"
  en_emits :: emit_spec
  en_routes :: "entry_route list"
  en_terminal_route_sets :: "route_id list list"

record actor_decl =
  ac_name :: string
  ac_state :: string
  ac_functions :: "function_decl list"
  ac_entries :: "entry_decl list"

record actor_enum_decl =
  ae_name :: string
  ae_variants :: "string list"

record app_decl =
  ap_name :: string
  ap_actors :: "string list"

record module_decl =
  md_path :: path
  md_imports :: "import_decl list"
  md_consts :: "const_decl list"
  md_states :: "state_decl list"
  md_functions :: "function_decl list"
  md_actors :: "actor_decl list"
  md_actor_enums :: "actor_enum_decl list"
  md_apps :: "app_decl list"

section \<open>Identities\<close>

type_synonym module_id = nat

datatype symbol_kind = Const | State | Function | Actor | ActorEnum | App

datatype decl_id = DeclId (dc_module: module_id) (dc_kind: symbol_kind) (dc_index: nat)

record app_member =
  am_app :: decl_id
  am_actor :: decl_id

datatype resolved_name = Module module_id | Declaration decl_id | Member app_member

end
