(* ===== verification/Namespaces.thy ===== *)
theory Namespaces
  imports Syntax_Model
begin

text \<open>
  The namespace table (\<^verbatim>\<open>src/compiler/resolve/namespaces.rs\<close>): which names a module offers
  once the imports without an alias are followed, found by repeating a round until nothing
  changes. The set of targets of a name is a \<^verbatim>\<open>BTreeSet\<close>; it is read only when it holds
  one target, so it is a set here. Indexing a vector out of range is \<^const>\<open>Panic\<close>.
\<close>

datatype resolve_error =
    InvalidGraph
  | DuplicateAlias path string
  | AmbiguousExport path string
  | InvalidReference path string
  | UnknownExport path string string
  | NotANamespace path string string
  | MemberNotLocal path string string
  | MemberTwice path string string
  | NoSuchMember path string string string
  | WrongKind path string "symbol_kind list" symbol_kind
  | AppInApp path string
  | ModuleInApp path string
  | ActorExportedTwice string
  | NotAnApp
  | EmptyReference path
  | NoAppNamed path string
  | SeveralApps path "string list"
  | AppNotDeclared path string

definition index_at :: "'a list \<Rightarrow> nat \<Rightarrow> ('e, 'a) outcome" where
  "index_at xs i = (if i < length xs then Ok (xs ! i) else Panic)"

lemma index_at_iff [simp, outcome_simps]:
  "index_at xs i = Ok x \<longleftrightarrow> i < length xs \<and> xs ! i = x"
  "index_at xs i \<noteq> Err e"
  "index_at xs i = Panic \<longleftrightarrow> \<not> i < length xs"
  by (auto simp: index_at_def)

record resolved_import =
  ri_target :: module_id
  ri_alias :: "string option"

type_synonym candidates = "(string, resolved_name set) btree"

section \<open>Candidates of a module\<close>

definition numbered :: "symbol_kind \<Rightarrow> string list \<Rightarrow> (string \<times> symbol_kind \<times> nat) list" where
  "numbered kind names = map (\<lambda>(index, name). (name, kind, index)) (enumerate 0 names)"

definition declared_names :: "module_decl \<Rightarrow> (string \<times> symbol_kind \<times> nat) list" where
  "declared_names m = numbered Const (map cn_name (md_consts m)) @ numbered State (map st_name (md_states m))
     @ numbered Function (map fn_name (md_functions m)) @ numbered Actor (map ac_name (md_actors m))
     @ numbered ActorEnum (map ae_name (md_actor_enums m)) @ numbered App (map ap_name (md_apps m))"

text \<open>\<^verbatim>\<open>entry(name).or_default().extend(targets)\<close>\<close>

definition candidate_add :: "string \<Rightarrow> resolved_name set \<Rightarrow> candidates \<Rightarrow> candidates" where
  "candidate_add name targets c = bm_insert name ((case map_of c name of None \<Rightarrow> {} | Some known \<Rightarrow> known) \<union> targets) c"

definition alias_step ::
  "path \<Rightarrow> string set \<times> candidates \<Rightarrow> resolved_import \<Rightarrow> (resolve_error, string set \<times> candidates) outcome" where
  "alias_step path s imp = (case s of (aliases, c) \<Rightarrow>
     (case ri_alias imp of None \<Rightarrow> Ok (aliases, c)
      | Some nm \<Rightarrow>
          if nm \<in> aliases then Err (DuplicateAlias path nm)
          else Ok (insert nm aliases, candidate_add nm {Module (ri_target imp)} c)))"

definition module_candidates ::
  "module_decl list \<Rightarrow> resolved_import list list \<Rightarrow> module_id \<Rightarrow> (resolve_error, candidates) outcome" where
  "module_candidates ms imports mi =
     and_then (index_at ms mi) (\<lambda>m.
     and_then (index_at imports mi) (\<lambda>module_imports.
     and_then (try_fold (alias_step (md_path m))
         ({}, fold (\<lambda>(name, kind, index). candidate_add name {Declaration (DeclId mi kind index)}) (declared_names m) [])
         module_imports) (\<lambda>s. Ok (snd s))))"

section \<open>The fixed point\<close>

definition extend_entry ::
  "module_id \<Rightarrow> candidates list \<Rightarrow> string \<times> resolved_name set \<Rightarrow> (resolve_error, candidates list) outcome" where
  "extend_entry mi next_cs entry = (case entry of (name, targets) \<Rightarrow>
     and_then (index_at next_cs mi) (\<lambda>known. Ok (next_cs[mi := candidate_add name targets known])))"

definition extend_step ::
  "candidates list \<Rightarrow> candidates list \<Rightarrow> nat \<times> resolved_import \<Rightarrow> (resolve_error, candidates list) outcome" where
  "extend_step cs next_cs edge = (case edge of (mi, imp) \<Rightarrow>
     and_then (index_at cs (ri_target imp)) (\<lambda>source. try_fold (extend_entry mi) next_cs source))"

definition open_imports :: "resolved_import list list \<Rightarrow> (nat \<times> resolved_import) list" where
  "open_imports imports =
     concat (map (\<lambda>(mi, module_imports). map (Pair mi) (filter (\<lambda>imp. ri_alias imp = None) module_imports))
       (enumerate 0 imports))"

definition expand_round :: "resolved_import list list \<Rightarrow> candidates list \<Rightarrow> (resolve_error, candidates list) outcome" where
  "expand_round imports cs = try_fold (extend_step cs) cs (open_imports imports)"

text \<open>\<^verbatim>\<open>loop\<close>: a table that no round leaves unchanged would make this run for ever (\<^const>\<open>None\<close>).\<close>

partial_function (option) settle ::
  "resolved_import list list \<Rightarrow> candidates list \<Rightarrow> (resolve_error, candidates list) outcome option" where
  "settle imports cs = (case expand_round imports cs of
       Ok next_cs \<Rightarrow> if next_cs = cs then Some (Ok cs) else settle imports next_cs
     | Err e \<Rightarrow> Some (Err e)
     | Panic \<Rightarrow> Some Panic)"

declare settle.simps [code]

section \<open>Exports\<close>

definition export_step ::
  "path \<Rightarrow> (string, resolved_name) btree \<Rightarrow> string \<times> resolved_name set \<Rightarrow>
    (resolve_error, (string, resolved_name) btree) outcome" where
  "export_step path exports candidate = (case candidate of (name, targets) \<Rightarrow>
     if targets = {} then Ok exports
     else if 1 < card targets then Err (AmbiguousExport path name)
     else Ok (bm_insert name (the_elem targets) exports))"

definition module_exports ::
  "module_decl list \<Rightarrow> nat \<times> candidates \<Rightarrow> (resolve_error, (string, resolved_name) btree) outcome" where
  "module_exports ms c = (case c of (mi, cs) \<Rightarrow>
     and_then (index_at ms mi) (\<lambda>m. try_fold (export_step (md_path m)) [] cs))"

type_synonym namespace_table = "(string, resolved_name) btree list"

definition namespace_table_new ::
  "module_decl list \<Rightarrow> resolved_import list list \<Rightarrow> (resolve_error, namespace_table) outcome option" where
  "namespace_table_new ms imports =
     (case try_map (module_candidates ms imports) [0..<length ms] of
        Err e \<Rightarrow> Some (Err e) | Panic \<Rightarrow> Some Panic
      | Ok cs \<Rightarrow> (case settle imports cs of
          None \<Rightarrow> None | Some (Err e) \<Rightarrow> Some (Err e) | Some Panic \<Rightarrow> Some Panic
        | Some (Ok settled) \<Rightarrow> Some (try_map (module_exports ms) (enumerate 0 settled))))"

section \<open>What a module offers\<close>

text \<open>
  The specification: the targets a module gives a name itself, and those it sees through the
  imports that have no alias, any number of them deep.
\<close>

definition direct :: "module_decl list \<Rightarrow> resolved_import list list \<Rightarrow> module_id \<Rightarrow> string \<Rightarrow> resolved_name set" where
  "direct ms imports mi name =
     {Declaration (DeclId mi kind index) | kind index. (name, kind, index) \<in> set (declared_names (ms ! mi))}
     \<union> {Module (ri_target imp) | imp. imp \<in> set (imports ! mi) \<and> ri_alias imp = Some name}"

definition import_edges :: "resolved_import list list \<Rightarrow> (module_id \<times> module_id) set" where
  "import_edges imports = {(mi, ri_target imp) | mi imp. mi < length imports \<and> imp \<in> set (imports ! mi) \<and> ri_alias imp = None}"

definition visible :: "module_decl list \<Rightarrow> resolved_import list list \<Rightarrow> module_id \<Rightarrow> string \<Rightarrow> resolved_name set" where
  "visible ms imports mi name = (\<Union>target \<in> (import_edges imports)\<^sup>* `` {mi}. direct ms imports target name)"

definition targets_of :: "candidates \<Rightarrow> string \<Rightarrow> resolved_name set" where
  "targets_of c name = (case map_of c name of None \<Rightarrow> {} | Some targets \<Rightarrow> targets)"

text \<open>Candidate maps stay in key order and hold no name without a target.\<close>

definition tidy :: "candidates \<Rightarrow> bool" where
  "tidy c \<longleftrightarrow> sorted_wrt (<) (bm_keys c) \<and> (\<forall>(name, targets) \<in> set c. targets \<noteq> {})"

lemma tidy_lookup:
  assumes "tidy c"
  shows "map_of c name = (if targets_of c name = {} then None else Some (targets_of c name))"
proof (cases "map_of c name")
  case (Some targets)
  then have "(name, targets) \<in> set c" by (rule map_of_SomeD)
  then have "targets \<noteq> {}" using assms by (auto simp: tidy_def)
  with Some show ?thesis by (simp add: targets_of_def)
qed (simp add: targets_of_def)

lemma tidy_eqI:
  assumes "tidy c" "tidy d" "\<And>name. targets_of c name = targets_of d name"
  shows "c = d"
proof (rule btree_eqI)
  show "map_of c = map_of d" using assms(3) by (simp add: fun_eq_iff tidy_lookup [OF assms(1)] tidy_lookup [OF assms(2)])
qed (use assms(1,2) in \<open>simp_all add: tidy_def\<close>)

lemma tidy_Nil [simp]: "tidy []" "targets_of [] name = {}"
  by (simp_all add: tidy_def targets_of_def)

lemma targets_of_add [simp]:
  "targets_of (candidate_add nm ts c) name = targets_of c name \<union> (if name = nm then ts else {})"
  by (auto simp: candidate_add_def targets_of_def split: option.splits)

lemma tidy_add:
  assumes "tidy c" and "ts \<noteq> {}"
  shows "tidy (candidate_add nm ts c)"
proof -
  have sorted: "sorted_wrt (<) (bm_keys (candidate_add nm ts c))" using assms(1) by (simp add: candidate_add_def tidy_def)
  have "targets \<noteq> {}" if "(name, targets) \<in> set (candidate_add nm ts c)" for name targets
  proof -
    have "map_of (candidate_add nm ts c) name = Some targets"
      using sorted_keys_distinct [OF sorted] that by (rule map_of_is_SomeI)
    then show ?thesis
      using assms by (auto simp: candidate_add_def tidy_def split: if_splits option.splits dest: map_of_SomeD)
  qed
  with sorted show ?thesis by (auto simp: tidy_def)
qed

text \<open>Adding every candidate of an imported module.\<close>

abbreviation add_all :: "candidates \<Rightarrow> candidates \<Rightarrow> candidates" where
  "add_all source c \<equiv> fold (\<lambda>(name, targets). candidate_add name targets) source c"

lemma targets_of_add_all: "targets_of (add_all kvs c) nm = targets_of c nm \<union> \<Union> {targets. (nm, targets) \<in> set kvs}"
  by (induction kvs arbitrary: c) (auto split: if_splits)

lemma tidy_add_all: "\<forall>(name, targets) \<in> set kvs. targets \<noteq> {} \<Longrightarrow> tidy c \<Longrightarrow> tidy (add_all kvs c)"
proof (induction kvs arbitrary: c)
  case (Cons kv kvs)
  obtain nm ts where kv: "kv = (nm, ts)" by fastforce
  with Cons.prems have "tidy (candidate_add nm ts c)" by (intro tidy_add) auto
  with Cons kv show ?case by simp
qed simp

lemma tidy_union:
  assumes "tidy c"
  shows "\<Union> {targets. (nm, targets) \<in> set c} = targets_of c nm"
proof -
  have "distinct (bm_keys c)" using assms sorted_keys_distinct by (auto simp: tidy_def)
  then have "(nm, targets) \<in> set c \<longleftrightarrow> map_of c nm = Some targets" for targets by simp
  then show ?thesis by (auto simp: targets_of_def split: option.splits)
qed

lemma add_all_source:
  assumes "tidy source" and "tidy c"
  shows "tidy (add_all source c)"
    and "targets_of (add_all source c) nm = targets_of c nm \<union> targets_of source nm"
  using tidy_add_all [of source c] assms targets_of_add_all [of source c nm] tidy_union [OF assms(1), of nm]
  by (simp_all add: tidy_def)

lemma extend_entries:
  "mi < length next_cs \<Longrightarrow>
    try_fold (extend_entry mi) next_cs source = Ok (next_cs[mi := add_all source (next_cs ! mi)])"
proof (induction source arbitrary: next_cs)
  case (Cons entry source)
  then show ?case by (cases entry) (simp add: extend_entry_def index_at_def)
qed simp

section \<open>Candidates before the imports are followed\<close>

lemma fold_declared:
  "tidy c \<Longrightarrow> tidy (fold (\<lambda>(name, kind, index). candidate_add name {Declaration (DeclId mi kind index)}) ds c)"
  "targets_of (fold (\<lambda>(name, kind, index). candidate_add name {Declaration (DeclId mi kind index)}) ds c) nm
    = targets_of c nm \<union> {Declaration (DeclId mi kind index) | kind index. (nm, kind, index) \<in> set ds}"
  by (induction ds arbitrary: c) (auto simp: tidy_add split: if_splits)

text \<open>The aliases of a module are accepted exactly when no two are equal.\<close>

abbreviation alias_names :: "resolved_import list \<Rightarrow> string list" where
  "alias_names imps \<equiv> List.map_filter ri_alias imps"

lemma alias_names_nth:
  "alias_names (xs @ [imp]) = alias_names xs @ (case ri_alias imp of None \<Rightarrow> [] | Some nm \<Rightarrow> [nm])"
  by (simp add: List.map_filter_def split: option.splits)

lemma alias_step_some:
  "ri_alias imp = None \<Longrightarrow> alias_step path (used, c) imp = Ok (used, c)"
  "ri_alias imp = Some nm \<Longrightarrow> alias_step path (used, c) imp =
    (if nm \<in> used then Err (DuplicateAlias path nm)
     else Ok (insert nm used, candidate_add nm {Module (ri_target imp)} c))"
  by (simp_all add: alias_step_def)

lemma alias_fold:
  assumes "tidy c"
  shows "if distinct (alias_names imps)
    then \<exists>d. try_fold (alias_step path) ({}, c) imps = Ok (set (alias_names imps), d) \<and> tidy d
      \<and> (\<forall>nm. targets_of d nm = targets_of c nm \<union> {Module (ri_target imp) | imp. imp \<in> set imps \<and> ri_alias imp = Some nm})
    else \<exists>nm. try_fold (alias_step path) ({}, c) imps = Err (DuplicateAlias path nm)"
proof (induction imps rule: rev_induct)
  case Nil
  then show ?case using assms by (simp add: List.map_filter_def)
next
  case (snoc imp imps)
  show ?case
  proof (cases "distinct (alias_names imps)")
    case False
    with snoc show ?thesis by (auto simp: alias_names_nth try_fold_append)
  next
    case True
    with snoc obtain d where d: "try_fold (alias_step path) ({}, c) imps = Ok (set (alias_names imps), d)" "tidy d"
      "\<And>nm. targets_of d nm = targets_of c nm \<union> {Module (ri_target imp) | imp. imp \<in> set imps \<and> ri_alias imp = Some nm}"
      by auto
    show ?thesis
    proof (cases "ri_alias imp")
      case None
      with True d show ?thesis by (auto simp: alias_names_nth try_fold_append alias_step_some)
    next
      case (Some a)
      note step = alias_step_some(2) [OF Some, of path "set (alias_names imps)" d]
      have tidy: "tidy (candidate_add a {Module (ri_target imp)} d)" using d(2) by (simp add: tidy_add)
      show ?thesis
      proof (cases "a \<in> set (alias_names imps)")
        case True
        then show ?thesis using Some d(1) step by (simp add: alias_names_nth try_fold_append)
      next
        case False
        with step d(1) have "try_fold (alias_step path) ({}, c) (imps @ [imp])
          = Ok (set (alias_names (imps @ [imp])), candidate_add a {Module (ri_target imp)} d)"
          using Some by (simp add: alias_names_nth try_fold_append)
        moreover have "targets_of (candidate_add a {Module (ri_target imp)} d) nm = targets_of c nm
          \<union> {Module (ri_target i) | i. i \<in> set (imps @ [imp]) \<and> ri_alias i = Some nm}" for nm
          using Some d(3) [of nm] by auto
        moreover have "distinct (alias_names (imps @ [imp]))"
          using Some False \<open>distinct (alias_names imps)\<close> by (simp add: alias_names_nth)
        ultimately show ?thesis using tidy by simp
      qed
    qed
  qed
qed


lemma module_candidates_eq:
  assumes "mi < length ms" and "mi < length imports"
  shows "if distinct (alias_names (imports ! mi))
    then \<exists>d. module_candidates ms imports mi = Ok d \<and> tidy d \<and> (\<forall>nm. targets_of d nm = direct ms imports mi nm)
    else \<exists>nm. module_candidates ms imports mi = Err (DuplicateAlias (md_path (ms ! mi)) nm)"
proof -
  let ?c = "fold (\<lambda>(name, kind, index). candidate_add name {Declaration (DeclId mi kind index)}) (declared_names (ms ! mi)) []"
  have "tidy ?c" by (simp add: fold_declared(1))
  from alias_fold [OF this, of "imports ! mi" "md_path (ms ! mi)"] assms show ?thesis
    by (auto simp: module_candidates_def index_at_def fold_declared(2) direct_def split: if_splits)
qed

section \<open>One round\<close>

lemma expand_round_spec:
  assumes n: "length cs = n" "length imports = n" and tidy: "\<And>m. m < n \<Longrightarrow> tidy (cs ! m)"
    and range: "\<And>m imp. m < n \<Longrightarrow> imp \<in> set (imports ! m) \<Longrightarrow> ri_target imp < n"
  shows "\<exists>cs'. expand_round imports cs = Ok cs' \<and> length cs' = n \<and> (\<forall>m < n. tidy (cs' ! m)
    \<and> (\<forall>nm. targets_of (cs' ! m) nm
        = targets_of (cs ! m) nm \<union> (\<Union>t \<in> import_edges imports `` {m}. targets_of (cs ! t) nm)))"
proof -
  define I where "I done cs' \<longleftrightarrow> length cs' = n \<and> (\<forall>m < n. tidy (cs' ! m)
    \<and> (\<forall>nm. targets_of (cs' ! m) nm = targets_of (cs ! m) nm
        \<union> \<Union> {targets_of (cs ! ri_target imp) nm | imp. (m, imp) \<in> set done}))"
    for "done" :: "(nat \<times> resolved_import) list" and cs'
  have edges: "(m, imp) \<in> set (open_imports imports) \<longleftrightarrow> m < n \<and> imp \<in> set (imports ! m) \<and> ri_alias imp = None" for m imp
  proof -
    have "(m, imp) \<in> set (open_imports imports)
      \<longleftrightarrow> (\<exists>e \<in> set (enumerate 0 imports). m = fst e \<and> imp \<in> set (snd e) \<and> ri_alias imp = None)"
      by (auto simp: open_imports_def split_beta)
    also have "\<dots> \<longleftrightarrow> m < n \<and> imp \<in> set (imports ! m) \<and> ri_alias imp = None"
      by (auto simp: in_set_enumerate_eq n(2) intro!: bexI [of _ "(m, imports ! m)"])
    finally show ?thesis .
  qed
  have "\<exists>cs'. expand_round imports cs = Ok cs' \<and> I (open_imports imports) cs'"
    unfolding expand_round_def
  proof (rule try_fold_total)
    show "I [] cs" using n tidy by (simp add: I_def)
  next
    fix ys e zs cs'
    assume split: "open_imports imports = ys @ e # zs" and I: "I ys cs'"
    obtain m imp where e: "e = (m, imp)" by fastforce
    have "(m, imp) \<in> set (open_imports imports)" using split e by simp
    with edges have m: "m < n" and t: "ri_target imp < n" using range by auto
    let ?cs = "cs'[m := add_all (cs ! ri_target imp) (cs' ! m)]"
    have "extend_step cs cs' e = Ok ?cs"
      using m t I n(1) by (simp add: extend_step_def e index_at_def extend_entries I_def)
    moreover have "I (ys @ [e]) ?cs"
    proof -
      have *: "tidy (cs' ! m)" "tidy (cs ! ri_target imp)" using I m t tidy by (auto simp: I_def)
      note new = add_all_source [OF *(2,1)]
      have "tidy (?cs ! k) \<and> (\<forall>nm. targets_of (?cs ! k) nm = targets_of (cs ! k) nm
        \<union> \<Union> {targets_of (cs ! ri_target i) nm | i. (k, i) \<in> set (ys @ [e])})" if "k < n" for k
        using new I that by (cases "k = m") (auto simp: I_def e)
      then show ?thesis using I by (simp add: I_def)
    qed
    ultimately show "\<exists>s'. extend_step cs cs' e = Ok s' \<and> I (ys @ [e]) s'" by blast
  qed
  then obtain cs' where cs': "expand_round imports cs = Ok cs'" "I (open_imports imports) cs'" by blast
  moreover have "\<Union> {targets_of (cs ! ri_target imp) nm | imp. (m, imp) \<in> set (open_imports imports)}
      = (\<Union>t \<in> import_edges imports `` {m}. targets_of (cs ! t) nm)" for m nm
    by (auto simp: edges import_edges_def n(2))
  ultimately show ?thesis by (auto simp: I_def)
qed

section \<open>The fixed point\<close>

text \<open>A well-formed module graph: one import list per module, and every import names a module.\<close>

definition graph_ok :: "module_decl list \<Rightarrow> resolved_import list list \<Rightarrow> bool" where
  "graph_ok ms imports \<longleftrightarrow> length imports = length ms
     \<and> (\<forall>imps \<in> set imports. \<forall>imp \<in> set imps. ri_target imp < length ms)"

lemma graph_okD:
  assumes "graph_ok ms imports" "m < length ms"
  shows "m < length imports" "imp \<in> set (imports ! m) \<Longrightarrow> ri_target imp < length ms"
  using assms by (auto simp: graph_ok_def)

text \<open>What every round keeps: a module has its own targets, and none that it does not see.\<close>

definition table_inv :: "module_decl list \<Rightarrow> resolved_import list list \<Rightarrow> candidates list \<Rightarrow> bool" where
  "table_inv ms imports cs \<longleftrightarrow> length cs = length ms \<and> (\<forall>m < length ms. tidy (cs ! m)
     \<and> (\<forall>nm. direct ms imports m nm \<subseteq> targets_of (cs ! m) nm \<and> targets_of (cs ! m) nm \<subseteq> visible ms imports m nm))"

lemma visible_edge: "t \<in> import_edges imports `` {m} \<Longrightarrow> visible ms imports t nm \<subseteq> visible ms imports m nm"
  by (auto simp: visible_def intro: converse_rtrancl_into_rtrancl)

lemma edge_range: "graph_ok ms imports \<Longrightarrow> (m, t) \<in> import_edges imports \<Longrightarrow> m < length ms \<and> t < length ms"
  by (auto simp: import_edges_def graph_ok_def)

text \<open>The triples of a table; a round only adds some, out of finitely many.\<close>

definition triples :: "candidates list \<Rightarrow> (module_id \<times> string \<times> resolved_name) set" where
  "triples cs = {(m, nm, t). m < length cs \<and> t \<in> targets_of (cs ! m) nm}"

lemma finite_direct: "finite {(nm, t). t \<in> direct ms imports m nm}"
proof -
  have "{(nm, t). t \<in> direct ms imports m nm}
    \<subseteq> (\<lambda>(nm, kind, index). (nm, Declaration (DeclId m kind index))) ` set (declared_names (ms ! m))
      \<union> (\<lambda>imp. (the (ri_alias imp), Module (ri_target imp))) ` set (imports ! m)"
    by (force simp: direct_def image_iff)
  then show ?thesis by (rule finite_subset) simp
qed

lemma finite_visible:
  assumes "graph_ok ms imports"
  shows "finite {(m, nm, t). m < length ms \<and> t \<in> visible ms imports m nm}"
proof -
  have reach: "t < length ms" if "(m, t) \<in> (import_edges imports)\<^sup>*" "m < length ms" for m t
    using that by induction (auto dest: edge_range [OF assms])
  have "{(m, nm, t). m < length ms \<and> t \<in> visible ms imports m nm}
    \<subseteq> {..<length ms} \<times> (\<Union>k \<in> {..<length ms}. {(nm, t). t \<in> direct ms imports k nm})"
    using reach by (auto simp: visible_def)
  then show ?thesis by (rule finite_subset) (simp add: finite_direct)
qed

lemma finite_visible_at:
  assumes "graph_ok ms imports" and "m < length ms"
  shows "finite (visible ms imports m nm)"
proof -
  have "(\<lambda>t. (m, nm, t)) ` visible ms imports m nm \<subseteq> {(m, nm, t). m < length ms \<and> t \<in> visible ms imports m nm}"
    using assms(2) by auto
  from finite_subset [OF this finite_visible [OF assms(1)]] show ?thesis
    by (rule finite_imageD) (simp add: inj_on_def)
qed

lemma triples_eqD:
  assumes "table_inv ms imports cs" "table_inv ms imports cs'" "triples cs = triples cs'"
  shows "cs = cs'"
proof (rule nth_equalityI)
  show "length cs = length cs'" using assms(1,2) by (simp add: table_inv_def)
  fix m assume m: "m < length cs"
  have "targets_of (cs ! m) nm = targets_of (cs' ! m) nm" for nm
    using assms m by (auto simp: triples_def table_inv_def set_eq_iff)
  then show "cs ! m = cs' ! m" using assms(1,2) m by (intro tidy_eqI) (simp_all add: table_inv_def)
qed

lemma expand_round_inv:
  assumes g: "graph_ok ms imports" and inv: "table_inv ms imports cs"
  shows "\<exists>cs'. expand_round imports cs = Ok cs' \<and> table_inv ms imports cs' \<and> triples cs \<subseteq> triples cs'
    \<and> (cs' = cs \<longrightarrow> (\<forall>m < length ms. \<forall>nm. targets_of (cs ! m) nm = visible ms imports m nm))"
proof -
  have "\<exists>cs'. expand_round imports cs = Ok cs' \<and> length cs' = length ms \<and> (\<forall>m < length ms. tidy (cs' ! m)
    \<and> (\<forall>nm. targets_of (cs' ! m) nm
        = targets_of (cs ! m) nm \<union> (\<Union>t \<in> import_edges imports `` {m}. targets_of (cs ! t) nm)))"
    by (rule expand_round_spec) (use g inv graph_okD(2) [OF g] in \<open>auto simp: table_inv_def graph_ok_def\<close>)
  then obtain cs' where spec: "expand_round imports cs = Ok cs' \<and> length cs' = length ms \<and> (\<forall>m < length ms. tidy (cs' ! m)
    \<and> (\<forall>nm. targets_of (cs' ! m) nm
        = targets_of (cs ! m) nm \<union> (\<Union>t \<in> import_edges imports `` {m}. targets_of (cs ! t) nm)))" by (elim exE)
  then have cs': "expand_round imports cs = Ok cs'" "length cs' = length ms"
    "\<And>m. m < length ms \<Longrightarrow> tidy (cs' ! m)"
    "\<And>m nm. m < length ms \<Longrightarrow> targets_of (cs' ! m) nm
      = targets_of (cs ! m) nm \<union> (\<Union>t \<in> import_edges imports `` {m}. targets_of (cs ! t) nm)" by simp_all
  have bounds: "direct ms imports m nm \<subseteq> targets_of (cs ! m) nm" "targets_of (cs ! m) nm \<subseteq> visible ms imports m nm"
    if "m < length ms" for m nm using inv that by (auto simp: table_inv_def)
  have upper: "targets_of (cs ! t) nm \<subseteq> visible ms imports m nm" if "t \<in> import_edges imports `` {m}" for t m nm
    using edge_range [OF g, of m t] that bounds(2) [of t nm] visible_edge [OF that, of ms nm] by auto
  have new: "direct ms imports m nm \<subseteq> targets_of (cs' ! m) nm" "targets_of (cs' ! m) nm \<subseteq> visible ms imports m nm"
    if "m < length ms" for m nm
    unfolding cs'(4) [OF that] using bounds [OF that, of nm] upper [of _ m nm] by blast+
  then have inv': "table_inv ms imports cs'" using cs'(2,3) by (simp add: table_inv_def)
  have closed: "targets_of (cs ! m) nm = visible ms imports m nm" if "cs' = cs" "m < length ms" for m nm
  proof
    have step: "targets_of (cs ! t) nm \<subseteq> targets_of (cs ! k) nm" if "(k, t) \<in> import_edges imports" for k t
      using cs'(4) [of k nm] edge_range [OF g that] that \<open>cs' = cs\<close> by auto
    have "targets_of (cs ! t) nm \<subseteq> targets_of (cs ! m) nm \<and> t < length ms" if "(m, t) \<in> (import_edges imports)\<^sup>*" for t
      using that by induction (use step edge_range [OF g] \<open>m < length ms\<close> in auto)
    then show "visible ms imports m nm \<subseteq> targets_of (cs ! m) nm" using bounds(1) by (fastforce simp: visible_def)
  qed (rule bounds(2) [OF that(2)])
  have "triples cs \<subseteq> triples cs'" using inv cs'(2,4) by (auto simp: triples_def table_inv_def)
  with cs'(1) inv' closed show ?thesis by blast
qed

lemma settle_exact:
  assumes g: "graph_ok ms imports" and inv: "table_inv ms imports cs"
  shows "\<exists>cs'. settle imports cs = Some (Ok cs') \<and> table_inv ms imports cs'
    \<and> (\<forall>m < length ms. \<forall>nm. targets_of (cs' ! m) nm = visible ms imports m nm)"
  using inv
proof (induction "card ({(m, nm, t). m < length ms \<and> t \<in> visible ms imports m nm} - triples cs)"
    arbitrary: cs rule: less_induct)
  case less
  let ?U = "{(m, nm, t). m < length ms \<and> t \<in> visible ms imports m nm}"
  from expand_round_inv [OF g less.prems] obtain cs' where cs': "expand_round imports cs = Ok cs'"
    "table_inv ms imports cs'" "triples cs \<subseteq> triples cs'"
    "cs' = cs \<Longrightarrow> (\<forall>m < length ms. \<forall>nm. targets_of (cs ! m) nm = visible ms imports m nm)" by blast
  show ?case
  proof (cases "cs' = cs")
    case True
    with cs' less.prems show ?thesis by (subst settle.simps) simp
  next
    case False
    with triples_eqD [OF less.prems cs'(2)] cs'(3) obtain x where x: "x \<in> triples cs'" "x \<notin> triples cs" by blast
    moreover have "triples cs' \<subseteq> ?U" using cs'(2) by (auto simp: triples_def table_inv_def)
    ultimately have "?U - triples cs' \<subset> ?U - triples cs" using cs'(3) by blast
    then have "card (?U - triples cs') < card (?U - triples cs)"
      using finite_visible [OF g] by (intro psubset_card_mono) auto
    from less.hyps [OF this cs'(2)] False cs'(1) show ?thesis by (subst settle.simps) simp
  qed
qed

section \<open>The exports of a module\<close>

text \<open>A map over a list in which every element is decided.\<close>

lemma try_map_decides:
  assumes "\<And>x. x \<in> set xs \<Longrightarrow> if Q x then \<exists>y. f x = Ok y else \<exists>e. f x = Err e \<and> E x e"
  shows "if \<forall>x \<in> set xs. Q x then \<exists>ys. try_map f xs = Ok ys
    else \<exists>x \<in> set xs. \<not> Q x \<and> (\<exists>e. try_map f xs = Err e \<and> E x e)"
  using assms
proof (induction xs)
  case (Cons x xs)
  have IH: "if \<forall>x \<in> set xs. Q x then \<exists>ys. try_map f xs = Ok ys
    else \<exists>x \<in> set xs. \<not> Q x \<and> (\<exists>e. try_map f xs = Err e \<and> E x e)"
    using Cons.prems by (intro Cons.IH) auto
  show ?case
  proof (cases "Q x")
    case True
    with Cons.prems [of x] obtain y where "f x = Ok y" by auto
    with True IH show ?thesis by (cases "\<forall>x \<in> set xs. Q x") auto
  next
    case False
    with Cons.prems [of x] show ?thesis by auto
  qed
qed simp

lemma export_fold:
  assumes "\<forall>(nm, targets) \<in> set c. finite targets \<and> targets \<noteq> {}"
  shows "if \<forall>(nm, targets) \<in> set c. card targets = 1
    then try_fold (export_step path) exports c = Ok (fold (\<lambda>(nm, t). bm_insert nm t) (map (map_prod id the_elem) c) exports)
    else \<exists>(nm, targets) \<in> set c. 1 < card targets \<and> try_fold (export_step path) exports c = Err (AmbiguousExport path nm)"
  using assms
proof (induction c arbitrary: exports)
  case (Cons e c)
  obtain nm targets where e: "e = (nm, targets)" by fastforce
  with Cons.prems have "0 < card targets" "targets \<noteq> {}" by (auto simp: card_gt_0_iff)
  then show ?case
  proof (cases "card targets = 1")
    case True
    with \<open>targets \<noteq> {}\<close> have "export_step path exports e = Ok (bm_insert nm (the_elem targets) exports)"
      by (simp add: export_step_def e)
    then have step: "try_fold (export_step path) exports (e # c)
      = try_fold (export_step path) (bm_insert nm (the_elem targets) exports) c" by simp
    have "\<forall>(nm, targets) \<in> set c. finite targets \<and> targets \<noteq> {}" using Cons.prems by simp
    note IH = Cons.IH [OF this, of "bm_insert nm (the_elem targets) exports"]
    show ?thesis
    proof (cases "\<forall>(nm, targets) \<in> set c. card targets = 1")
      case all: True
      with True have cond: "\<forall>(nm, targets) \<in> set (e # c). card targets = 1" by (simp add: e)
      from IH [unfolded if_P [OF all]] show ?thesis unfolding if_P [OF cond] step by (simp add: e)
    next
      case some: False
      then have cond: "\<not> (\<forall>(nm, targets) \<in> set (e # c). card targets = 1)" by auto
      from IH [unfolded if_not_P [OF some]] show ?thesis unfolding if_not_P [OF cond] step by auto
    qed
  next
    case False
    with \<open>0 < card targets\<close> \<open>targets \<noteq> {}\<close> have "export_step path exports e = Err (AmbiguousExport path nm)" "1 < card targets"
      by (simp_all add: export_step_def e)
    with False show ?thesis by (auto simp: e)
  qed
qed simp

lemma module_exports_eq:
  assumes m: "m < length ms" and c: "tidy c" and fin: "\<And>nm. finite (targets_of c nm)"
  shows "if \<forall>nm. card (targets_of c nm) \<le> 1
    then \<exists>exports. module_exports ms (m, c) = Ok exports \<and> sorted_wrt (<) (bm_keys exports)
      \<and> (\<forall>nm. map_of exports nm = (if targets_of c nm = {} then None else Some (the_elem (targets_of c nm))))
    else \<exists>nm. 1 < card (targets_of c nm) \<and> module_exports ms (m, c) = Err (AmbiguousExport (md_path (ms ! m)) nm)"
proof -
  have dist: "distinct (bm_keys c)" using c sorted_keys_distinct by (auto simp: tidy_def)
  have elem: "targets_of c nm = targets" if "(nm, targets) \<in> set c" for nm targets
    using that dist by (simp add: targets_of_def)
  have ok: "\<forall>(nm, targets) \<in> set c. finite targets \<and> targets \<noteq> {}" using c fin elem by (auto simp: tidy_def)
  have single: "(\<forall>(nm, targets) \<in> set c. card targets = 1) \<longleftrightarrow> (\<forall>nm. card (targets_of c nm) \<le> 1)"
  proof
    assume *: "\<forall>(nm, targets) \<in> set c. card targets = 1"
    show "\<forall>nm. card (targets_of c nm) \<le> 1"
      using * by (fastforce simp: targets_of_def split: option.splits dest: map_of_SomeD)
  next
    assume *: "\<forall>nm. card (targets_of c nm) \<le> 1"
    show "\<forall>(nm, targets) \<in> set c. card targets = 1"
    proof clarify
      fix nm targets assume e: "(nm, targets) \<in> set c"
      with ok have "0 < card targets" by (auto simp: card_gt_0_iff)
      with * [rule_format, of nm] elem [OF e] show "card targets = 1" by simp
    qed
  qed
  let ?kvs = "map (map_prod id the_elem) c"
  have lookup: "map_of (fold (\<lambda>(nm, t). bm_insert nm t) ?kvs []) nm
      = (if targets_of c nm = {} then None else Some (the_elem (targets_of c nm)))" for nm
  proof -
    have "distinct (map fst ?kvs)" using dist by (simp add: comp_def)
    then have "map_of (fold (\<lambda>(nm, t). bm_insert nm t) ?kvs []) nm = map_of ?kvs nm"
      by (rule bm.get_filled_distinct)
    also have "\<dots> = map_option the_elem (map_of c nm)" by (induction c) auto
    finally show ?thesis by (simp add: tidy_lookup [OF c])
  qed
  have run: "module_exports ms (m, c) = try_fold (export_step (md_path (ms ! m))) [] c"
    using m by (simp add: module_exports_def index_at_def)
  show ?thesis
  proof (cases "\<forall>nm. card (targets_of c nm) \<le> 1")
    case True
    from export_fold [OF ok, of "md_path (ms ! m)" "[]"] lookup bm.filled_sorted [of ?kvs] show ?thesis
      unfolding single run if_P [OF True] by blast
  next
    case False
    from export_fold [OF ok, of "md_path (ms ! m)" "[]"] obtain e where
      "e \<in> set c" "1 < card (snd e)" "try_fold (export_step (md_path (ms ! m))) [] c = Err (AmbiguousExport (md_path (ms ! m)) (fst e))"
      unfolding single if_not_P [OF False] by (auto simp: split_beta)
    with elem [of "fst e" "snd e"] show ?thesis unfolding run if_not_P [OF False] by (intro exI [of _ "fst e"]) simp
  qed
qed

section \<open>The table\<close>

lemma namespace_table_decides:
  assumes "graph_ok ms imports"
  shows "\<exists>r. namespace_table_new ms imports = Some r \<and>
    (if \<exists>m < length ms. \<not> distinct (alias_names (imports ! m))
     then \<exists>m < length ms. \<exists>nm. \<not> distinct (alias_names (imports ! m)) \<and> r = Err (DuplicateAlias (md_path (ms ! m)) nm)
     else if \<exists>m < length ms. \<exists>nm. 1 < card (visible ms imports m nm)
     then \<exists>m < length ms. \<exists>nm. 1 < card (visible ms imports m nm) \<and> r = Err (AmbiguousExport (md_path (ms ! m)) nm)
     else \<exists>table. r = Ok table \<and> length table = length ms
       \<and> (\<forall>m < length ms. sorted_wrt (<) (bm_keys (table ! m)) \<and> (\<forall>nm. map_of (table ! m) nm =
          (if visible ms imports m nm = {} then None else Some (the_elem (visible ms imports m nm))))))"
proof -
  have decided: "if distinct (alias_names (imports ! m)) then \<exists>c. module_candidates ms imports m = Ok c
      else \<exists>e. module_candidates ms imports m = Err e \<and> (\<exists>nm. e = DuplicateAlias (md_path (ms ! m)) nm)"
    if "m \<in> set [0..<length ms]" for m
    using module_candidates_eq [of m ms "imports"] that graph_okD(1) [OF assms] by (auto split: if_splits)
  note candidates = try_map_decides [of "[0..<length ms]" "\<lambda>m. distinct (alias_names (imports ! m))" "module_candidates ms imports"
    "\<lambda>m e. \<exists>nm. e = DuplicateAlias (md_path (ms ! m)) nm", OF decided]
  show ?thesis
  proof (cases "\<forall>m \<in> set [0..<length ms]. distinct (alias_names (imports ! m))")
    case False
    from candidates [unfolded if_not_P [OF False]] obtain m nm where
      "m < length ms" "\<not> distinct (alias_names (imports ! m))"
      "try_map (module_candidates ms imports) [0..<length ms] = Err (DuplicateAlias (md_path (ms ! m)) nm)"
      by auto
    then show ?thesis by (auto simp: namespace_table_new_def)
  next
    case True
    from candidates [unfolded if_P [OF True]] obtain cs where
      cs: "try_map (module_candidates ms imports) [0..<length ms] = Ok cs" by blast
    then have each: "length cs = length ms" "\<And>m. m < length ms \<Longrightarrow> module_candidates ms imports m = Ok (cs ! m)"
      by (auto simp: try_map_Ok_iff list_all2_conv_all_nth)
    have inv: "table_inv ms imports cs"
      unfolding table_inv_def
    proof (intro conjI allI impI)
      fix m assume m: "m < length ms"
      then obtain d where "module_candidates ms imports m = Ok d" "tidy d" "\<And>nm. targets_of d nm = direct ms imports m nm"
        using module_candidates_eq [OF m graph_okD(1) [OF assms m]] True by auto
      with each(2) [OF m] have d: "tidy (cs ! m)" "\<And>nm. targets_of (cs ! m) nm = direct ms imports m nm" by auto
      then show "tidy (cs ! m)" by simp
      show "direct ms imports m nm \<subseteq> targets_of (cs ! m) nm" "targets_of (cs ! m) nm \<subseteq> visible ms imports m nm" for nm
        unfolding d(2) by (auto simp: visible_def)
    qed (rule each(1))
    from settle_exact [OF assms inv] obtain cs' where cs': "settle imports cs = Some (Ok cs')" "table_inv ms imports cs'"
      "\<And>m nm. m < length ms \<Longrightarrow> targets_of (cs' ! m) nm = visible ms imports m nm" by blast
    then have len: "length cs' = length ms" by (simp add: table_inv_def)
    have new: "namespace_table_new ms imports = Some (try_map (module_exports ms) (enumerate 0 cs'))"
      by (simp add: namespace_table_new_def cs cs'(1))
    have enum: "e \<in> set (enumerate 0 cs') \<longleftrightarrow> fst e < length ms \<and> e = (fst e, cs' ! fst e)" for e
      by (cases e) (auto simp: in_set_enumerate_eq len)
    have exports: "if \<forall>nm. card (visible ms imports m nm) \<le> 1
      then \<exists>ex. module_exports ms (m, cs' ! m) = Ok ex \<and> sorted_wrt (<) (bm_keys ex) \<and> (\<forall>nm. map_of ex nm =
        (if visible ms imports m nm = {} then None else Some (the_elem (visible ms imports m nm))))
      else \<exists>nm. 1 < card (visible ms imports m nm) \<and> module_exports ms (m, cs' ! m) = Err (AmbiguousExport (md_path (ms ! m)) nm)"
      if m: "m < length ms" for m
    proof -
      have "finite (targets_of (cs' ! m) nm)" for nm
        unfolding cs'(3) [OF m] by (rule finite_visible_at [OF assms m])
      moreover have "tidy (cs' ! m)" using cs'(2) m by (simp add: table_inv_def)
      ultimately show ?thesis using module_exports_eq [OF m, of "cs' ! m"] unfolding cs'(3) [OF m] by simp
    qed
    have decide: "if \<forall>nm. card (visible ms imports (fst e) nm) \<le> 1 then \<exists>ex. module_exports ms e = Ok ex
      else \<exists>err. module_exports ms e = Err err
        \<and> (\<exists>nm. 1 < card (visible ms imports (fst e) nm) \<and> err = AmbiguousExport (md_path (ms ! fst e)) nm)"
      if "e \<in> set (enumerate 0 cs')" for e
      using exports [of "fst e"] that unfolding enum by (cases e) (auto split: if_splits)
    note tables = try_map_decides [of "enumerate 0 cs'" "\<lambda>e. \<forall>nm. card (visible ms imports (fst e) nm) \<le> 1" "module_exports ms"
      "\<lambda>e err. \<exists>nm. 1 < card (visible ms imports (fst e) nm) \<and> err = AmbiguousExport (md_path (ms ! fst e)) nm", OF decide]
    show ?thesis
    proof (cases "\<forall>e \<in> set (enumerate 0 cs'). \<forall>nm. card (visible ms imports (fst e) nm) \<le> 1")
      case False
      from tables [unfolded if_not_P [OF False]] obtain e nm where e: "e \<in> set (enumerate 0 cs')"
        "1 < card (visible ms imports (fst e) nm)"
        "try_map (module_exports ms) (enumerate 0 cs') = Err (AmbiguousExport (md_path (ms ! fst e)) nm)"
        by auto
      then have "fst e < length ms" using enum by blast
      with e True show ?thesis by (auto simp: new)
    next
      case small: True
      from tables [unfolded if_P [OF small]] obtain table where
        table: "try_map (module_exports ms) (enumerate 0 cs') = Ok table" by blast
      then have entry: "length table = length ms" "\<And>m. m < length ms \<Longrightarrow> module_exports ms (m, cs' ! m) = Ok (table ! m)"
        by (auto simp: try_map_Ok_iff list_all2_conv_all_nth len nth_enumerate_eq)
      have le: "card (visible ms imports m nm) \<le> 1" if "m < length ms" for m nm
        using small that enum [of "(m, cs' ! m)"] by force
      have "sorted_wrt (<) (bm_keys (table ! m)) \<and> (\<forall>nm. map_of (table ! m) nm =
          (if visible ms imports m nm = {} then None else Some (the_elem (visible ms imports m nm))))" if "m < length ms" for m
        using exports [OF that] le [OF that] entry(2) [OF that] by auto
      moreover have "\<not> (\<exists>m < length ms. \<not> distinct (alias_names (imports ! m)))" using True by simp
      moreover have "\<not> (\<exists>m < length ms. \<exists>nm. 1 < card (visible ms imports m nm))" using le by (auto simp: not_less)
      ultimately show ?thesis using new table entry(1) by (simp only: if_False) blast
    qed
  qed
qed

lemma namespace_table_OkD:
  assumes g: "graph_ok ms imports" and ok: "namespace_table_new ms imports = Some (Ok table)"
  shows "length table = length ms"
    and "m < length ms \<Longrightarrow> map_of (table ! m) nm =
      (if visible ms imports m nm = {} then None else Some (the_elem (visible ms imports m nm)))"
    and "m < length ms \<Longrightarrow> card (visible ms imports m nm) \<le> 1"
    and "m < length ms \<Longrightarrow> sorted_wrt (<) (bm_keys (table ! m))"
proof -
  let ?dup = "\<exists>m < length ms. \<not> distinct (alias_names (imports ! m))"
  let ?amb = "\<exists>m < length ms. \<exists>nm. 1 < card (visible ms imports m nm)"
  note decides = namespace_table_decides [OF g, unfolded ok option.inject ex_simps simp_thms]
  have dup: "\<not> ?dup"
  proof
    assume d: ?dup
    from decides show False unfolding if_P [OF d] by auto
  qed
  have amb: "\<not> ?amb"
  proof
    assume a: ?amb
    from decides show False unfolding if_not_P [OF dup] if_P [OF a] by auto
  qed
  from decides have t: "length table = length ms \<and> (\<forall>m < length ms. sorted_wrt (<) (bm_keys (table ! m))
      \<and> (\<forall>nm. map_of (table ! m) nm =
          (if visible ms imports m nm = {} then None else Some (the_elem (visible ms imports m nm)))))"
    unfolding if_not_P [OF dup] if_not_P [OF amb] by auto
  then show "length table = length ms" by simp
  show "sorted_wrt (<) (bm_keys (table ! m))" if "m < length ms" using t that by simp
  show "map_of (table ! m) nm =
      (if visible ms imports m nm = {} then None else Some (the_elem (visible ms imports m nm)))" if "m < length ms"
    using t that by simp
  show "card (visible ms imports m nm) \<le> 1" if "m < length ms"
  proof (rule ccontr)
    assume "\<not> card (visible ms imports m nm) \<le> 1"
    then have "1 < card (visible ms imports m nm)" by simp
    with that amb show False by blast
  qed
qed

text \<open>
  C27: The namespace table of a well-formed module graph is computed in finitely many rounds
  without a panic. It is refused exactly when a module imports two modules under one alias, or
  sees two targets of one name through any number of imports without an alias; otherwise every
  module offers exactly the names it sees, each with its one target.
\<close>

theorem namespace_table_exact:
  assumes "graph_ok ms imports"
  shows "\<exists>r. namespace_table_new ms imports = Some r \<and>
    (if \<exists>m < length ms. \<not> distinct (alias_names (imports ! m))
     then \<exists>m < length ms. \<exists>nm. \<not> distinct (alias_names (imports ! m)) \<and> r = Err (DuplicateAlias (md_path (ms ! m)) nm)
     else if \<exists>m < length ms. \<exists>nm. 1 < card (visible ms imports m nm)
     then \<exists>m < length ms. \<exists>nm. 1 < card (visible ms imports m nm) \<and> r = Err (AmbiguousExport (md_path (ms ! m)) nm)
     else \<exists>table. r = Ok table \<and> length table = length ms
       \<and> (\<forall>m < length ms. sorted_wrt (<) (bm_keys (table ! m)) \<and> (\<forall>nm. map_of (table ! m) nm =
          (if visible ms imports m nm = {} then None else Some (the_elem (visible ms imports m nm))))))"
  by (rule namespace_table_decides [OF assms])

section \<open>Two modules\<close>

definition demo_module :: "string \<Rightarrow> import_decl list \<Rightarrow> string \<Rightarrow> app_decl list \<Rightarrow> module_decl" where
  "demo_module file imps actor apps = \<lparr>md_path = [Normal file], md_imports = imps, md_consts = [], md_states = [], md_functions = [],
     md_actors = [\<lparr>ac_name = actor, ac_state = ''S'', ac_functions = [], ac_entries = []\<rparr>], md_actor_enums = [], md_apps = apps\<rparr>"

definition demo_modules :: "module_decl list" where
  "demo_modules =
     [demo_module ''root.ag'' [\<lparr>im_path = ''./dep.ag'', im_alias = Some ''dep''\<rparr>] ''Root'' [\<lparr>ap_name = ''RootApp'', ap_actors = [''Root'']\<rparr>],
      demo_module ''dep.ag'' [] ''Dep'' [\<lparr>ap_name = ''DepApp'', ap_actors = [''Dep'']\<rparr>]]"

definition demo_imports :: "resolved_import list list" where
  "demo_imports = [[\<lparr>ri_target = 1, ri_alias = Some ''dep''\<rparr>], []]"

definition demo_table :: namespace_table where
  "demo_table =
     [[(''Root'', Declaration (DeclId 0 Actor 0)), (''RootApp'', Declaration (DeclId 0 App 0)), (''dep'', Module 1)],
      [(''Dep'', Declaration (DeclId 1 Actor 0)), (''DepApp'', Declaration (DeclId 1 App 0))]]"

lemma demo_graph_ok: "graph_ok demo_modules demo_imports"
  by (simp add: graph_ok_def demo_modules_def demo_imports_def)

lemma demo_table_built: "namespace_table_new demo_modules demo_imports = Some (Ok demo_table)"
  by code_simp

lemma namespace_table_exact_witness:
  "visible demo_modules demo_imports 0 ''dep'' = {Module 1} \<and> visible demo_modules demo_imports 0 ''Dep'' = {}"
proof -
  let ?v = "visible demo_modules demo_imports"
  note decides = namespace_table_exact [OF demo_graph_ok, unfolded demo_table_built option.inject ex_simps simp_thms]
  have dup: "\<not> (\<exists>m < length demo_modules. \<not> distinct (alias_names (demo_imports ! m)))"
  proof
    assume d: "\<exists>m < length demo_modules. \<not> distinct (alias_names (demo_imports ! m))"
    from decides show False unfolding if_P [OF d] by auto
  qed
  have amb: "\<not> (\<exists>m < length demo_modules. \<exists>nm. 1 < card (?v m nm))"
  proof
    assume a: "\<exists>m < length demo_modules. \<exists>nm. 1 < card (?v m nm)"
    from decides show False unfolding if_not_P [OF dup] if_P [OF a] by auto
  qed
  have m: "0 < length demo_modules" by (simp add: demo_modules_def)
  from decides m have look: "map_of (demo_table ! 0) nm = (if ?v 0 nm = {} then None else Some (the_elem (?v 0 nm)))" for nm
    unfolding if_not_P [OF dup] if_not_P [OF amb] by auto
  have some: "?v 0 ''dep'' \<noteq> {}" "the_elem (?v 0 ''dep'') = Module 1"
    using look [of "''dep''"] by (auto simp: demo_table_def split: if_splits)
  moreover have "card (?v 0 ''dep'') = 1"
  proof -
    have "0 < card (?v 0 ''dep'')" using some(1) finite_visible_at [OF demo_graph_ok m] by (simp add: card_gt_0_iff)
    moreover have "\<not> 1 < card (?v 0 ''dep'')" using amb m by blast
    ultimately show ?thesis by simp
  qed
  then obtain x where "?v 0 ''dep'' = {x}" by (rule card_1_singletonE)
  moreover have "?v 0 ''Dep'' = {}" using look [of "''Dep''"] by (auto simp: demo_table_def split: if_splits)
  ultimately show ?thesis by simp
qed

end
