(* ===== verification/Name_Resolution.thy ===== *)
theory Name_Resolution
  imports Namespaces
begin

text \<open>
  Names and views of a resolved program (\<^verbatim>\<open>src/compiler/resolve/mod.rs\<close> and the lookup half of
  \<^verbatim>\<open>namespaces.rs\<close>): qualified references, app members, the modules a root reaches, the
  closure of what declarations reference, and the display names of a selected closure. What the
  references inside one declaration name is found by walking Silverscript syntax trees
  (\<^verbatim>\<open>bindings.rs\<close>), so it enters as an argument. The recursion between references and app
  members has no bound in the code: \<^const>\<open>None\<close> stands for a call that never returns.
\<close>

section \<open>Calls that may not return\<close>

definition bind_run ::
  "('e, 'a) outcome option \<Rightarrow> ('a \<Rightarrow> ('e, 'b) outcome option) \<Rightarrow> ('e, 'b) outcome option" where
  "bind_run m f = Option.bind m (\<lambda>r. case r of Ok x \<Rightarrow> f x | Err e \<Rightarrow> Some (Err e) | Panic \<Rightarrow> Some Panic)"

lemma bind_run_simps [simp]:
  "bind_run None f = None" "bind_run (Some (Ok x)) f = f x"
  "bind_run (Some (Err e)) f = Some (Err e)" "bind_run (Some Panic) f = Some Panic"
  by (simp_all add: bind_run_def)

lemma bind_run_Some_iff:
  "bind_run m f = Some r \<longleftrightarrow> (\<exists>x. m = Some (Ok x) \<and> f x = Some r)
    \<or> (\<exists>e. m = Some (Err e) \<and> r = Err e) \<or> (m = Some Panic \<and> r = Panic)"
proof (cases m)
  case (Some s)
  then show ?thesis by (cases s) auto
qed simp

lemma bind_run_Ok_iff: "bind_run m f = Some (Ok y) \<longleftrightarrow> (\<exists>x. m = Some (Ok x) \<and> f x = Some (Ok y))"
  by (auto simp: bind_run_Some_iff)

fun try_fold_run :: "('s \<Rightarrow> 'a \<Rightarrow> ('e, 's) outcome option) \<Rightarrow> 's \<Rightarrow> 'a list \<Rightarrow> ('e, 's) outcome option" where
  "try_fold_run f s [] = Some (Ok s)"
| "try_fold_run f s (x # xs) = bind_run (f s x) (\<lambda>s'. try_fold_run f s' xs)"

lemma bind_run_mono [partial_function_mono]:
  assumes "mono_option A" "\<And>y. mono_option (\<lambda>f. B y f)"
  shows "mono_option (\<lambda>f. bind_run (A f) (\<lambda>y. B y f))"
  unfolding bind_run_def
proof (rule bind_mono [OF assms(1)])
  fix r
  show "mono_option (\<lambda>f. case r of Ok x \<Rightarrow> B x f | Err e \<Rightarrow> Some (Err e) | Panic \<Rightarrow> Some Panic)"
    by (cases r) (simp_all add: assms(2) option.const_mono)
qed

lemma try_fold_run_mono [partial_function_mono]:
  assumes "\<And>s x. mono_option (\<lambda>f. B s x f)"
  shows "mono_option (\<lambda>f. try_fold_run (\<lambda>s x. B s x f) s xs)"
proof (induction xs arbitrary: s)
  case (Cons x xs)
  show ?case unfolding try_fold_run.simps by (rule bind_run_mono [OF assms Cons.IH])
qed (simp add: option.const_mono)

section \<open>The resolved program\<close>

record source_module =
  sm_display_path :: path
  sm_legacy :: module_decl

text \<open>\<open>pg_source\<close> is \<^verbatim>\<open>SourceNodeIndex::source\<close>: the source a declaration was written in.\<close>

record program =
  pg_modules :: "source_module list"
  pg_source :: "decl_id \<Rightarrow> module_id"

record decl_bindings =
  db_declarations :: "decl_id set"
  db_apps :: "app_member set"

record module_view =
  mv_root :: module_id
  mv_reachable :: "module_id list"

instantiation symbol_kind :: linorder
begin

definition kind_rank :: "symbol_kind \<Rightarrow> nat" where
  "kind_rank kind = (case kind of Const \<Rightarrow> 0 | State \<Rightarrow> 1 | Function \<Rightarrow> 2 | Actor \<Rightarrow> 3 | ActorEnum \<Rightarrow> 4 | App \<Rightarrow> 5)"

definition less_eq_symbol_kind :: "symbol_kind \<Rightarrow> symbol_kind \<Rightarrow> bool" where
  "a \<le> b \<longleftrightarrow> kind_rank a \<le> kind_rank b"

definition less_symbol_kind :: "symbol_kind \<Rightarrow> symbol_kind \<Rightarrow> bool" where
  "a < b \<longleftrightarrow> kind_rank a < kind_rank b"

instance
proof
  fix a b :: symbol_kind
  show "a \<le> b \<Longrightarrow> b \<le> a \<Longrightarrow> a = b"
    by (cases a; cases b) (simp_all add: less_eq_symbol_kind_def kind_rank_def)
qed (auto simp: less_eq_symbol_kind_def less_symbol_kind_def)

end

fun decl_key :: "decl_id \<Rightarrow> nat \<times> symbol_kind \<times> nat" where
  "decl_key (DeclId m kind index) = (m, kind, index)"

lemma decl_key_inject: "decl_key a = decl_key b \<longleftrightarrow> a = b"
  by (cases a; cases b) simp

instantiation decl_id :: linorder
begin

definition less_eq_decl_id :: "decl_id \<Rightarrow> decl_id \<Rightarrow> bool" where
  "a \<le> b \<longleftrightarrow> decl_key a \<le> decl_key b"

definition less_decl_id :: "decl_id \<Rightarrow> decl_id \<Rightarrow> bool" where
  "a < b \<longleftrightarrow> decl_key a < decl_key b"

instance
  by standard (auto simp: less_eq_decl_id_def less_decl_id_def decl_key_inject [symmetric])

end

record resolved_modules =
  rs_program :: program
  rs_imports :: "resolved_import list list"
  rs_view :: module_view
  rs_exports :: namespace_table
  rs_bindings :: "(decl_id, decl_bindings) btree"

definition modules_of :: "resolved_modules \<Rightarrow> module_decl list" where
  "modules_of rs = map sm_legacy (pg_modules (rs_program rs))"

text \<open>\<^verbatim>\<open>ArgentError::at(&module(id).path, ..)\<close>\<close>

definition fail_at :: "resolved_modules \<Rightarrow> module_id \<Rightarrow> (path \<Rightarrow> resolve_error) \<Rightarrow> (resolve_error, 'a) outcome" where
  "fail_at rs m E = and_then (index_at (modules_of rs) m) (\<lambda>d. Err (E (md_path d)))"

datatype resolved_declaration =
    AConst const_decl | AState state_decl | AFunction function_decl
  | AnActor actor_decl | AnActorEnum actor_enum_decl | AnApp app_decl

definition declaration_in_module :: "module_decl \<Rightarrow> decl_id \<Rightarrow> (resolve_error, resolved_declaration) outcome" where
  "declaration_in_module m did = (case dc_kind did of
       Const \<Rightarrow> and_then (index_at (md_consts m) (dc_index did)) (\<lambda>d. Ok (AConst d))
     | State \<Rightarrow> and_then (index_at (md_states m) (dc_index did)) (\<lambda>d. Ok (AState d))
     | Function \<Rightarrow> and_then (index_at (md_functions m) (dc_index did)) (\<lambda>d. Ok (AFunction d))
     | Actor \<Rightarrow> and_then (index_at (md_actors m) (dc_index did)) (\<lambda>d. Ok (AnActor d))
     | ActorEnum \<Rightarrow> and_then (index_at (md_actor_enums m) (dc_index did)) (\<lambda>d. Ok (AnActorEnum d))
     | App \<Rightarrow> and_then (index_at (md_apps m) (dc_index did)) (\<lambda>d. Ok (AnApp d)))"

definition find_declaration :: "resolved_modules \<Rightarrow> decl_id \<Rightarrow> (resolve_error, resolved_declaration) outcome" where
  "find_declaration rs did = and_then (index_at (modules_of rs) (dc_module did)) (\<lambda>m. declaration_in_module m did)"

fun decl_name :: "resolved_declaration \<Rightarrow> string" where
  "decl_name (AConst d) = cn_name d"
| "decl_name (AState d) = st_name d"
| "decl_name (AFunction d) = fn_name d"
| "decl_name (AnActor d) = ac_name d"
| "decl_name (AnActorEnum d) = ae_name d"
| "decl_name (AnApp d) = ap_name d"

section \<open>References\<close>

definition colon :: char where
  "colon = CHR '':''"

text \<open>\<^verbatim>\<open>split("::")\<close>\<close>

fun split_names :: "string \<Rightarrow> string list" where
  "split_names [] = [[]]"
| "split_names [c] = [[c]]"
| "split_names (c # d # rest) =
     (if c = colon \<and> d = colon then [] # split_names rest
      else (case split_names (d # rest) of [] \<Rightarrow> [[c]] | word # others \<Rightarrow> (c # word) # others))"

lemma split_names_nonempty: "split_names s \<noteq> []"
  by (induction s rule: split_names.induct) (auto split: list.splits)

text \<open>
  \<^verbatim>\<open>bind_export_path\<close> with the call it makes for \<^verbatim>\<open>app::Actor\<close> as an argument; the loop keeps
  the segments still to be read and the module they are read in.
\<close>

fun walk_path ::
  "(decl_id \<Rightarrow> string \<Rightarrow> (resolve_error, resolved_name) outcome option) \<Rightarrow> resolved_modules \<Rightarrow> module_id \<Rightarrow> string \<Rightarrow>
    module_id \<Rightarrow> string list \<Rightarrow> (resolve_error, resolved_name) outcome option" where
  "walk_path member rs from_module reference current [] = Some (fail_at rs from_module (\<lambda>p. InvalidReference p reference))"
| "walk_path member rs from_module reference current (segment # rest) =
     (if \<not> is_identifier segment then Some (fail_at rs from_module (\<lambda>p. InvalidReference p reference))
      else bind_run (Some (index_at (rs_exports rs) current)) (\<lambda>exports.
        case map_of exports segment of
          None \<Rightarrow> Some (fail_at rs from_module (\<lambda>p. UnknownExport p segment reference))
        | Some target \<Rightarrow>
            if rest = [] then Some (Ok target)
            else (case target of
                Module imported \<Rightarrow> walk_path member rs from_module reference imported rest
              | Declaration app \<Rightarrow>
                  if dc_kind app = App \<and> length rest = 1 then member app (hd rest)
                  else Some (fail_at rs from_module (\<lambda>p. NotANamespace p segment reference))
              | Member m \<Rightarrow> Some (fail_at rs from_module (\<lambda>p. NotANamespace p segment reference)))))"

lemma walk_path_mono [partial_function_mono]:
  assumes "\<And>app name. mono_option (\<lambda>f. B app name f)"
  shows "mono_option (\<lambda>f. walk_path (\<lambda>app name. B app name f) rs from_module reference current segments)"
proof (induction segments arbitrary: current)
  case (Cons segment rest)
  have follow: "mono_option (\<lambda>f. if rest = [] then Some (Ok target)
      else (case target of
          Module imported \<Rightarrow> walk_path (\<lambda>app name. B app name f) rs from_module reference imported rest
        | Declaration app \<Rightarrow> if dc_kind app = App \<and> length rest = 1 then B app (hd rest) f else Some (e1 app)
        | Member m \<Rightarrow> Some (e2 m)))" for target e1 e2
  proof (cases target)
    case (Declaration app)
    then show ?thesis
      by (cases "rest = []"; cases "dc_kind app = App \<and> length rest = 1")
        (simp_all only: if_True if_False simp_thms resolved_name.case option.const_mono assms)
  qed (cases "rest = []"; simp add: option.const_mono Cons.IH)+
  have lookup: "mono_option (\<lambda>f. case found of None \<Rightarrow> Some e0 | Some target \<Rightarrow> g f target)"
    if "\<And>target. mono_option (\<lambda>f. g f target)" for found e0 g
    using that by (cases found) (simp_all add: option.const_mono)
  show ?case
    unfolding walk_path.simps
    by (cases "is_identifier segment") (simp_all only: if_True if_False not_True_eq_False not_False_eq_True
        option.const_mono bind_run_mono lookup follow)
qed (simp add: option.const_mono)

text \<open>One member of an app, compared with the actor that is asked for.\<close>

definition match_member ::
  "resolved_modules \<Rightarrow> decl_id \<Rightarrow> app_decl \<Rightarrow> string \<Rightarrow> string \<Rightarrow> decl_id option \<Rightarrow> resolved_name \<Rightarrow>
    (resolve_error, decl_id option) outcome" where
  "match_member rs app d actor_name actor_reference matching target = (case target of
       Declaration actor \<Rightarrow>
         if dc_kind actor \<noteq> Actor then Ok matching
         else and_then (find_declaration rs actor) (\<lambda>a. case a of
             AnActor actor_decl \<Rightarrow>
               if ac_name actor_decl = actor_name
               then (if matching \<noteq> None then fail_at rs (dc_module app) (\<lambda>p. MemberTwice p (ap_name d) actor_name)
                     else Ok (Some actor))
               else Ok matching
           | _ \<Rightarrow> Panic)
     | _ \<Rightarrow> fail_at rs (dc_module app) (\<lambda>p. MemberNotLocal p (ap_name d) actor_reference))"

partial_function (option) resolve_app_member ::
  "resolved_modules \<Rightarrow> module_id \<Rightarrow> decl_id \<Rightarrow> string \<Rightarrow> string \<Rightarrow> (resolve_error, resolved_name) outcome option" where
  "resolve_app_member rs from_module app actor_name reference =
     bind_run (Some (find_declaration rs app)) (\<lambda>a. case a of
         AnApp d \<Rightarrow>
           bind_run (try_fold_run (\<lambda>matching actor_reference.
               bind_run (walk_path (\<lambda>app' name. resolve_app_member rs (dc_module app) app' name actor_reference)
                   rs (dc_module app) actor_reference (dc_module app) (split_names actor_reference))
                 (\<lambda>target. Some (match_member rs app d actor_name actor_reference matching target)))
             None (ap_actors d))
           (\<lambda>matching. Some (case matching of
               Some actor \<Rightarrow> Ok (Member \<lparr>am_app = app, am_actor = actor\<rparr>)
             | None \<Rightarrow> fail_at rs from_module (\<lambda>p. NoSuchMember p (ap_name d) actor_name reference)))
       | _ \<Rightarrow> Some Panic)"

definition bind_export_path ::
  "resolved_modules \<Rightarrow> module_id \<Rightarrow> string list \<Rightarrow> string \<Rightarrow> (resolve_error, resolved_name) outcome option" where
  "bind_export_path rs from_module segments reference =
     walk_path (\<lambda>app name. resolve_app_member rs from_module app name reference) rs from_module reference from_module segments"

definition resolve :: "resolved_modules \<Rightarrow> module_id \<Rightarrow> string \<Rightarrow> (resolve_error, resolved_name) outcome option" where
  "resolve rs from_module reference =
     (let segments = split_names reference in
      if segments = [] then Some (fail_at rs from_module EmptyReference)
      else bind_export_path rs from_module segments reference)"

lemma resolve_eq:
  "resolve rs from_module reference =
    walk_path (\<lambda>app name. resolve_app_member rs from_module app name reference) rs from_module reference from_module
      (split_names reference)"
  by (simp add: resolve_def bind_export_path_def split_names_nonempty)

text \<open>The members of an app are its references, resolved where the app is declared.\<close>

definition app_member_step ::
  "resolved_modules \<Rightarrow> decl_id \<Rightarrow> app_decl \<Rightarrow> string \<Rightarrow> decl_id option \<Rightarrow> string \<Rightarrow>
    (resolve_error, decl_id option) outcome option" where
  "app_member_step rs app d actor_name matching actor_reference =
     bind_run (resolve rs (dc_module app) actor_reference)
       (\<lambda>target. Some (match_member rs app d actor_name actor_reference matching target))"

lemma resolve_app_member_eq:
  "find_declaration rs app = Ok (AnApp d) \<Longrightarrow> resolve_app_member rs from_module app actor_name reference =
     bind_run (try_fold_run (app_member_step rs app d actor_name) None (ap_actors d))
       (\<lambda>matching. Some (case matching of
           Some actor \<Rightarrow> Ok (Member \<lparr>am_app = app, am_actor = actor\<rparr>)
         | None \<Rightarrow> fail_at rs from_module (\<lambda>p. NoSuchMember p (ap_name d) actor_name reference)))"
  by (subst resolve_app_member.simps) (simp add: app_member_step_def [abs_def] resolve_eq)

section \<open>Valid targets\<close>

definition decl_count :: "module_decl \<Rightarrow> symbol_kind \<Rightarrow> nat" where
  "decl_count m kind = (case kind of
       Const \<Rightarrow> length (md_consts m) | State \<Rightarrow> length (md_states m) | Function \<Rightarrow> length (md_functions m)
     | Actor \<Rightarrow> length (md_actors m) | ActorEnum \<Rightarrow> length (md_actor_enums m) | App \<Rightarrow> length (md_apps m))"

definition declared :: "module_decl list \<Rightarrow> decl_id \<Rightarrow> bool" where
  "declared ms did \<longleftrightarrow> dc_module did < length ms \<and> dc_index did < decl_count (ms ! dc_module did) (dc_kind did)"

fun target_ok :: "module_decl list \<Rightarrow> resolved_name \<Rightarrow> bool" where
  "target_ok ms (Module m) \<longleftrightarrow> m < length ms"
| "target_ok ms (Declaration did) \<longleftrightarrow> declared ms did"
| "target_ok ms (Member m) \<longleftrightarrow> False"

definition exports_ok :: "resolved_modules \<Rightarrow> bool" where
  "exports_ok rs \<longleftrightarrow> length (rs_exports rs) = length (modules_of rs)
     \<and> (\<forall>m < length (modules_of rs). distinct (bm_keys (rs_exports rs ! m)) \<and> (\<forall>nm target. map_of (rs_exports rs ! m) nm = Some target \<longrightarrow> target_ok (modules_of rs) target))"

lemma visible_ok:
  assumes "graph_ok ms imports" "m < length ms" "t \<in> visible ms imports m nm"
  shows "target_ok ms t"
proof -
  obtain k where k: "(m, k) \<in> (import_edges imports)\<^sup>*" "t \<in> direct ms imports k nm"
    using assms(3) by (auto simp: visible_def)
  have "k < length ms" using k(1) assms(2) by induction (auto dest: edge_range [OF assms(1)])
  then show ?thesis
    using k(2) graph_okD(2) [OF assms(1), of k]
    by (auto simp: direct_def declared_def declared_names_def numbered_def decl_count_def in_set_enumerate_eq)
qed

text \<open>The table of a well-formed graph names only what exists.\<close>

lemma table_exports_ok:
  assumes g: "graph_ok (modules_of rs) (rs_imports rs)"
    and table: "namespace_table_new (modules_of rs) (rs_imports rs) = Some (Ok (rs_exports rs))"
  shows "exports_ok rs"
proof -
  note t = namespace_table_OkD [OF g table]
  have "target_ok (modules_of rs) target" if "m < length (modules_of rs)" "map_of (rs_exports rs ! m) nm = Some target" for m nm target
  proof -
    let ?v = "visible (modules_of rs) (rs_imports rs) m nm"
    have v: "?v \<noteq> {}" "target = the_elem ?v" using that(2) unfolding t(2) [OF that(1)] by (auto split: if_splits)
    have "finite ?v" by (rule finite_visible_at [OF g that(1)])
    with v(1) have "0 < card ?v" by (simp add: card_gt_0_iff)
    with t(3) [OF that(1), of nm] have "card ?v = 1" by simp
    then obtain x where "?v = {x}" by (rule card_1_singletonE)
    then have "the_elem ?v \<in> ?v" by simp
    from visible_ok [OF g that(1) this] show ?thesis unfolding v(2) .
  qed
  with t(1) sorted_keys_distinct [OF t(4)] show ?thesis by (simp add: exports_ok_def)
qed

lemma find_declaration_declared:
  assumes "declared (modules_of rs) did"
  shows "\<exists>d. find_declaration rs did = Ok d"
    "dc_kind did = App \<Longrightarrow> \<exists>d. find_declaration rs did = Ok (AnApp d)"
    "dc_kind did = Actor \<Longrightarrow> \<exists>d. find_declaration rs did = Ok (AnActor d)"
  using assms
  by (cases "dc_kind did"; simp add: declared_def find_declaration_def index_at_def declaration_in_module_def decl_count_def)+

lemma fail_at_Err: "m < length (modules_of rs) \<Longrightarrow> \<exists>e. fail_at rs m E = Err e"
  by (simp add: fail_at_def index_at_def)

lemma fail_at_not_Ok [simp]: "fail_at rs m E \<noteq> Ok x"
  by (simp add: fail_at_def index_at_def)

section \<open>Where a path ends\<close>

text \<open>
  The specification of a qualified reference: it ends at a target of the table (\<^const>\<open>Inl\<close>), or
  it asks an app for a member (\<^const>\<open>Inr\<close>), or it names nothing.
\<close>

fun path_end :: "resolved_modules \<Rightarrow> module_id \<Rightarrow> string list \<Rightarrow> (resolved_name + decl_id \<times> string) option" where
  "path_end rs current [] = None"
| "path_end rs current (segment # rest) =
     (case map_of (rs_exports rs ! current) segment of
        None \<Rightarrow> None
      | Some target \<Rightarrow>
          if \<not> is_identifier segment then None
          else if rest = [] then Some (Inl target)
          else (case target of
              Module imported \<Rightarrow> path_end rs imported rest
            | Declaration app \<Rightarrow> if dc_kind app = App \<and> length rest = 1 then Some (Inr (app, hd rest)) else None
            | Member m \<Rightarrow> None))"

lemma exports_okD:
  assumes "exports_ok rs" "m < length (modules_of rs)"
  shows "m < length (rs_exports rs)" "map_of (rs_exports rs ! m) nm = Some t \<Longrightarrow> target_ok (modules_of rs) t"
  using assms by (auto simp: exports_ok_def)

lemma exports_keys:
  assumes "exports_ok rs" "m < length (modules_of rs)"
  shows "distinct (bm_keys (rs_exports rs ! m))"
  using assms by (simp add: exports_ok_def)

lemma walk_path_end:
  assumes "exports_ok rs" and "from_module < length (modules_of rs)" and "current < length (modules_of rs)"
  shows "case path_end rs current segments of
      None \<Rightarrow> \<exists>e. walk_path member rs from_module reference current segments = Some (Err e)
    | Some (Inl t) \<Rightarrow> walk_path member rs from_module reference current segments = Some (Ok t) \<and> target_ok (modules_of rs) t
    | Some (Inr (app, nm)) \<Rightarrow> walk_path member rs from_module reference current segments = member app nm
        \<and> declared (modules_of rs) app \<and> dc_kind app = App"
  using assms(3)
proof (induction segments arbitrary: current)
  case Nil
  then show ?case using fail_at_Err [OF assms(2)] by simp
next
  case (Cons segment rest)
  note fail = fail_at_Err [OF assms(2)] and bound = exports_okD(1) [OF assms(1) Cons.prems]
  show ?case
  proof (cases "is_identifier segment \<and> map_of (rs_exports rs ! current) segment \<noteq> None")
    case False
    then show ?thesis using fail bound by (auto simp: index_at_def split: option.splits)
  next
    case True
    then obtain target where t: "is_identifier segment" "map_of (rs_exports rs ! current) segment = Some target" by auto
    have ok: "target_ok (modules_of rs) target" by (rule exports_okD(2) [OF assms(1) Cons.prems t(2)])
    show ?thesis
    proof (cases "rest = []")
      case True
      with t ok bound show ?thesis by (simp add: index_at_def)
    next
      case False
      show ?thesis
      proof (cases target)
        case (Module imported)
        with ok have "imported < length (modules_of rs)" by simp
        note IH = Cons.IH [OF this]
        have step: "walk_path member rs from_module reference current (segment # rest)
            = walk_path member rs from_module reference imported rest"
          "path_end rs current (segment # rest) = path_end rs imported rest"
          using Module t False bound by (simp_all add: index_at_def)
        show ?thesis unfolding step by (rule IH)
      next
        case (Declaration app)
        with t ok False bound fail show ?thesis
          by (cases "dc_kind app = App \<and> length rest = 1") (auto simp: index_at_def)
      next
        case (Member m)
        with ok show ?thesis by simp
      qed
    qed
  qed
qed

lemma resolve_end:
  assumes "exports_ok rs" and "m < length (modules_of rs)"
  shows "case path_end rs m (split_names reference) of
      None \<Rightarrow> \<exists>e. resolve rs m reference = Some (Err e)
    | Some (Inl t) \<Rightarrow> resolve rs m reference = Some (Ok t) \<and> target_ok (modules_of rs) t
    | Some (Inr (app, nm)) \<Rightarrow> resolve rs m reference = resolve_app_member rs m app nm reference
        \<and> declared (modules_of rs) app \<and> dc_kind app = App"
  unfolding resolve_eq by (rule walk_path_end [OF assms assms(2)])

lemma resolve_direct:
  assumes "exports_ok rs" and "m < length (modules_of rs)" and "path_end rs m (split_names reference) = Some (Inl t)"
  shows "resolve rs m reference = Some (Ok t)"
  using resolve_end [OF assms(1,2), of reference] assms(3) by simp

lemma resolve_app_member_OkD:
  assumes "declared (modules_of rs) app" "dc_kind app = App"
    and "resolve_app_member rs m app nm reference = Some (Ok t)"
  shows "\<exists>actor. t = Member \<lparr>am_app = app, am_actor = actor\<rparr>"
proof -
  obtain d where d: "find_declaration rs app = Ok (AnApp d)" using find_declaration_declared(2) [OF assms(1,2)] ..
  from assms(3) show ?thesis
    unfolding resolve_app_member_eq [OF d] by (auto simp: bind_run_Ok_iff split: option.splits)
qed

lemma resolve_Declaration_ok:
  assumes "exports_ok rs" "m < length (modules_of rs)" "resolve rs m reference = Some (Ok (Declaration a))"
  shows "declared (modules_of rs) a"
  using resolve_end [OF assms(1,2), of reference] assms(3)
  by (auto split: option.splits sum.splits dest: resolve_app_member_OkD [OF _ _ sym])

section \<open>Members of an app\<close>

definition actor_is :: "resolved_modules \<Rightarrow> string \<Rightarrow> decl_id \<Rightarrow> bool" where
  "actor_is rs nm a \<longleftrightarrow> dc_kind a = Actor \<and> (case find_declaration rs a of Ok (AnActor d) \<Rightarrow> ac_name d = nm | _ \<Rightarrow> False)"

text \<open>The actors of the given name among the members, one for each reference to one.\<close>

definition actors_named :: "resolved_modules \<Rightarrow> module_id \<Rightarrow> string \<Rightarrow> string list \<Rightarrow> decl_id list" where
  "actors_named rs m nm references = concat (map (\<lambda>reference. case resolve rs m reference of
       Some (Ok (Declaration a)) \<Rightarrow> if actor_is rs nm a then [a] else []
     | _ \<Rightarrow> []) references)"

definition local_members :: "resolved_modules \<Rightarrow> module_id \<Rightarrow> string list \<Rightarrow> bool" where
  "local_members rs m references \<longleftrightarrow>
     (\<forall>reference \<in> set references. \<exists>a. resolve rs m reference = Some (Ok (Declaration a)))"

lemma match_member_Declaration:
  assumes "declared (modules_of rs) a" and "dc_module app < length (modules_of rs)"
  shows "if actor_is rs nm a \<and> matching \<noteq> None
    then \<exists>e. match_member rs app d nm reference matching (Declaration a) = Err e
    else match_member rs app d nm reference matching (Declaration a) = Ok (if actor_is rs nm a then Some a else matching)"
proof (cases "dc_kind a = Actor")
  case True
  with find_declaration_declared(3) [OF assms(1)] obtain ad where "find_declaration rs a = Ok (AnActor ad)" by blast
  with True show ?thesis by (simp add: match_member_def actor_is_def fail_at_Err [OF assms(2)])
qed (simp add: match_member_def actor_is_def)

lemma match_member_other:
  assumes "dc_module app < length (modules_of rs)" "\<And>a. target \<noteq> Declaration a"
  shows "\<exists>e. match_member rs app d nm reference matching target = Err e"
proof (cases target)
  case (Declaration a)
  with assms(2) show ?thesis by blast
qed (simp_all add: match_member_def fail_at_Err [OF assms(1)])

lemma app_member_step_Ok_iff:
  assumes "exports_ok rs" "dc_module app < length (modules_of rs)"
  shows "app_member_step rs app d nm matching reference = Some (Ok r) \<longleftrightarrow>
    (\<exists>a. resolve rs (dc_module app) reference = Some (Ok (Declaration a))
      \<and> (if actor_is rs nm a then matching = None \<and> r = Some a else r = matching))"
proof -
  have "match_member rs app d nm reference matching target = Ok r \<longleftrightarrow>
    (\<exists>a. target = Declaration a \<and> (if actor_is rs nm a then matching = None \<and> r = Some a else r = matching))"
    if "resolve rs (dc_module app) reference = Some (Ok target)" for target
  proof (cases "\<exists>a. target = Declaration a")
    case True
    then obtain a where a: "target = Declaration a" ..
    from resolve_Declaration_ok [OF assms that [unfolded a]] match_member_Declaration [OF _ assms(2), of a nm matching d reference]
    show ?thesis by (cases "actor_is rs nm a"; cases "matching = None") (auto simp: a)
  next
    case False
    with match_member_other [OF assms(2), of target d nm reference matching] show ?thesis by auto
  qed
  then show ?thesis unfolding app_member_step_def bind_run_Ok_iff option.inject by blast
qed

lemma member_fold_Ok_iff:
  assumes "exports_ok rs" "dc_module app < length (modules_of rs)"
  shows "try_fold_run (app_member_step rs app d nm) matching references = Some (Ok r) \<longleftrightarrow>
    local_members rs (dc_module app) references
    \<and> (case actors_named rs (dc_module app) nm references of
        [] \<Rightarrow> r = matching | [a] \<Rightarrow> matching = None \<and> r = Some a | _ \<Rightarrow> False)"
proof (induction references arbitrary: matching)
  case Nil
  then show ?case by (auto simp: local_members_def actors_named_def)
next
  case (Cons reference references)
  note step = try_fold_run.simps(2) bind_run_Ok_iff app_member_step_Ok_iff [OF assms] Cons.IH
  show ?case
  proof (cases "\<exists>a. resolve rs (dc_module app) reference = Some (Ok (Declaration a))")
    case True
    then obtain a where a: "resolve rs (dc_module app) reference = Some (Ok (Declaration a))" ..
    have locals: "local_members rs (dc_module app) (reference # references) = local_members rs (dc_module app) references"
      by (simp add: local_members_def a)
    have named: "actors_named rs (dc_module app) nm (reference # references)
      = (if actor_is rs nm a then [a] else []) @ actors_named rs (dc_module app) nm references"
      by (simp add: actors_named_def a)
    show ?thesis
    proof (cases "actor_is rs nm a")
      case True
      then show ?thesis unfolding step locals named by (auto simp: a split: list.splits)
    next
      case False
      then show ?thesis unfolding step locals named by (simp add: a)
    qed
  qed (simp add: step local_members_def)
qed

text \<open>
  C28: A qualified reference names a member of an app exactly when its path leads to the app and
  then asks for an actor, every member reference of the app names a declaration in its own right,
  and exactly one of them names an actor of that name; that actor is the member found.
\<close>

theorem resolve_member_exact:
  assumes "exports_ok rs" and "m < length (modules_of rs)"
  shows "resolve rs m reference = Some (Ok (Member found)) \<longleftrightarrow>
    (\<exists>d nm. path_end rs m (split_names reference) = Some (Inr (am_app found, nm))
      \<and> find_declaration rs (am_app found) = Ok (AnApp d)
      \<and> local_members rs (dc_module (am_app found)) (ap_actors d)
      \<and> actors_named rs (dc_module (am_app found)) nm (ap_actors d) = [am_actor found])"
proof -
  have member: "resolve_app_member rs m app nm reference = Some (Ok (Member found)) \<longleftrightarrow> app = am_app found
      \<and> (\<exists>d. find_declaration rs app = Ok (AnApp d) \<and> local_members rs (dc_module app) (ap_actors d)
        \<and> actors_named rs (dc_module app) nm (ap_actors d) = [am_actor found])"
    if "declared (modules_of rs) app" "dc_kind app = App" for app nm
  proof -
    note in_range = that
    obtain d where d: "find_declaration rs app = Ok (AnApp d)" using find_declaration_declared(2) [OF in_range] ..
    have "dc_module app < length (modules_of rs)" using that(1) by (simp add: declared_def)
    note fold' = member_fold_Ok_iff [OF assms(1) this]
    have fold: "try_fold_run (app_member_step rs app d nm) None references = Some (Ok r) \<longleftrightarrow>
      local_members rs (dc_module app) references \<and> (actors_named rs (dc_module app) nm references = [] \<and> r = None
        \<or> (\<exists>a. actors_named rs (dc_module app) nm references = [a] \<and> r = Some a))" for references r
      unfolding fold' by (auto split: list.splits)
    have "found = \<lparr>am_app = app, am_actor = a\<rparr> \<longleftrightarrow> app = am_app found \<and> a = am_actor found" for a
      by (cases found) auto
    then show ?thesis
      unfolding resolve_app_member_eq [OF d] bind_run_Ok_iff fold
      by (auto simp: d split: list.splits option.splits)
  qed
  show ?thesis
  proof (cases "path_end rs m (split_names reference)")
    case None
    with resolve_end [OF assms, of reference] show ?thesis by auto
  next
    case (Some where_to)
    show ?thesis
    proof (cases where_to)
      case (Inl t)
      with Some resolve_end [OF assms, of reference] show ?thesis by auto
    next
      case (Inr call)
      obtain app nm where call: "call = (app, nm)" by fastforce
      with Some Inr resolve_end [OF assms, of reference] have
        "resolve rs m reference = resolve_app_member rs m app nm reference" "declared (modules_of rs) app" "dc_kind app = App"
        by auto
      with member [of app nm] Some Inr call show ?thesis by auto
    qed
  qed
qed

section \<open>When a reference is resolved at all\<close>

text \<open>An app asks another one when a member reference leads to a member of that app.\<close>

definition app_calls :: "resolved_modules \<Rightarrow> (decl_id \<times> decl_id) set" where
  "app_calls rs = {(app, app'). declared (modules_of rs) app \<and> (\<exists>d reference nm. find_declaration rs app = Ok (AnApp d)
     \<and> reference \<in> set (ap_actors d) \<and> path_end rs (dc_module app) (split_names reference) = Some (Inr (app', nm)))}"

lemma finite_declared: "finite {did. declared ms did}"
proof -
  have kinds: "finite (UNIV :: symbol_kind set)"
    by (rule finite_subset [of _ "{Const, State, Function, Actor, ActorEnum, App}"]) (auto intro: symbol_kind.exhaust)
  have "{did. declared ms did}
    \<subseteq> (\<Union>m < length ms. \<Union>kind. (\<lambda>index. DeclId m kind index) ` {..<decl_count (ms ! m) kind})"
  proof
    fix did assume "did \<in> {did. declared ms did}"
    then show "did \<in> (\<Union>m < length ms. \<Union>kind. (\<lambda>index. DeclId m kind index) ` {..<decl_count (ms ! m) kind})"
      by (cases did) (auto simp: declared_def)
  qed
  then show ?thesis by (rule finite_subset) (use kinds in auto)
qed

lemma finite_app_calls:
  assumes "exports_ok rs"
  shows "finite (app_calls rs)"
proof (rule finite_subset)
  show "app_calls rs \<subseteq> {did. declared (modules_of rs) did} \<times> {did. declared (modules_of rs) did}"
  proof
    fix p assume "p \<in> app_calls rs"
    then obtain app app' reference nm where p: "p = (app, app')" and call: "declared (modules_of rs) app"
      "path_end rs (dc_module app) (split_names reference) = Some (Inr (app', nm))" by (auto simp: app_calls_def)
    from call(1) have "dc_module app < length (modules_of rs)" by (simp add: declared_def)
    with call show "p \<in> {did. declared (modules_of rs) did} \<times> {did. declared (modules_of rs) did}"
      unfolding p using resolve_end [OF assms, of "dc_module app" reference] by simp
  qed
qed (simp add: finite_declared)

text \<open>What every call that returns may be.\<close>

definition returns :: "('e, 'a) outcome option \<Rightarrow> bool" where
  "returns m \<longleftrightarrow> (\<exists>x. m = Some (Ok x)) \<or> (\<exists>e. m = Some (Err e))"

lemma returns_simps [simp]:
  "returns (Some (Ok x))" "returns (Some (Err e))" "\<not> returns None" "\<not> returns (Some Panic)"
  by (auto simp: returns_def)

lemma returns_bind:
  "returns m \<Longrightarrow> (\<And>x. m = Some (Ok x) \<Longrightarrow> returns (f x)) \<Longrightarrow> returns (bind_run m f)"
  by (auto simp: returns_def)

lemma returns_fold: "(\<And>s x. x \<in> set xs \<Longrightarrow> returns (f s x)) \<Longrightarrow> returns (try_fold_run f s xs)"
  by (induction xs arbitrary: s) (auto intro: returns_bind)

lemma app_member_returns:
  assumes ok: "exports_ok rs" and acyclic: "acyclic (app_calls rs)"
  shows "declared (modules_of rs) app \<Longrightarrow> dc_kind app = App \<Longrightarrow> m < length (modules_of rs)
    \<Longrightarrow> returns (resolve_app_member rs m app nm reference)"
proof (induction app arbitrary: m nm reference rule: wf_induct_rule [OF finite_acyclic_wf_converse [OF finite_app_calls [OF ok] acyclic]])
  case (1 app)
  obtain d where d: "find_declaration rs app = Ok (AnApp d)" using find_declaration_declared(2) [OF 1(2,3)] ..
  have home: "dc_module app < length (modules_of rs)" using 1(2) by (simp add: declared_def)
  have resolved: "returns (resolve rs (dc_module app) r)" if "r \<in> set (ap_actors d)" for r
  proof (cases "path_end rs (dc_module app) (split_names r)")
    case None
    with resolve_end [OF ok home, of r] show ?thesis by auto
  next
    case (Some where_to)
    show ?thesis
    proof (cases where_to)
      case (Inl t)
      with Some resolve_end [OF ok home, of r] show ?thesis by auto
    next
      case (Inr call)
      obtain app' nm' where call: "call = (app', nm')" by fastforce
      with Some Inr d that 1(2) have "(app', app) \<in> (app_calls rs)\<inverse>" by (auto simp: app_calls_def)
      from 1(1) [OF this _ _ home] Some Inr call resolve_end [OF ok home, of r] show ?thesis by simp
    qed
  qed
  have "returns (app_member_step rs app d nm matching r)" if "r \<in> set (ap_actors d)" for matching r
    unfolding app_member_step_def
  proof (rule returns_bind [OF resolved [OF that]])
    fix target assume t: "resolve rs (dc_module app) r = Some (Ok target)"
    show "returns (Some (match_member rs app d nm r matching target))"
    proof (cases "\<exists>a. target = Declaration a")
      case True
      then obtain a where a: "target = Declaration a" ..
      from match_member_Declaration [OF resolve_Declaration_ok [OF ok home t [unfolded a]] home, of nm matching d r]
      show ?thesis by (auto simp: a split: if_splits)
    next
      case False
      with match_member_other [OF home, of target d nm r matching] show ?thesis by auto
    qed
  qed
  then have "returns (try_fold_run (app_member_step rs app d nm) None (ap_actors d))" by (rule returns_fold)
  then show ?case
    unfolding resolve_app_member_eq [OF d]
    by (rule returns_bind) (use fail_at_Err [OF 1(4)] in \<open>auto split: option.split simp: returns_def\<close>)
qed

lemma resolve_returns_acyclic:
  assumes ok: "exports_ok rs" and "acyclic (app_calls rs)" and m: "m < length (modules_of rs)"
  shows "returns (resolve rs m reference)"
  using resolve_end [OF ok m, of reference] app_member_returns [OF ok assms(2) _ _ m]
  by (auto split: option.splits sum.splits)

text \<open>A first member reference that asks its own app is never resolved.\<close>

lemma self_member_loops:
  assumes ok: "exports_ok rs" and home: "dc_module app < length (modules_of rs)"
    and d: "find_declaration rs app = Ok (AnApp d)" "ap_actors d = r # rest"
    and home_again: "path_end rs (dc_module app) (split_names r) = Some (Inr (app, nm0))"
  shows "resolve_app_member rs m app nm reference = None"
proof (rule ccontr)
  assume "resolve_app_member rs m app nm reference \<noteq> None"
  then obtain y where ret: "resolve_app_member rs m app nm reference = Some y" by blast
  have "\<not> (rs = rs \<and> app = app)"
  proof (rule resolve_app_member.raw_induct [where P = "\<lambda>rs' m app' nm reference y. \<not> (rs' = rs \<and> app' = app)", OF _ ret],
      goal_cases)
    case (1 f rs' m' app' nm' reference' y')
    have stuck: "f rs m'' app nm'' reference'' = None" for m'' nm'' reference''
      using 1(1) [of rs m'' app nm'' reference''] by (cases "f rs m'' app nm'' reference''") auto
    have "walk_path (\<lambda>a n. f rs (dc_module app) a n r) rs (dc_module app) r (dc_module app) (split_names r) = None"
      using walk_path_end [OF ok home home, where segments = "split_names r" and reference = r
          and member = "\<lambda>a n. f rs (dc_module app) a n r"] home_again stuck by simp
    with 1(2) d show ?case by auto
  qed
  then show False by simp
qed

text \<open>
  C29: Resolving a reference always ends, with a target or an error, when no chain of member
  references leads from an app back to itself. The code does not check that condition: if the
  first member reference of an app leads to a member of the app itself, no reference to a member
  of that app is ever resolved.
\<close>

theorem resolve_returns:
  assumes "exports_ok rs" and "m < length (modules_of rs)"
  shows "(acyclic (app_calls rs) \<longrightarrow> returns (resolve rs m reference))
    \<and> (\<forall>app d r rest nm nm'. path_end rs m (split_names reference) = Some (Inr (app, nm))
        \<and> find_declaration rs app = Ok (AnApp d) \<and> ap_actors d = r # rest
        \<and> path_end rs (dc_module app) (split_names r) = Some (Inr (app, nm'))
      \<longrightarrow> resolve rs m reference = None)"
proof (intro conjI allI impI)
  show "returns (resolve rs m reference)" if "acyclic (app_calls rs)"
    by (rule resolve_returns_acyclic [OF assms(1) that assms(2)])
next
  fix app d r rest nm nm'
  assume *: "path_end rs m (split_names reference) = Some (Inr (app, nm))
    \<and> find_declaration rs app = Ok (AnApp d) \<and> ap_actors d = r # rest
    \<and> path_end rs (dc_module app) (split_names r) = Some (Inr (app, nm'))"
  with resolve_end [OF assms, of reference] have asks: "resolve rs m reference = resolve_app_member rs m app nm reference"
    and "dc_module app < length (modules_of rs)" by (auto simp: declared_def)
  with * self_member_loops [OF assms(1), of app d r rest nm' m nm reference] show "resolve rs m reference = None"
    unfolding asks by blast
qed

section \<open>Two programs\<close>

definition resolved_demo :: "module_decl list \<Rightarrow> resolved_import list list \<Rightarrow> namespace_table \<Rightarrow> resolved_modules" where
  "resolved_demo ms imps table =
     \<lparr>rs_program = \<lparr>pg_modules = map (\<lambda>m. \<lparr>sm_display_path = md_path m, sm_legacy = m\<rparr>) ms, pg_source = dc_module\<rparr>,
       rs_imports = imps, rs_view = \<lparr>mv_root = 0, mv_reachable = [0..<length ms]\<rparr>, rs_exports = table,
       rs_bindings = []\<rparr>"

lemma resolved_demo_simps [simp]:
  "modules_of (resolved_demo ms imps table) = ms" "rs_imports (resolved_demo ms imps table) = imps"
  "rs_exports (resolved_demo ms imps table) = table"
  by (simp_all add: resolved_demo_def modules_of_def comp_def)

definition demo_resolved :: resolved_modules where
  "demo_resolved = resolved_demo demo_modules demo_imports demo_table"

lemma demo_resolved_ok: "exports_ok demo_resolved" "modules_of demo_resolved = demo_modules"
  using table_exports_ok [of demo_resolved] demo_graph_ok demo_table_built by (simp_all add: demo_resolved_def)

lemma resolve_member_exact_witness:
  "resolve demo_resolved 0 ''dep::DepApp::Dep''
    = Some (Ok (Member \<lparr>am_app = DeclId 1 App 0, am_actor = DeclId 1 Actor 0\<rparr>))"
proof -
  have "path_end demo_resolved 0 (split_names ''dep::DepApp::Dep'') = Some (Inr (DeclId 1 App 0, ''Dep''))" by code_simp
  moreover have "find_declaration demo_resolved (DeclId 1 App 0) = Ok (AnApp \<lparr>ap_name = ''DepApp'', ap_actors = [''Dep'']\<rparr>)" by code_simp
  moreover have dep: "resolve demo_resolved 1 ''Dep'' = Some (Ok (Declaration (DeclId 1 Actor 0)))"
  proof (rule resolve_direct [OF demo_resolved_ok(1)])
    show "path_end demo_resolved 1 (split_names ''Dep'') = Some (Inl (Declaration (DeclId 1 Actor 0)))" by code_simp
  qed (simp add: demo_resolved_ok demo_modules_def)
  moreover from dep have "local_members demo_resolved 1 [''Dep'']" by (simp add: local_members_def)
  moreover have "actor_is demo_resolved ''Dep'' (DeclId 1 Actor 0)" by code_simp
  with dep have "actors_named demo_resolved 1 ''Dep'' [''Dep''] = [DeclId 1 Actor 0]" by (simp add: actors_named_def)
  moreover have in_range: "0 < length (modules_of demo_resolved)" by (simp add: demo_resolved_ok demo_modules_def)
  ultimately show ?thesis
    unfolding resolve_member_exact [OF demo_resolved_ok(1) in_range]
    by (intro exI [of _ "\<lparr>ap_name = ''DepApp'', ap_actors = [''Dep'']\<rparr>"] exI [of _ "''Dep''"]) simp
qed

text \<open>\<^verbatim>\<open>app A { actor A::x; }\<close>\<close>

definition self_modules :: "module_decl list" where
  "self_modules = [demo_module ''self.ag'' [] ''X'' [\<lparr>ap_name = ''A'', ap_actors = [''A::x'']\<rparr>]]"

definition self_table :: namespace_table where
  "self_table = [[(''A'', Declaration (DeclId 0 App 0)), (''X'', Declaration (DeclId 0 Actor 0))]]"

definition self_resolved :: resolved_modules where
  "self_resolved = resolved_demo self_modules [[]] self_table"

lemma self_resolved_ok: "exports_ok self_resolved"
proof (rule table_exports_ok)
  show "graph_ok (modules_of self_resolved) (rs_imports self_resolved)"
    by (simp add: self_resolved_def graph_ok_def self_modules_def)
  have "namespace_table_new self_modules [[]] = Some (Ok self_table)" by code_simp
  then show "namespace_table_new (modules_of self_resolved) (rs_imports self_resolved) = Some (Ok (rs_exports self_resolved))"
    by (simp add: self_resolved_def)
qed

lemma resolve_returns_witness: "resolve self_resolved 0 ''A::x'' = None"
proof -
  have "path_end self_resolved 0 (split_names ''A::x'') = Some (Inr (DeclId 0 App 0, ''x''))" by code_simp
  moreover have "find_declaration self_resolved (DeclId 0 App 0) = Ok (AnApp \<lparr>ap_name = ''A'', ap_actors = [''A::x'']\<rparr>)" by code_simp
  moreover have in_range: "0 < length (modules_of self_resolved)" by (simp add: self_resolved_def self_modules_def)
  moreover note resolve_returns [OF self_resolved_ok in_range, of "''A::x''", THEN conjunct2, rule_format,
      of "DeclId 0 App 0" "''x''" "\<lparr>ap_name = ''A'', ap_actors = [''A::x'']\<rparr>" "''A::x''" "[]" "''x''"]
  ultimately show ?thesis by simp
qed

end
