(* ===== verification/Resolved_Views.thy ===== *)
theory Resolved_Views
  imports Name_Resolution
begin

text \<open>
  What the later phases ask of a resolved program (\<^verbatim>\<open>src/compiler/resolve/mod.rs\<close>): the modules
  a root reaches, the declarations a set of declarations references, the actors of an app, the
  members of other apps it refers to, and distinct display names for the selected declarations.
\<close>

section \<open>Worklists\<close>

text \<open>
  Both traversals keep a set of visited elements and a stack of pending ones. \<open>worklist_inv\<close> is
  what every step of such a loop keeps, for the edges it follows and the elements it starts from.
\<close>

definition worklist_inv :: "('a \<times> 'a) set \<Rightarrow> 'a set \<Rightarrow> 'a set \<Rightarrow> 'a set \<Rightarrow> bool" where
  "worklist_inv edges start seen pending \<longleftrightarrow>
     start \<subseteq> seen \<union> pending \<and> seen \<union> pending \<subseteq> edges\<^sup>* `` start \<and> edges `` seen \<subseteq> seen \<union> pending"

lemma worklist_start: "worklist_inv edges start {} start"
  by (auto simp: worklist_inv_def)

lemma worklist_skip: "worklist_inv edges start seen (insert x pending) \<Longrightarrow> x \<in> seen \<Longrightarrow> worklist_inv edges start seen pending"
  by (auto simp: worklist_inv_def)

lemma worklist_visit:
  assumes "worklist_inv edges start seen (insert x pending)"
  shows "worklist_inv edges start (insert x seen) (edges `` {x} \<union> pending)"
proof -
  have "edges `` {x} \<subseteq> edges\<^sup>* `` start" using assms by (auto simp: worklist_inv_def intro: rtrancl_into_rtrancl)
  then show ?thesis using assms by (auto simp: worklist_inv_def)
qed

lemma worklist_done:
  assumes "worklist_inv edges start seen {}"
  shows "seen = edges\<^sup>* `` start"
proof
  have "edges\<^sup>* `` seen = seen" by (rule Image_closed_trancl) (use assms in \<open>simp add: worklist_inv_def\<close>)
  then show "edges\<^sup>* `` start \<subseteq> seen" using assms by (auto simp: worklist_inv_def)
qed (use assms in \<open>simp add: worklist_inv_def\<close>)

section \<open>The modules of a view\<close>

text \<open>
  \<^verbatim>\<open>while let Some(module) = pending.pop()\<close>: the stack is a list with its top in front, so the
  targets of the imports, pushed in reverse, come first in their order.
\<close>

function (sequential) view_loop ::
  "resolved_import list list \<Rightarrow> module_id list \<Rightarrow> module_id set \<Rightarrow> module_id list \<Rightarrow> (resolve_error, module_id list) outcome" where
  "view_loop imps reachable seen [] = Ok reachable"
| "view_loop imps reachable seen (m # pending) =
     (if m \<in> seen then view_loop imps reachable seen pending
      else if m < length imps
      then view_loop imps (reachable @ [m]) (insert m seen) (map ri_target (imps ! m) @ pending)
      else Panic)"
  by pat_completeness auto
termination
proof (relation "measures [\<lambda>(imps, _, seen, _). card ({..<length imps} - seen), \<lambda>(_, _, _, pending). length pending]")
  fix imps :: "resolved_import list list" and reachable seen m and pending :: "module_id list"
  assume "m \<notin> seen" "m < length imps"
  then have "{..<length imps} - insert m seen \<subset> {..<length imps} - seen" by blast
  then have "card ({..<length imps} - insert m seen) < card ({..<length imps} - seen)" by (intro psubset_card_mono) auto
  then show "((imps, reachable @ [m], insert m seen, map ri_target (imps ! m) @ pending), imps, reachable, seen, m # pending)
    \<in> measures [\<lambda>(imps, _, seen, _). card ({..<length imps} - seen), \<lambda>(_, _, _, pending). length pending]" by simp
qed auto

definition view_from :: "resolved_modules \<Rightarrow> module_id \<Rightarrow> (resolve_error, module_view) outcome" where
  "view_from rs root =
     and_then (view_loop (rs_imports rs) [] {} [root]) (\<lambda>reachable. Ok \<lparr>mv_root = root, mv_reachable = reachable\<rparr>)"

definition with_root :: "resolved_modules \<Rightarrow> module_id \<Rightarrow> (resolve_error, resolved_modules) outcome" where
  "with_root rs root = and_then (view_from rs root) (\<lambda>view. Ok (rs\<lparr>rs_view := view\<rparr>))"

definition all_imports :: "resolved_import list list \<Rightarrow> (module_id \<times> module_id) set" where
  "all_imports imps = {(m, ri_target imp) | m imp. m < length imps \<and> imp \<in> set (imps ! m)}"

lemma all_imports_Image: "m < length imps \<Longrightarrow> all_imports imps `` {m} = set (map ri_target (imps ! m))"
  by (auto simp: all_imports_def)

lemma view_loop_reach:
  assumes "\<And>m t. (m, t) \<in> all_imports imps \<Longrightarrow> t < length imps"
    and "set pending \<subseteq> {..<length imps}" and "set reachable = seen" "distinct reachable"
    and "worklist_inv (all_imports imps) start seen (set pending)"
  shows "\<exists>ms. view_loop imps reachable seen pending = Ok ms \<and> distinct ms \<and> set ms = (all_imports imps)\<^sup>* `` start"
  using assms
proof (induction imps reachable seen pending rule: view_loop.induct)
  case (1 imps reachable seen)
  with worklist_done [of "all_imports imps" start seen] show ?case by simp
next
  case (2 imps reachable seen m pending)
  show ?case
  proof (cases "m \<in> seen")
    case True
    with "2.prems" worklist_skip [of "all_imports imps" start seen m "set pending"] show ?thesis
      using "2.IH"(1) by auto
  next
    case False
    with "2.prems" have m: "m < length imps" by simp
    have "worklist_inv (all_imports imps) start (insert m seen) (set (map ri_target (imps ! m) @ pending))"
      using worklist_visit [of "all_imports imps" start seen m "set pending"] "2.prems"(5)
      by (simp add: all_imports_Image [OF m])
    moreover have "set (map ri_target (imps ! m) @ pending) \<subseteq> {..<length imps}"
      using "2.prems"(1,2) m by (auto simp: all_imports_def)
    ultimately have "\<exists>ms. view_loop imps (reachable @ [m]) (insert m seen) (map ri_target (imps ! m) @ pending) = Ok ms
      \<and> distinct ms \<and> set ms = (all_imports imps)\<^sup>* `` start"
      using False m "2.prems" by (intro "2.IH"(2)) auto
    with False m show ?thesis by simp
  qed
qed

lemma view_from_exact:
  assumes g: "graph_ok (modules_of rs) (rs_imports rs)" and "root < length (modules_of rs)"
  shows "\<exists>ms. view_from rs root = Ok \<lparr>mv_root = root, mv_reachable = ms\<rparr> \<and> distinct ms
    \<and> set ms = (all_imports (rs_imports rs))\<^sup>* `` {root}"
proof -
  have "\<exists>ms. view_loop (rs_imports rs) [] {} [root] = Ok ms \<and> distinct ms \<and> set ms = (all_imports (rs_imports rs))\<^sup>* `` {root}"
  proof (rule view_loop_reach)
    show "t < length (rs_imports rs)" if "(m, t) \<in> all_imports (rs_imports rs)" for m t
      using that g by (auto simp: all_imports_def graph_ok_def)
    show "set [root] \<subseteq> {..<length (rs_imports rs)}" using assms by (simp add: graph_ok_def)
    show "worklist_inv (all_imports (rs_imports rs)) {root} {} (set [root])"
      using worklist_start [of "all_imports (rs_imports rs)" "{root}"] by simp
  qed simp_all
  then obtain ms where ms: "view_loop (rs_imports rs) [] {} [root] = Ok ms" "distinct ms"
    "set ms = (all_imports (rs_imports rs))\<^sup>* `` {root}" by blast
  have "view_from rs root = Ok \<lparr>mv_root = root, mv_reachable = ms\<rparr>"
    unfolding view_from_def ms(1) by simp
  with ms(2,3) show ?thesis by blast
qed

section \<open>The closure of declarations\<close>

function (sequential) closure_loop :: "(decl_id, decl_bindings) btree \<Rightarrow> decl_id set \<Rightarrow> decl_id list \<Rightarrow> decl_id set" where
  "closure_loop bindings found [] = found"
| "closure_loop bindings found (d # pending) =
     (if d \<in> found then closure_loop bindings found pending
      else closure_loop bindings (insert d found)
        ((case map_of bindings d of None \<Rightarrow> [] | Some b \<Rightarrow> rev (sorted_list_of_set (db_declarations b))) @ pending))"
  by pat_completeness auto
termination
proof (relation "measures [\<lambda>(bindings, found, _). card (dom (map_of bindings) - found), \<lambda>(_, _, pending). length pending]")
  fix bindings :: "(decl_id, decl_bindings) btree" and found and d :: decl_id and pending :: "decl_id list"
  assume d: "d \<notin> found"
  show "((bindings, insert d found, (case map_of bindings d of None \<Rightarrow> []
      | Some b \<Rightarrow> rev (sorted_list_of_set (db_declarations b))) @ pending), bindings, found, d # pending)
    \<in> measures [\<lambda>(bindings, found, _). card (dom (map_of bindings) - found), \<lambda>(_, _, pending). length pending]"
  proof (cases "map_of bindings d")
    case None
    then have "dom (map_of bindings) - insert d found = dom (map_of bindings) - found" by auto
    with None show ?thesis by simp
  next
    case (Some b)
    with d have "dom (map_of bindings) - insert d found \<subset> dom (map_of bindings) - found" by blast
    then have "card (dom (map_of bindings) - insert d found) < card (dom (map_of bindings) - found)"
      by (intro psubset_card_mono) (simp_all add: finite_dom_map_of)
    then show ?thesis by simp
  qed
qed auto

definition declaration_closure :: "resolved_modules \<Rightarrow> decl_id list \<Rightarrow> decl_id set" where
  "declaration_closure rs roots = closure_loop (rs_bindings rs) {} (rev roots)"

definition bindings_finite :: "(decl_id, decl_bindings) btree \<Rightarrow> bool" where
  "bindings_finite bindings \<longleftrightarrow> (\<forall>(d, b) \<in> set bindings. finite (db_declarations b) \<and> finite (db_apps b))"

text \<open>A declaration references those its bindings name.\<close>

definition references :: "(decl_id, decl_bindings) btree \<Rightarrow> (decl_id \<times> decl_id) set" where
  "references bindings = {(d, e). \<exists>b. map_of bindings d = Some b \<and> e \<in> db_declarations b}"

lemma references_Image:
  assumes "bindings_finite bindings"
  shows "references bindings `` {d}
    = set (case map_of bindings d of None \<Rightarrow> [] | Some b \<Rightarrow> rev (sorted_list_of_set (db_declarations b)))"
proof (cases "map_of bindings d")
  case (Some b)
  then have "finite (db_declarations b)" using assms map_of_SomeD [OF Some] by (auto simp: bindings_finite_def)
  with Some show ?thesis by (auto simp: references_def)
qed (simp add: references_def)

lemma closure_loop_exact:
  assumes "bindings_finite bindings" and "worklist_inv (references bindings) start found (set pending)"
  shows "closure_loop bindings found pending = (references bindings)\<^sup>* `` start"
  using assms
proof (induction bindings found pending rule: closure_loop.induct)
  case (1 bindings found)
  then show ?case using worklist_done by simp
next
  case (2 bindings found d pending)
  show ?case
  proof (cases "d \<in> found")
    case True
    with "2.prems" worklist_skip [of "references bindings" start found d "set pending"] show ?thesis
      using "2.IH"(1) by simp
  next
    case False
    have "worklist_inv (references bindings) start (insert d found) (set ((case map_of bindings d of None \<Rightarrow> []
        | Some b \<Rightarrow> rev (sorted_list_of_set (db_declarations b))) @ pending))"
      using worklist_visit [of "references bindings" start found d "set pending"] "2.prems"(2)
      by (simp add: references_Image [OF "2.prems"(1)])
    from "2.IH"(2) [OF False "2.prems"(1) this] False show ?thesis by simp
  qed
qed

lemma declaration_closure_exact:
  "bindings_finite (rs_bindings rs) \<Longrightarrow> declaration_closure rs roots = (references (rs_bindings rs))\<^sup>* `` set roots"
  unfolding declaration_closure_def
  by (rule closure_loop_exact) (use worklist_start [of _ "set roots"] in simp_all)

section \<open>Apps of a view\<close>

definition declaration_ids :: "(string, resolved_name) btree \<Rightarrow> decl_id list" where
  "declaration_ids exports = concat (map (\<lambda>(_, target). case target of Declaration d \<Rightarrow> [d] | _ \<Rightarrow> []) exports)"

definition root_declarations :: "resolved_modules \<Rightarrow> (resolve_error, decl_id list) outcome" where
  "root_declarations rs = and_then (index_at (rs_exports rs) (mv_root (rs_view rs))) (\<lambda>exports. Ok (declaration_ids exports))"

definition module_id_for_path :: "resolved_modules \<Rightarrow> path \<Rightarrow> module_id option" where
  "module_id_for_path rs p = find (\<lambda>index. md_path (modules_of rs ! index) = p) [0..<length (modules_of rs)]"

fun position_of :: "('a \<Rightarrow> bool) \<Rightarrow> 'a list \<Rightarrow> nat option" where
  "position_of P [] = None"
| "position_of P (x # xs) = (if P x then Some 0 else map_option Suc (position_of P xs))"

definition root_app :: "resolved_modules \<Rightarrow> string option \<Rightarrow> (resolve_error, decl_id option) outcome" where
  "root_app rs app_name = (let root = mv_root (rs_view rs) in
     and_then (index_at (modules_of rs) root) (\<lambda>m.
       case app_name of
         Some name \<Rightarrow> (case position_of (\<lambda>app. ap_name app = name) (md_apps m) of
             Some index \<Rightarrow> Ok (Some (DeclId root App index))
           | None \<Rightarrow> Err (NoAppNamed (md_path m) name))
       | None \<Rightarrow> (case md_apps m of
             [] \<Rightarrow> Ok None
           | [_] \<Rightarrow> Ok (Some (DeclId root App 0))
           | apps \<Rightarrow> Err (SeveralApps (md_path m) (map ap_name apps)))))"

definition app_actor_target :: "resolved_modules \<Rightarrow> decl_id \<Rightarrow> string \<Rightarrow> resolved_name \<Rightarrow> (resolve_error, decl_id) outcome" where
  "app_actor_target rs app reference target = (case target of
       Declaration actor \<Rightarrow>
         if dc_kind actor = Actor then Ok actor
         else fail_at rs (dc_module app) (\<lambda>p. WrongKind p reference [Actor] (dc_kind actor))
     | Member _ \<Rightarrow> fail_at rs (dc_module app) (\<lambda>p. AppInApp p reference)
     | Module _ \<Rightarrow> fail_at rs (dc_module app) (\<lambda>p. ModuleInApp p reference))"

fun try_map_run :: "('a \<Rightarrow> ('e, 'b) outcome option) \<Rightarrow> 'a list \<Rightarrow> ('e, 'b list) outcome option" where
  "try_map_run f [] = Some (Ok [])"
| "try_map_run f (x # xs) = bind_run (f x) (\<lambda>y. bind_run (try_map_run f xs) (\<lambda>ys. Some (Ok (y # ys))))"

definition distinct_name_step :: "resolved_modules \<Rightarrow> string set \<Rightarrow> decl_id \<Rightarrow> (resolve_error, string set) outcome" where
  "distinct_name_step rs names actor = and_then (find_declaration rs actor) (\<lambda>d.
     if decl_name d \<in> names then Err (ActorExportedTwice (decl_name d)) else Ok (insert (decl_name d) names))"

definition app_actor_ids :: "resolved_modules \<Rightarrow> decl_id \<Rightarrow> (resolve_error, decl_id list) outcome option" where
  "app_actor_ids rs app =
     (if dc_kind app \<noteq> App then Some (Err NotAnApp)
      else bind_run (Some (find_declaration rs app)) (\<lambda>a. case a of
          AnApp d \<Rightarrow> bind_run (try_map_run (\<lambda>reference. bind_run (resolve rs (dc_module app) reference)
                (\<lambda>target. Some (app_actor_target rs app reference target))) (ap_actors d))
              (\<lambda>actors. Some (and_then (try_fold (distinct_name_step rs) {} actors) (\<lambda>_. Ok actors)))
        | _ \<Rightarrow> Some Panic))"

definition app_declarations :: "resolved_modules \<Rightarrow> decl_id option \<Rightarrow> (resolve_error, decl_id set) outcome option" where
  "app_declarations rs app =
     bind_run (Some (root_declarations rs)) (\<lambda>declarations.
       let roots = filter (\<lambda>d. dc_kind d \<noteq> Actor \<and> dc_kind d \<noteq> App) declarations in
       case app of
         Some a \<Rightarrow> bind_run (app_actor_ids rs a) (\<lambda>actors. Some (Ok (declaration_closure rs (roots @ actors))))
       | None \<Rightarrow> Some (Ok (declaration_closure rs (roots @ filter (\<lambda>d. dc_kind d = Actor) declarations))))"

definition referenced_app_members :: "resolved_modules \<Rightarrow> decl_id \<Rightarrow> (resolve_error, app_member set) outcome option" where
  "referenced_app_members rs app =
     bind_run (app_declarations rs (Some app)) (\<lambda>declarations.
       Some (and_then (try_map (\<lambda>d. expect (map_of (rs_bindings rs) d)) (sorted_list_of_set declarations))
         (\<lambda>found. Ok (\<Union> (set (map db_apps found))))))"

definition app_source :: "resolved_modules \<Rightarrow> decl_id \<Rightarrow> (resolve_error, path \<times> app_decl) outcome" where
  "app_source rs app = and_then (find_declaration rs app) (\<lambda>a. case a of
       AnApp d \<Rightarrow> and_then (index_at (modules_of rs) (dc_module app)) (\<lambda>m. Ok (md_path m, d))
     | _ \<Rightarrow> Panic)"

text \<open>
  \<^verbatim>\<open>ResolvedModules::from_program\<close>. The bindings of a declaration are computed from the program as
  resolved so far, by the function \<open>bind_declaration\<close>.
\<close>

definition declaration_list :: "module_decl list \<Rightarrow> decl_id list" where
  "declaration_list ms = concat (map (\<lambda>m. concat (map (\<lambda>kind. map (DeclId m kind) [0..<decl_count (ms ! m) kind])
     [Const, State, Function, Actor, ActorEnum, App])) [0..<length ms])"

definition bind_step ::
  "(resolved_modules \<Rightarrow> decl_id \<Rightarrow> (resolve_error, decl_bindings) outcome option) \<Rightarrow> resolved_modules \<Rightarrow> decl_id \<Rightarrow>
    (resolve_error, resolved_modules) outcome option" where
  "bind_step bind_declaration rs d =
     bind_run (bind_declaration rs d) (\<lambda>b. Some (Ok (rs\<lparr>rs_bindings := bm_insert d b (rs_bindings rs)\<rparr>)))"

definition from_program ::
  "(resolved_modules \<Rightarrow> decl_id \<Rightarrow> (resolve_error, decl_bindings) outcome option) \<Rightarrow> program \<Rightarrow> module_id \<Rightarrow>
    resolved_import list list \<Rightarrow> (resolve_error, resolved_modules) outcome option" where
  "from_program bind_declaration prog root imps =
     (let ms = map sm_legacy (pg_modules prog) in
      if length ms \<noteq> length imps \<or> length ms \<le> root then Some (Err InvalidGraph)
      else bind_run (namespace_table_new ms imps) (\<lambda>exports.
        let rs = \<lparr>rs_program = prog, rs_imports = imps, rs_view = \<lparr>mv_root = root, mv_reachable = []\<rparr>,
          rs_exports = exports, rs_bindings = []\<rparr> in
        bind_run (Some (with_root rs root)) (\<lambda>rs. try_fold_run (bind_step bind_declaration) rs (declaration_list ms))))"

section \<open>The actors of an app\<close>

lemma try_map_run_Ok_iff:
  "try_map_run f xs = Some (Ok ys) \<longleftrightarrow> list_all2 (\<lambda>x y. f x = Some (Ok y)) xs ys"
  by (induction xs arbitrary: ys) (auto simp: bind_run_Ok_iff list_all2_Cons1)

definition name_in :: "resolved_modules \<Rightarrow> decl_id \<Rightarrow> string" where
  "name_in rs d = (case find_declaration rs d of Ok x \<Rightarrow> decl_name x | _ \<Rightarrow> [])"

lemma name_in_Ok [simp]: "find_declaration rs d = Ok x \<Longrightarrow> name_in rs d = decl_name x"
  by (simp add: name_in_def)

lemma distinct_name_fold:
  assumes "\<forall>a \<in> set actors. declared (modules_of rs) a"
  shows "(\<exists>r. try_fold (distinct_name_step rs) names actors = Ok r) \<longleftrightarrow>
    distinct (map (name_in rs) actors) \<and> name_in rs ` set actors \<inter> names = {}"
  using assms
proof (induction actors arbitrary: names)
  case (Cons a actors)
  from Cons.prems obtain d where "find_declaration rs a = Ok d" using find_declaration_declared(1) by force
  then have step: "distinct_name_step rs names a
      = (if name_in rs a \<in> names then Err (ActorExportedTwice (name_in rs a)) else Ok (insert (name_in rs a) names))"
    by (simp add: distinct_name_step_def)
  show ?case
  proof (cases "name_in rs a \<in> names")
    case True
    then show ?thesis by (simp add: step)
  next
    case False
    with Cons.IH [of "insert (name_in rs a) names"] Cons.prems show ?thesis by (auto simp: step)
  qed
qed simp

lemma app_actor_target_Ok [simp]:
  "app_actor_target rs app reference target = Ok a \<longleftrightarrow> target = Declaration a \<and> dc_kind a = Actor"
  by (auto simp: app_actor_target_def split: resolved_name.splits)

lemma app_actor_ids_exact:
  assumes ok: "exports_ok rs" and app: "declared (modules_of rs) app" "find_declaration rs app = Ok (AnApp d)" "dc_kind app = App"
  shows "app_actor_ids rs app = Some (Ok actors) \<longleftrightarrow>
    list_all2 (\<lambda>reference a. resolve rs (dc_module app) reference = Some (Ok (Declaration a)) \<and> dc_kind a = Actor)
      (ap_actors d) actors
    \<and> distinct (map (name_in rs) actors)"
proof -
  have home: "dc_module app < length (modules_of rs)" using app(1) by (simp add: declared_def)
  have resolved: "try_map_run (\<lambda>reference. bind_run (resolve rs (dc_module app) reference)
        (\<lambda>target. Some (app_actor_target rs app reference target))) (ap_actors d) = Some (Ok as) \<longleftrightarrow>
      list_all2 (\<lambda>reference a. resolve rs (dc_module app) reference = Some (Ok (Declaration a)) \<and> dc_kind a = Actor)
        (ap_actors d) as" for as
    by (simp add: try_map_run_Ok_iff bind_run_Ok_iff)
  have decl: "\<forall>a \<in> set as. declared (modules_of rs) a"
    if "list_all2 (\<lambda>reference a. resolve rs (dc_module app) reference = Some (Ok (Declaration a)) \<and> dc_kind a = Actor)
        (ap_actors d) as" for as
    using that by induction (auto intro: resolve_Declaration_ok [OF ok home])
  have names: "and_then (try_fold (distinct_name_step rs) {} as) (\<lambda>_. Ok as) = (Ok actors :: (resolve_error, decl_id list) outcome)
      \<longleftrightarrow> as = actors \<and> distinct (map (name_in rs) as)"
    if "\<forall>a \<in> set as. declared (modules_of rs) a" for as
    using distinct_name_fold [OF that, of "{}"] by (auto simp: and_then_Ok_iff)
  show ?thesis
    using names decl by (auto simp: app_actor_ids_def app bind_run_Ok_iff resolved)
qed

section \<open>Display names\<close>

definition digit_char :: "nat \<Rightarrow> char" where
  "digit_char n = char_of (48 + n)"

fun decimal :: "nat \<Rightarrow> string" where
  "decimal n = (if n < 10 then [digit_char n] else decimal (n div 10) @ [digit_char (n mod 10)])"

declare decimal.simps [simp del]

definition reserved_module_prefix :: string where
  "reserved_module_prefix = ''gen__module__''"

definition display_name :: "string \<Rightarrow> nat \<Rightarrow> string" where
  "display_name source_name suffix = reserved_module_prefix @ decimal suffix @ ''__'' @ source_name"

text \<open>The loop over suffixes.\<close>

partial_function (option) fresh_name :: "string \<Rightarrow> string set \<Rightarrow> nat \<Rightarrow> string option" where
  "fresh_name source_name taken suffix =
     (if display_name source_name suffix \<notin> taken then Some (display_name source_name suffix)
      else fresh_name source_name taken (Suc suffix))"

definition declaration_path :: "resolved_modules \<Rightarrow> decl_id \<Rightarrow> path" where
  "declaration_path rs d = sm_display_path (pg_modules (rs_program rs) ! pg_source (rs_program rs) d)"

definition display_key :: "resolved_modules \<Rightarrow> decl_id set \<Rightarrow> decl_id \<Rightarrow> bool \<times> path \<times> symbol_kind \<times> nat" where
  "display_key rs roots d = (d \<notin> roots, declaration_path rs d, dc_kind d, dc_index d)"

definition foreign_locals :: "resolved_modules \<Rightarrow> (decl_id \<Rightarrow> string set) \<Rightarrow> decl_id set \<Rightarrow> decl_id \<Rightarrow> string set" where
  "foreign_locals rs reserved declarations d =
     \<Union> (reserved ` {owner \<in> declarations. declaration_path rs owner \<noteq> declaration_path rs d})"

definition actor_name_step ::
  "resolved_modules \<Rightarrow> string set \<times> (decl_id, string) btree \<Rightarrow> decl_id \<Rightarrow>
    (resolve_error, string set \<times> (decl_id, string) btree) outcome" where
  "actor_name_step rs s d = (case s of (occupied, names) \<Rightarrow>
     and_then (find_declaration rs d) (\<lambda>x. Ok (insert (decl_name x) occupied, bm_insert d (decl_name x) names)))"

definition display_name_step ::
  "resolved_modules \<Rightarrow> (decl_id \<Rightarrow> string set) \<Rightarrow> decl_id set \<Rightarrow> string set \<Rightarrow> string set \<times> (decl_id, string) btree \<Rightarrow> decl_id \<Rightarrow>
    (resolve_error, string set \<times> (decl_id, string) btree) outcome option" where
  "display_name_step rs reserved declarations authored s d = (case s of (occupied, names) \<Rightarrow>
     if map_of names d \<noteq> None then Some (Ok s)
     else bind_run (Some (find_declaration rs d)) (\<lambda>x.
       let source_name = decl_name x; foreign = foreign_locals rs reserved declarations d in
       bind_run (if source_name \<in> occupied \<or> source_name \<in> foreign
           then map_option Ok (fresh_name source_name (occupied \<union> authored \<union> foreign) 1)
           else Some (Ok source_name))
         (\<lambda>name. Some (Ok (insert name occupied, bm_insert d name names)))))"

text \<open>\<open>reserved\<close> is \<^verbatim>\<open>reserved_local_names\<close>, which reads the bindings of the syntax trees.\<close>

definition selected_declaration_names ::
  "resolved_modules \<Rightarrow> (decl_id \<Rightarrow> string set) \<Rightarrow> decl_id option \<Rightarrow> decl_id list \<Rightarrow>
    (resolve_error, (decl_id, string) btree) outcome option" where
  "selected_declaration_names rs reserved app actors =
     bind_run (app_declarations rs app) (\<lambda>declarations.
     bind_run (Some (try_fold (actor_name_step rs) ({}, []) actors)) (\<lambda>s.
     bind_run (Some (root_declarations rs)) (\<lambda>roots.
     let ordered = sort_key (display_key rs (set roots)) (sorted_list_of_set declarations) in
     bind_run (Some (try_map (find_declaration rs) (sorted_list_of_set declarations))) (\<lambda>authored.
     bind_run (try_fold_run (display_name_step rs reserved declarations (set (map decl_name authored))) s ordered)
       (\<lambda>s. Some (Ok (snd s)))))))"

lemma digit_char_value: "n < 10 \<Longrightarrow> of_char (digit_char n) - 48 = n"
  by (simp add: digit_char_def)

definition decimal_value :: "string \<Rightarrow> nat" where
  "decimal_value s = foldl (\<lambda>v c. 10 * v + (of_char c - 48)) 0 s"

lemma decimal_value_decimal [simp]: "decimal_value (decimal n) = n"
proof (induction n rule: decimal.induct)
  case (1 n)
  show ?case
  proof (cases "n < 10")
    case True
    then show ?thesis by (subst decimal.simps) (simp add: decimal_value_def digit_char_value)
  next
    case False
    have "decimal_value (decimal n) = 10 * decimal_value (decimal (n div 10)) + n mod 10"
      using False by (subst decimal.simps) (simp add: decimal_value_def digit_char_value)
    with 1 False show ?thesis by simp
  qed
qed

lemma display_name_inject [simp]: "display_name s j = display_name s k \<longleftrightarrow> j = k"
proof
  assume "display_name s j = display_name s k"
  then have "decimal_value (decimal j) = decimal_value (decimal k)" by (simp add: display_name_def)
  then show "j = k" by simp
qed simp

lemma fresh_name_returns:
  assumes "finite taken"
  shows "\<exists>j \<ge> k. fresh_name s taken k = Some (display_name s j) \<and> display_name s j \<notin> taken"
proof (induction "card {j. k \<le> j \<and> display_name s j \<in> taken}" arbitrary: k rule: less_induct)
  case less
  have fin: "finite {j. k \<le> j \<and> display_name s j \<in> taken}"
  proof (rule finite_imageD)
    show "finite (display_name s ` {j. k \<le> j \<and> display_name s j \<in> taken})"
      by (rule finite_subset [OF _ assms]) auto
  qed (simp add: inj_on_def)
  show ?case
  proof (cases "display_name s k \<in> taken")
    case True
    let ?A = "{j. k \<le> j \<and> display_name s j \<in> taken}" and ?B = "{j. Suc k \<le> j \<and> display_name s j \<in> taken}"
    have "k \<in> ?A" "k \<notin> ?B" "?B \<subseteq> ?A" using True by auto
    then have "?B \<subset> ?A" by blast
    from less [OF psubset_card_mono [OF fin this]] obtain j where
      "Suc k \<le> j" "fresh_name s taken (Suc k) = Some (display_name s j)" "display_name s j \<notin> taken" by blast
    with True show ?thesis by (subst fresh_name.simps) (auto intro: exI [of _ j])
  next
    case False
    then show ?thesis by (subst fresh_name.simps) auto
  qed
qed

text \<open>What the naming loops keep: distinct names, all of them recorded as occupied.\<close>

definition names_inv ::
  "resolved_modules \<Rightarrow> (decl_id \<Rightarrow> string set) \<Rightarrow> decl_id set \<Rightarrow> decl_id list \<Rightarrow> decl_id set \<Rightarrow>
    string set \<times> (decl_id, string) btree \<Rightarrow> bool" where
  "names_inv rs reserved declarations actors visited s \<longleftrightarrow> finite (fst s)
     \<and> dom (map_of (snd s)) = set actors \<union> visited \<and> ran (map_of (snd s)) = fst s
     \<and> inj_on (map_of (snd s)) (dom (map_of (snd s)))
     \<and> (\<forall>a \<in> set actors. map_of (snd s) a = Some (name_in rs a))
     \<and> (\<forall>d \<in> visited - set actors. \<exists>name. map_of (snd s) d = Some name \<and> name \<notin> foreign_locals rs reserved declarations d
         \<and> (name = name_in rs d \<or> (\<exists>j. name = display_name (name_in rs d) j)))"

lemma actor_names:
  assumes "\<forall>a \<in> set actors. declared (modules_of rs) a" and "distinct (map (name_in rs) actors)"
  shows "\<exists>s. try_fold (actor_name_step rs) ({}, []) actors = Ok s \<and> names_inv rs reserved declarations actors {} s"
  using assms
proof (induction actors rule: rev_induct)
  case Nil
  then show ?case by (simp add: names_inv_def)
next
  case (snoc a actors)
  then obtain occupied names where s: "try_fold (actor_name_step rs) ({}, []) actors = Ok (occupied, names)"
    "names_inv rs reserved declarations actors {} (occupied, names)" by auto
  from snoc.prems(1) obtain x where x: "find_declaration rs a = Ok x" using find_declaration_declared(1) by force
  have new: "a \<notin> set actors" using snoc.prems(2) by auto
  have unused: "decl_name x \<notin> occupied"
  proof
    assume "decl_name x \<in> occupied"
    then obtain b where "map_of names b = Some (decl_name x)" using s(2) by (auto simp: names_inv_def ran_def)
    moreover from this have "b \<in> set actors" using s(2) by (auto simp: names_inv_def)
    ultimately have "name_in rs b = name_in rs a" using s(2) x by (simp add: names_inv_def)
    then have "name_in rs a \<in> name_in rs ` set actors" using \<open>b \<in> set actors\<close> by (metis imageI)
    with snoc.prems(2) show False by simp
  qed
  have "names_inv rs reserved declarations (actors @ [a]) {} (insert (decl_name x) occupied, bm_insert a (decl_name x) names)"
    using s(2) unused new x by (auto simp: names_inv_def inj_on_def ran_def)
  moreover have "try_fold (actor_name_step rs) ({}, []) (actors @ [a])
      = Ok (insert (decl_name x) occupied, bm_insert a (decl_name x) names)"
    unfolding try_fold_append s(1) by (simp add: actor_name_step_def x)
  ultimately show ?case by blast
qed

lemma display_name_step_inv:
  assumes inv: "names_inv rs reserved declarations actors visited s" and d: "declared (modules_of rs) d"
    and fin: "finite authored" "finite (foreign_locals rs reserved declarations d)"
  shows "\<exists>s'. display_name_step rs reserved declarations authored s d = Some (Ok s')
    \<and> names_inv rs reserved declarations actors (insert d visited) s'"
proof -
  obtain occupied names where s: "s = (occupied, names)" by fastforce
  show ?thesis
  proof (cases "map_of names d")
    case (Some name)
    then have "d \<in> set actors \<union> visited" using inv by (auto simp: names_inv_def s)
    then have "names_inv rs reserved declarations actors (insert d visited) s"
      using inv by (cases "d \<in> visited") (auto simp: names_inv_def insert_absorb)
    with Some show ?thesis by (auto simp: display_name_step_def s)
  next
    case None
    obtain x where x: "find_declaration rs d = Ok x" using find_declaration_declared(1) [OF d] by blast
    let ?foreign = "foreign_locals rs reserved declarations d"
    have "finite (occupied \<union> authored \<union> ?foreign)" using inv fin by (simp add: names_inv_def s)
    from fresh_name_returns [OF this, of 1 "decl_name x"] obtain j where
      j: "fresh_name (decl_name x) (occupied \<union> authored \<union> ?foreign) 1 = Some (display_name (decl_name x) j)"
        "display_name (decl_name x) j \<notin> occupied \<union> authored \<union> ?foreign" by blast
    define name where "name = (if decl_name x \<in> occupied \<or> decl_name x \<in> ?foreign then display_name (decl_name x) j else decl_name x)"
    have step: "display_name_step rs reserved declarations authored s d = Some (Ok (insert name occupied, bm_insert d name names))"
      using None j(1) by (cases "decl_name x \<in> occupied \<or> decl_name x \<in> ?foreign")
        (simp_all add: display_name_step_def s x name_def Let_def)
    have name: "name \<notin> occupied" "name \<notin> ?foreign" "name = name_in rs d \<or> (\<exists>j. name = display_name (name_in rs d) j)"
      using j(2) x by (auto simp: name_def)
    have fresh: "d \<notin> set actors" "d \<notin> visited" using None inv by (auto simp: names_inv_def s domIff)
    have "names_inv rs reserved declarations actors (insert d visited) (insert name occupied, bm_insert d name names)"
    proof -
      have "inj_on ((map_of names)(d \<mapsto> name)) (insert d (dom (map_of names)))"
        using inv name(1) None by (auto simp: names_inv_def s inj_on_def ran_def)
      moreover have "ran ((map_of names)(d \<mapsto> name)) = insert name occupied"
        using inv None by (simp add: names_inv_def s)
      ultimately show ?thesis using inv fresh name(2,3) by (auto simp: names_inv_def s)
    qed
    with step show ?thesis by blast
  qed
qed

definition the_declaration :: "resolved_modules \<Rightarrow> decl_id \<Rightarrow> resolved_declaration" where
  "the_declaration rs d = (case find_declaration rs d of Ok x \<Rightarrow> x | _ \<Rightarrow> undefined)"

lemma display_names:
  assumes "\<forall>d \<in> set ordered. declared (modules_of rs) d" and "finite authored"
    and "\<And>d. finite (foreign_locals rs reserved declarations d)" and "names_inv rs reserved declarations actors visited s"
  shows "\<exists>s'. try_fold_run (display_name_step rs reserved declarations authored) s ordered = Some (Ok s')
    \<and> names_inv rs reserved declarations actors (visited \<union> set ordered) s'"
  using assms
proof (induction ordered arbitrary: s visited)
  case (Cons d ordered)
  then obtain s' where s': "display_name_step rs reserved declarations authored s d = Some (Ok s')"
    "names_inv rs reserved declarations actors (insert d visited) s'"
    using display_name_step_inv [OF Cons.prems(4), of d authored] by auto
  with Cons.IH [OF _ Cons.prems(2,3) s'(2)] Cons.prems(1) show ?case by simp
qed simp

text \<open>
  C30: The display names of a selected closure are always found, and are distinct: every actor
  keeps its own name, and every other declaration has its source name or a generated name built
  from it, a name that no local of a declaration written in another file has.
\<close>

theorem selected_names_distinct:
  assumes "app_declarations rs app = Some (Ok declarations)" and "finite declarations"
    and "root_declarations rs = Ok roots"
    and "\<forall>d \<in> declarations \<union> set actors. declared (modules_of rs) d \<and> finite (reserved d)"
    and "distinct (map (name_in rs) actors)"
  shows "\<exists>names. selected_declaration_names rs reserved app actors = Some (Ok names)
    \<and> dom (map_of names) = declarations \<union> set actors \<and> inj_on (map_of names) (dom (map_of names))
    \<and> (\<forall>a \<in> set actors. map_of names a = Some (name_in rs a))
    \<and> (\<forall>d \<in> declarations - set actors. \<exists>name. map_of names d = Some name
        \<and> (name = name_in rs d \<or> (\<exists>j. name = display_name (name_in rs d) j))
        \<and> (\<forall>owner \<in> declarations. declaration_path rs owner \<noteq> declaration_path rs d \<longrightarrow> name \<notin> reserved owner))"
proof -
  have "\<forall>a \<in> set actors. declared (modules_of rs) a" using assms(4) by simp
  from actor_names [OF this assms(5)] obtain s where s: "try_fold (actor_name_step rs) ({}, []) actors = Ok s"
    "names_inv rs reserved declarations actors {} s" by blast
  define ordered where "ordered = sort_key (display_key rs (set roots)) (sorted_list_of_set declarations)"
  have ordered: "set ordered = declarations" using assms(2) by (simp add: ordered_def)
  have "\<forall>d \<in> set (sorted_list_of_set declarations). \<exists>x. find_declaration rs d = Ok x"
    using assms(2,4) find_declaration_declared(1) by simp
  then have "find_declaration rs d = Ok (the_declaration rs d)" if "d \<in> set (sorted_list_of_set declarations)" for d
    using that by (force simp: the_declaration_def)
  then have authored: "try_map (find_declaration rs) (sorted_list_of_set declarations)
      = Ok (map (the_declaration rs) (sorted_list_of_set declarations))" by (rule try_map_total)
  have foreign: "finite (foreign_locals rs reserved declarations d)" for d
    using assms(2,4) by (auto simp: foreign_locals_def)
  obtain s' where s': "try_fold_run (display_name_step rs reserved declarations
        (set (map decl_name (map (the_declaration rs) (sorted_list_of_set declarations))))) s ordered = Some (Ok s')"
    "names_inv rs reserved declarations actors declarations s'"
    using display_names [OF _ _ foreign s(2), of ordered "set (map decl_name (map (the_declaration rs) (sorted_list_of_set declarations)))"]
      assms(4) by (auto simp: ordered)
  have "selected_declaration_names rs reserved app actors = Some (Ok (snd s'))"
    unfolding selected_declaration_names_def assms(1,3) s(1) authored
    using s'(1) by (simp add: Let_def ordered_def authored image_image)
  moreover have "\<forall>d \<in> declarations - set actors. \<exists>name. map_of (snd s') d = Some name
      \<and> (name = name_in rs d \<or> (\<exists>j. name = display_name (name_in rs d) j))
      \<and> (\<forall>owner \<in> declarations. declaration_path rs owner \<noteq> declaration_path rs d \<longrightarrow> name \<notin> reserved owner)"
  proof
    fix d assume "d \<in> declarations - set actors"
    with s'(2) obtain name where name: "map_of (snd s') d = Some name" "name \<notin> foreign_locals rs reserved declarations d"
      "name = name_in rs d \<or> (\<exists>j. name = display_name (name_in rs d) j)" unfolding names_inv_def by blast
    from name(2) have "\<forall>owner \<in> declarations. declaration_path rs owner \<noteq> declaration_path rs d \<longrightarrow> name \<notin> reserved owner"
      by (auto simp: foreign_locals_def)
    with name(1,3) show "\<exists>name. map_of (snd s') d = Some name
      \<and> (name = name_in rs d \<or> (\<exists>j. name = display_name (name_in rs d) j))
      \<and> (\<forall>owner \<in> declarations. declaration_path rs owner \<noteq> declaration_path rs d \<longrightarrow> name \<notin> reserved owner)" by blast
  qed
  moreover have "dom (map_of (snd s')) = declarations \<union> set actors" "inj_on (map_of (snd s')) (dom (map_of (snd s')))"
    "\<forall>a \<in> set actors. map_of (snd s') a = Some (name_in rs a)"
    using s'(2) by (auto simp: names_inv_def)
  ultimately show ?thesis by blast
qed

section \<open>A selected app\<close>

text \<open>The root actor refers to the actor of the other app, and has a local of its name.\<close>

definition demo_bindings :: "(decl_id, decl_bindings) btree" where
  "demo_bindings =
     [(DeclId 0 Actor 0, \<lparr>db_declarations = {DeclId 1 Actor 0}, db_apps = {\<lparr>am_app = DeclId 1 App 0, am_actor = DeclId 1 Actor 0\<rparr>}\<rparr>),
      (DeclId 0 App 0, \<lparr>db_declarations = {DeclId 0 Actor 0}, db_apps = {}\<rparr>),
      (DeclId 1 Actor 0, \<lparr>db_declarations = {}, db_apps = {}\<rparr>),
      (DeclId 1 App 0, \<lparr>db_declarations = {DeclId 1 Actor 0}, db_apps = {}\<rparr>)]"

definition demo_view :: "module_id \<Rightarrow> module_id list \<Rightarrow> resolved_modules" where
  "demo_view root reachable = demo_resolved\<lparr>rs_bindings := demo_bindings, rs_view := \<lparr>mv_root = root, mv_reachable = reachable\<rparr>\<rparr>"

lemma demo_view_simps [simp]:
  "modules_of (demo_view root reachable) = demo_modules" "rs_imports (demo_view root reachable) = demo_imports"
  "rs_exports (demo_view root reachable) = demo_table" "rs_bindings (demo_view root reachable) = demo_bindings"
  "rs_view (demo_view root reachable) = \<lparr>mv_root = root, mv_reachable = reachable\<rparr>"
  "mv_root (rs_view (demo_view root reachable)) = root"
  by (simp_all add: demo_view_def demo_resolved_def resolved_demo_def modules_of_def comp_def)

lemma demo_view_ok: "exports_ok (demo_view root reachable)"
  using demo_resolved_ok by (simp add: exports_ok_def demo_resolved_def)

lemma demo_declared:
  "declared demo_modules d \<longleftrightarrow> d \<in> {DeclId 0 Actor 0, DeclId 0 App 0, DeclId 1 Actor 0, DeclId 1 App 0}"
proof (cases d)
  case (DeclId m kind i)
  then show ?thesis
    by (cases kind; cases "m = 0"; cases "m = 1"; simp add: declared_def demo_modules_def demo_module_def decl_count_def)
qed

lemma demo_find:
  "find_declaration (demo_view root reachable) (DeclId 0 App 0) = Ok (AnApp \<lparr>ap_name = ''RootApp'', ap_actors = [''Root'']\<rparr>)"
  "find_declaration (demo_view root reachable) (DeclId 1 App 0) = Ok (AnApp \<lparr>ap_name = ''DepApp'', ap_actors = [''Dep'']\<rparr>)"
  "\<exists>d. find_declaration (demo_view root reachable) (DeclId 0 Actor 0) = Ok (AnActor d) \<and> ac_name d = ''Root''"
  "\<exists>d. find_declaration (demo_view root reachable) (DeclId 1 Actor 0) = Ok (AnActor d) \<and> ac_name d = ''Dep''"
  by (simp_all add: find_declaration_def index_at_def declaration_in_module_def) (simp_all add: demo_modules_def demo_module_def)

lemma demo_names [simp]:
  "name_in (demo_view root reachable) (DeclId 0 Actor 0) = ''Root''" "name_in (demo_view root reachable) (DeclId 1 Actor 0) = ''Dep''"
  using demo_find(3,4) [of root reachable] by auto

lemma demo_paths:
  "path_end (demo_view root reachable) 0 (split_names ''Root'') = Some (Inl (Declaration (DeclId 0 Actor 0)))"
  "path_end (demo_view root reachable) 1 (split_names ''Dep'') = Some (Inl (Declaration (DeclId 1 Actor 0)))"
proof -
  have "split_names ''Root'' = [''Root'']" "split_names ''Dep'' = [''Dep'']" "is_identifier ''Root''" "is_identifier ''Dep''"
    by code_simp+
  then show "path_end (demo_view root reachable) 0 (split_names ''Root'') = Some (Inl (Declaration (DeclId 0 Actor 0)))"
    "path_end (demo_view root reachable) 1 (split_names ''Dep'') = Some (Inl (Declaration (DeclId 1 Actor 0)))"
    by (simp_all add: demo_table_def)
qed

lemma demo_actors:
  "app_actor_ids (demo_view root reachable) (DeclId 0 App 0) = Some (Ok [DeclId 0 Actor 0])"
  "app_actor_ids (demo_view root reachable) (DeclId 1 App 0) = Some (Ok [DeclId 1 Actor 0])"
proof -
  note ok = demo_view_ok [of root reachable]
  have m: "0 < length demo_modules" "1 < length demo_modules" by (simp_all add: demo_modules_def)
  have "resolve (demo_view root reachable) 0 ''Root'' = Some (Ok (Declaration (DeclId 0 Actor 0)))"
    "resolve (demo_view root reachable) 1 ''Dep'' = Some (Ok (Declaration (DeclId 1 Actor 0)))"
    using resolve_direct [OF ok _ demo_paths(1)] resolve_direct [OF ok _ demo_paths(2)] m by simp_all
  then show "app_actor_ids (demo_view root reachable) (DeclId 0 App 0) = Some (Ok [DeclId 0 Actor 0])"
    "app_actor_ids (demo_view root reachable) (DeclId 1 App 0) = Some (Ok [DeclId 1 Actor 0])"
    by (simp_all add: app_actor_ids_exact [OF ok _ demo_find(1)] app_actor_ids_exact [OF ok _ demo_find(2)] demo_declared del: One_nat_def)
qed

lemma demo_declarations:
  "app_declarations (demo_view 0 reachable) (Some (DeclId 0 App 0)) = Some (Ok {DeclId 0 Actor 0, DeclId 1 Actor 0})"
  "app_declarations (demo_view 1 reachable) (Some (DeclId 1 App 0)) = Some (Ok {DeclId 1 Actor 0})"
  by (simp_all add: app_declarations_def root_declarations_def index_at_def demo_actors declaration_closure_def
      del: One_nat_def)
    (simp_all add: demo_table_def demo_modules_def declaration_ids_def demo_bindings_def insert_commute del: One_nat_def)

definition demo_reserved :: "decl_id \<Rightarrow> string set" where
  "demo_reserved d = (if d = DeclId 0 Actor 0 then {''Dep''} else {})"

lemma selected_names_distinct_witness:
  "\<exists>names j. selected_declaration_names (demo_view 0 [0, 1]) demo_reserved (Some (DeclId 0 App 0)) [DeclId 0 Actor 0] = Some (Ok names)
    \<and> map_of names (DeclId 1 Actor 0) = Some (display_name ''Dep'' j)"
proof -
  have roots: "root_declarations (demo_view 0 [0, 1]) = Ok [DeclId 0 Actor 0, DeclId 0 App 0]"
    by (simp add: root_declarations_def index_at_def) (simp add: demo_table_def declaration_ids_def)
  have files: "declaration_path (demo_view 0 [0, 1]) (DeclId 0 Actor 0) \<noteq> declaration_path (demo_view 0 [0, 1]) (DeclId 1 Actor 0)"
    by code_simp
  have ok: "\<forall>d \<in> {DeclId 0 Actor 0, DeclId 1 Actor 0} \<union> set [DeclId 0 Actor 0].
      declared (modules_of (demo_view 0 [0, 1])) d \<and> finite (demo_reserved d)"
    by (simp add: demo_declared demo_reserved_def)
  obtain names where names: "selected_declaration_names (demo_view 0 [0, 1]) demo_reserved (Some (DeclId 0 App 0)) [DeclId 0 Actor 0]
      = Some (Ok names)"
    "\<forall>d \<in> {DeclId 0 Actor 0, DeclId 1 Actor 0} - set [DeclId 0 Actor 0]. \<exists>name. map_of names d = Some name
        \<and> (name = name_in (demo_view 0 [0, 1]) d \<or> (\<exists>j. name = display_name (name_in (demo_view 0 [0, 1]) d) j))
        \<and> (\<forall>owner \<in> {DeclId 0 Actor 0, DeclId 1 Actor 0}.
            declaration_path (demo_view 0 [0, 1]) owner \<noteq> declaration_path (demo_view 0 [0, 1]) d \<longrightarrow> name \<notin> demo_reserved owner)"
    using selected_names_distinct [OF demo_declarations(1) _ roots ok] by (elim meta_impE exE conjE) simp_all
  have "DeclId 1 Actor 0 \<in> {DeclId 0 Actor 0, DeclId 1 Actor 0} - set [DeclId 0 Actor 0]" by simp
  from names(2) [rule_format, OF this] files obtain name where "map_of names (DeclId 1 Actor 0) = Some name"
    "name = ''Dep'' \<or> (\<exists>j. name = display_name ''Dep'' j)" "name \<notin> demo_reserved (DeclId 0 Actor 0)"
    unfolding demo_names by blast
  with names(1) show ?thesis by (auto simp: demo_reserved_def)
qed

end
