(* ===== verification/App_Graph.thy ===== *)
theory App_Graph
  imports Resolved_Views
begin

text \<open>
  The order in which apps are built (\<^verbatim>\<open>src/compiler/app_graph.rs\<close>): a depth-first visit that
  marks an app active while the apps it refers to are visited, so that a second arrival at an
  active app is an import cycle. The visits that \<^const>\<open>None\<close> stands for are those whose
  references are never resolved.
\<close>

section \<open>The planner\<close>

datatype source_app = SourceApp (sa_source: path) (sa_app: string)

fun source_key :: "source_app \<Rightarrow> path \<times> string" where
  "source_key (SourceApp p nm) = (p, nm)"

lemma source_key_inject: "source_key a = source_key b \<longleftrightarrow> a = b"
  by (cases a; cases b) simp

instantiation source_app :: linorder
begin

definition less_eq_source_app :: "source_app \<Rightarrow> source_app \<Rightarrow> bool" where
  "a \<le> b \<longleftrightarrow> source_key a \<le> source_key b"

definition less_source_app :: "source_app \<Rightarrow> source_app \<Rightarrow> bool" where
  "a < b \<longleftrightarrow> source_key a < source_key b"

instance
  by standard (auto simp: less_eq_source_app_def less_source_app_def source_key_inject [symmetric])

end

record app_build_unit =
  au_source_app :: source_app
  au_root :: module_id
  au_dependencies :: "source_app list"

datatype graph_error =
    AppFromTwoSources string path path
  | AppImportCycle "string list"
  | AppOutsideGraph path
  | Unresolved resolve_error

datatype visit = Active nat | Complete

record planner =
  gp_app_sources :: "(string, path) btree"
  gp_visits :: "(source_app, visit) btree"
  gp_stack :: "source_app list"
  gp_order :: "app_build_unit list"

text \<open>
  The apps whose members an app refers to. The source maps the members and collects the result
  in a set; only their apps are read, so they are visited once each here.
\<close>

definition member_source :: "resolved_modules \<Rightarrow> decl_id \<Rightarrow> (resolve_error, source_app) outcome" where
  "member_source view app = and_then (app_source view app) (\<lambda>(source, d). Ok (SourceApp source (ap_name d)))"

definition app_dependencies ::
  "resolved_modules \<Rightarrow> module_id \<Rightarrow> source_app \<Rightarrow> (resolve_error, source_app list) outcome option" where
  "app_dependencies rs root app =
     bind_run (Some (with_root rs root)) (\<lambda>view.
     bind_run (Some (root_app view (Some (sa_app app)))) (\<lambda>selected. case selected of
         None \<Rightarrow> Some (Err (AppNotDeclared (sa_source app) (sa_app app)))
       | Some selected_app \<Rightarrow>
           bind_run (referenced_app_members view selected_app) (\<lambda>members.
           bind_run (Some (try_map (member_source view) (sorted_list_of_set (am_app ` members))))
             (\<lambda>apps. Some (Ok (sorted_list_of_set (set apps)))))))"

definition register_source :: "source_app \<Rightarrow> planner \<Rightarrow> (graph_error, planner) outcome" where
  "register_source app p =
     (case map_of (gp_app_sources p) (sa_app app) of
        Some previous \<Rightarrow>
          if previous \<noteq> sa_source app then Err (AppFromTwoSources (sa_app app) previous (sa_source app))
          else Ok (p\<lparr>gp_app_sources := bm_insert (sa_app app) (sa_source app) (gp_app_sources p)\<rparr>)
      | None \<Rightarrow> Ok (p\<lparr>gp_app_sources := bm_insert (sa_app app) (sa_source app) (gp_app_sources p)\<rparr>))"

definition cycle_error :: "source_app \<Rightarrow> nat \<Rightarrow> planner \<Rightarrow> (graph_error, planner) outcome" where
  "cycle_error app start p =
     (if start \<le> length (gp_stack p) then Err (AppImportCycle (map sa_app (drop start (gp_stack p) @ [app]))) else Panic)"

definition enter_app :: "source_app \<Rightarrow> planner \<Rightarrow> planner" where
  "enter_app app p = p\<lparr>gp_visits := bm_insert app (Active (length (gp_stack p))) (gp_visits p), gp_stack := gp_stack p @ [app]\<rparr>"

definition leave_app :: "source_app \<Rightarrow> module_id \<Rightarrow> source_app list \<Rightarrow> planner \<Rightarrow> planner" where
  "leave_app app root dependencies p =
     p\<lparr>gp_stack := butlast (gp_stack p), gp_visits := bm_insert app Complete (gp_visits p),
       gp_order := gp_order p @ [\<lparr>au_source_app = app, au_root = root, au_dependencies = dependencies\<rparr>]\<rparr>"

partial_function (option) visit_app ::
  "resolved_modules \<Rightarrow> source_app \<Rightarrow> planner \<Rightarrow> (graph_error, planner) outcome option" where
  "visit_app rs app p =
     bind_run (Some (register_source app p)) (\<lambda>p. case map_of (gp_visits p) app of
         Some Complete \<Rightarrow> Some (Ok p)
       | Some (Active start) \<Rightarrow> Some (cycle_error app start p)
       | None \<Rightarrow> (case module_id_for_path rs (sa_source app) of
             None \<Rightarrow> Some (Err (AppOutsideGraph (sa_source app)))
           | Some root \<Rightarrow>
               bind_run (map_option (map_err Unresolved) (app_dependencies rs root app)) (\<lambda>dependencies.
               bind_run (try_fold_run (\<lambda>p dependency. visit_app rs dependency p) (enter_app app p) dependencies)
                 (\<lambda>p. Some (Ok (leave_app app root dependencies p))))))"

definition app_graph_plan :: "resolved_modules \<Rightarrow> string \<Rightarrow> (graph_error, app_build_unit list) outcome option" where
  "app_graph_plan rs app =
     bind_run (Some (index_at (modules_of rs) (mv_root (rs_view rs))) :: (graph_error, module_decl) outcome option) (\<lambda>root.
     bind_run (visit_app rs (SourceApp (md_path root) app) \<lparr>gp_app_sources = [], gp_visits = [], gp_stack = [], gp_order = []\<rparr>)
       (\<lambda>p. Some (Ok (gp_order p))))"

definition program_for :: "resolved_modules \<Rightarrow> app_build_unit \<Rightarrow> (resolve_error, resolved_modules) outcome" where
  "program_for rs u = with_root rs (au_root u)"

section \<open>Dependencies between apps\<close>

definition depends :: "resolved_modules \<Rightarrow> (source_app \<times> source_app) set" where
  "depends rs = {(a, b). \<exists>root deps. module_id_for_path rs (sa_source a) = Some root
     \<and> app_dependencies rs root a = Some (Ok deps) \<and> b \<in> set deps}"

text \<open>An app whose dependencies are found is declared in the module of its path.\<close>

definition known_apps :: "resolved_modules \<Rightarrow> source_app set" where
  "known_apps rs = (\<Union>m \<in> set (modules_of rs). (\<lambda>d. SourceApp (md_path m) (ap_name d)) ` set (md_apps m))"

lemma finite_known_apps: "finite (known_apps rs)"
  by (simp add: known_apps_def)

lemma position_of_Some: "position_of P xs = Some i \<Longrightarrow> i < length xs \<and> P (xs ! i)"
  by (induction xs arbitrary: i) (auto split: if_splits)

lemma with_root_Ok:
  assumes "with_root rs root = Ok view"
  shows "modules_of view = modules_of rs" "mv_root (rs_view view) = root"
  using assms by (auto simp: with_root_def view_from_def modules_of_def outcome_simps)

lemma app_dependencies_known:
  assumes "module_id_for_path rs (sa_source a) = Some root" "app_dependencies rs root a = Some (Ok deps)"
  shows "a \<in> known_apps rs"
proof -
  have m: "root < length (modules_of rs)" "md_path (modules_of rs ! root) = sa_source a"
    using find_SomeD [OF assms(1) [unfolded module_id_for_path_def]] by auto
  obtain view selected where view: "with_root rs root = Ok view" "root_app view (Some (sa_app a)) = Ok selected"
    using assms(2) unfolding app_dependencies_def bind_run_Ok_iff by blast
  then obtain i where "position_of (\<lambda>app. ap_name app = sa_app a) (md_apps (modules_of rs ! root)) = Some i"
    using with_root_Ok [OF view(1)] by (auto simp: root_app_def Let_def outcome_simps split: option.splits)
  from position_of_Some [OF this] m show ?thesis
    unfolding known_apps_def by (intro UN_I [of "modules_of rs ! root"]) (auto simp: image_iff intro!: bexI [of _ "md_apps (modules_of rs ! root) ! i"] source_app.expand)
qed

section \<open>What a visit keeps\<close>

definition unit_ok :: "resolved_modules \<Rightarrow> app_build_unit list \<Rightarrow> app_build_unit \<Rightarrow> bool" where
  "unit_ok rs earlier u \<longleftrightarrow> module_id_for_path rs (sa_source (au_source_app u)) = Some (au_root u)
     \<and> app_dependencies rs (au_root u) (au_source_app u) = Some (Ok (au_dependencies u))
     \<and> set (au_dependencies u) \<subseteq> au_source_app ` set earlier"

text \<open>Every unit follows the units it depends on.\<close>

definition built_in_order :: "resolved_modules \<Rightarrow> app_build_unit list \<Rightarrow> bool" where
  "built_in_order rs us \<longleftrightarrow> distinct (map au_source_app us) \<and> (\<forall>k < length us. unit_ok rs (take k us) (us ! k))"

lemma built_in_order_snoc:
  "built_in_order rs (us @ [u]) \<longleftrightarrow> built_in_order rs us \<and> au_source_app u \<notin> au_source_app ` set us \<and> unit_ok rs us u"
  by (auto simp: built_in_order_def nth_append All_less_Suc)

definition plan_inv :: "resolved_modules \<Rightarrow> planner \<Rightarrow> bool" where
  "plan_inv rs p \<longleftrightarrow>
     (\<forall>a. map_of (gp_visits p) a = Some Complete \<longleftrightarrow> a \<in> au_source_app ` set (gp_order p))
     \<and> (\<forall>a i. map_of (gp_visits p) a = Some (Active i) \<longleftrightarrow> i < length (gp_stack p) \<and> gp_stack p ! i = a)
     \<and> built_in_order rs (gp_order p)
     \<and> (\<forall>a. map_of (gp_visits p) a \<noteq> None \<longrightarrow> map_of (gp_app_sources p) (sa_app a) = Some (sa_source a))
     \<and> (\<forall>i. Suc i < length (gp_stack p) \<longrightarrow> (gp_stack p ! i, gp_stack p ! Suc i) \<in> depends rs)"

lemma plan_invD:
  assumes "plan_inv rs p"
  shows "map_of (gp_visits p) a = Some Complete \<longleftrightarrow> a \<in> au_source_app ` set (gp_order p)"
    "map_of (gp_visits p) a = Some (Active i) \<longleftrightarrow> i < length (gp_stack p) \<and> gp_stack p ! i = a"
    "built_in_order rs (gp_order p)"
    "map_of (gp_visits p) a \<noteq> None \<Longrightarrow> map_of (gp_app_sources p) (sa_app a) = Some (sa_source a)"
    "Suc i < length (gp_stack p) \<Longrightarrow> (gp_stack p ! i, gp_stack p ! Suc i) \<in> depends rs"
  using assms unfolding plan_inv_def by blast+

lemma plan_inv_dom:
  assumes "plan_inv rs p"
  shows "dom (map_of (gp_visits p)) = set (gp_stack p) \<union> au_source_app ` set (gp_order p)"
proof (rule set_eqI)
  fix a
  have "a \<in> dom (map_of (gp_visits p)) \<longleftrightarrow>
      map_of (gp_visits p) a = Some Complete \<or> (\<exists>i. map_of (gp_visits p) a = Some (Active i))"
    by (auto simp: domIff) (metis visit.exhaust)
  then show "a \<in> dom (map_of (gp_visits p)) \<longleftrightarrow> a \<in> set (gp_stack p) \<union> au_source_app ` set (gp_order p)"
    unfolding plan_invD(1,2) [OF assms] by (auto simp: in_set_conv_nth)
qed

lemma stack_path:
  assumes "plan_inv rs p" "i \<le> j" "j < length (gp_stack p)"
  shows "(gp_stack p ! i, gp_stack p ! j) \<in> (depends rs)\<^sup>*"
  using assms(2,3)
proof (induction rule: dec_induct)
  case (step j)
  then have "(gp_stack p ! i, gp_stack p ! j) \<in> (depends rs)\<^sup>*" by simp
  also have "(gp_stack p ! j, gp_stack p ! Suc j) \<in> depends rs" using plan_invD(5) [OF assms(1)] step by blast
  finally show ?case .
qed simp

lemma register_source_cases:
  assumes inv: "plan_inv rs p"
  shows "(\<exists>previous. register_source app p = Err (AppFromTwoSources (sa_app app) previous (sa_source app)))
    \<or> (\<exists>p'. register_source app p = Ok p' \<and> plan_inv rs p' \<and> map_of (gp_app_sources p') (sa_app app) = Some (sa_source app)
        \<and> gp_visits p' = gp_visits p \<and> gp_stack p' = gp_stack p \<and> gp_order p' = gp_order p)"
proof (cases "map_of (gp_app_sources p) (sa_app app) \<in> {None, Some (sa_source app)}")
  case False
  then show ?thesis by (auto simp: register_source_def split: option.splits)
next
  case True
  let ?p = "p\<lparr>gp_app_sources := bm_insert (sa_app app) (sa_source app) (gp_app_sources p)\<rparr>"
  have "register_source app p = Ok ?p" using True by (auto simp: register_source_def split: option.splits)
  moreover have "map_of (gp_app_sources ?p) (sa_app a) = Some (sa_source a)" if "map_of (gp_visits p) a \<noteq> None" for a
    using plan_invD(4) [OF inv that] True by auto
  then have "plan_inv rs ?p" using inv unfolding plan_inv_def by simp
  ultimately show ?thesis by force
qed

lemma enter_inv:
  assumes inv: "plan_inv rs p" and new: "map_of (gp_visits p) app = None"
    and src: "map_of (gp_app_sources p) (sa_app app) = Some (sa_source app)"
    and from_top: "gp_stack p = [] \<or> (last (gp_stack p), app) \<in> depends rs"
  shows "plan_inv rs (enter_app app p)"
proof -
  note d = plan_invD [OF inv]
  have fresh: "app \<notin> set (gp_stack p)" "app \<notin> au_source_app ` set (gp_order p)"
    using new plan_inv_dom [OF inv] by (auto simp: domIff)
  let ?v = "(map_of (gp_visits p))(app \<mapsto> Active (length (gp_stack p)))"
  have "?v a = Some Complete \<longleftrightarrow> a \<in> au_source_app ` set (gp_order p)" for a
    using d(1) [of a] fresh(2) by simp
  moreover have "?v a = Some (Active i) \<longleftrightarrow> i < length (gp_stack p @ [app]) \<and> (gp_stack p @ [app]) ! i = a" for a i
    using d(2) [of a i] fresh(1) by (auto simp: nth_append less_Suc_eq in_set_conv_nth)
  moreover have "?v a \<noteq> None \<longrightarrow> map_of (gp_app_sources p) (sa_app a) = Some (sa_source a)" for a
    using d(4) [of a] src by simp
  moreover have "((gp_stack p @ [app]) ! i, (gp_stack p @ [app]) ! Suc i) \<in> depends rs" if "Suc i < length (gp_stack p @ [app])" for i
  proof (cases "Suc i < length (gp_stack p)")
    case True
    then show ?thesis using d(5) [of i] by (simp add: nth_append)
  next
    case False
    with that have i: "Suc i = length (gp_stack p)" by simp
    then have ne: "gp_stack p \<noteq> []" by auto
    have "last (gp_stack p) = gp_stack p ! i" unfolding last_conv_nth [OF ne] i [symmetric] by simp
    with ne from_top i show ?thesis by (simp add: nth_append)
  qed
  ultimately show ?thesis using d(3) unfolding plan_inv_def enter_app_def by simp
qed

lemma leave_inv:
  assumes inv: "plan_inv rs p" and stack: "gp_stack p = below @ [app]"
    and unit: "module_id_for_path rs (sa_source app) = Some root" "app_dependencies rs root app = Some (Ok deps)"
    and deps: "set deps \<subseteq> au_source_app ` set (gp_order p)"
  shows "plan_inv rs (leave_app app root deps p)" "gp_stack (leave_app app root deps p) = below"
proof -
  note d = plan_invD [OF inv]
  let ?u = "\<lparr>au_source_app = app, au_root = root, au_dependencies = deps\<rparr>"
  have top: "map_of (gp_visits p) app = Some (Active (length below))" unfolding d(2) stack by simp
  then have fresh: "app \<notin> au_source_app ` set (gp_order p)" using d(1) [of app] by simp
  let ?v = "(map_of (gp_visits p))(app \<mapsto> Complete)"
  have "?v a = Some Complete \<longleftrightarrow> a \<in> au_source_app ` set (gp_order p @ [?u])" for a
    using d(1) [of a] by auto
  moreover have "?v a = Some (Active i) \<longleftrightarrow> i < length below \<and> below ! i = a" for a i
  proof (cases "a = app")
    case True
    have "i < length below \<Longrightarrow> below ! i \<noteq> app"
      using top d(2) [of app i] unfolding stack by (auto simp: nth_append)
    with True show ?thesis by auto
  next
    case False
    with d(2) [of a i] show ?thesis unfolding stack by (auto simp: nth_append less_Suc_eq)
  qed
  moreover have "built_in_order rs (gp_order p @ [?u])"
    unfolding built_in_order_snoc using d(3) fresh unit deps by (simp add: unit_ok_def)
  moreover have "?v a \<noteq> None \<longrightarrow> map_of (gp_app_sources p) (sa_app a) = Some (sa_source a)" for a
    using d(4) [of a] d(4) [of app] top by auto
  moreover have "(below ! i, below ! Suc i) \<in> depends rs" if "Suc i < length below" for i
    using d(5) [of i] that unfolding stack by (simp add: nth_append)
  ultimately show "plan_inv rs (leave_app app root deps p)"
    unfolding plan_inv_def by (simp add: leave_app_def stack)
  show "gp_stack (leave_app app root deps p) = below" by (simp add: leave_app_def stack)
qed

section \<open>The visit\<close>

text \<open>
  What a visit promises of its result: it never panics and always returns, it reports a cycle only
  if there is one, and on success it completes the app, leaves the stack as it was and appends
  units of apps it depends on.
\<close>

definition visit_spec ::
  "resolved_modules \<Rightarrow> source_app set \<Rightarrow> planner \<Rightarrow> (graph_error, planner) outcome option \<Rightarrow> bool" where
  "visit_spec rs wanted p r \<longleftrightarrow> (case r of
       Some (Ok p') \<Rightarrow> plan_inv rs p' \<and> gp_stack p' = gp_stack p \<and> wanted \<subseteq> au_source_app ` set (gp_order p')
         \<and> (\<exists>us. gp_order p' = gp_order p @ us \<and> au_source_app ` set us \<subseteq> (depends rs)\<^sup>* `` wanted)
     | Some (Err e) \<Rightarrow> (\<exists>names. e = AppImportCycle names) \<longrightarrow> \<not> acyclic (depends rs)
     | _ \<Rightarrow> False)"

definition answers :: "resolved_modules \<Rightarrow> bool" where
  "answers rs \<longleftrightarrow> (\<forall>a root. module_id_for_path rs (sa_source a) = Some root \<longrightarrow> returns (app_dependencies rs root a))"

lemma visit_spec_simps [simp]:
  "\<not> visit_spec rs wanted p None" "\<not> visit_spec rs wanted p (Some Panic)"
  "visit_spec rs wanted p (Some (Ok p')) \<longleftrightarrow> plan_inv rs p' \<and> gp_stack p' = gp_stack p
     \<and> wanted \<subseteq> au_source_app ` set (gp_order p')
     \<and> (\<exists>us. gp_order p' = gp_order p @ us \<and> au_source_app ` set us \<subseteq> (depends rs)\<^sup>* `` wanted)"
  "visit_spec rs wanted p (Some (Err e)) \<longleftrightarrow> ((\<exists>names. e = AppImportCycle names) \<longrightarrow> \<not> acyclic (depends rs))"
  by (simp_all add: visit_spec_def)

lemma visit_spec_SomeE:
  assumes "visit_spec rs wanted p r"
  obtains t where "r = Some t" "t \<noteq> Panic"
proof (cases r)
  case (Some t)
  with assms have "t \<noteq> Panic" by auto
  with Some that show thesis by blast
qed (use assms in simp)

text \<open>Visiting a list of dependencies, given what each single visit does.\<close>

lemma visit_list:
  assumes single: "\<And>d q. d \<in> set ds \<Longrightarrow> plan_inv rs q \<Longrightarrow> gp_stack q = stack
      \<Longrightarrow> dom (map_of (gp_visits p)) \<subseteq> dom (map_of (gp_visits q)) \<Longrightarrow> visit_spec rs {d} q (visit_app rs d q)"
    and "plan_inv rs q" "gp_stack q = stack" "dom (map_of (gp_visits p)) \<subseteq> dom (map_of (gp_visits q))"
  shows "visit_spec rs (set ds) q (try_fold_run (\<lambda>q d. visit_app rs d q) q ds)"
  using assms
proof (induction ds arbitrary: q)
  case (Cons d ds)
  have first: "visit_spec rs {d} q (visit_app rs d q)" using Cons.prems by simp
  then obtain r where r: "visit_app rs d q = Some r" "r \<noteq> Panic" by (rule visit_spec_SomeE)
  show ?case
  proof (cases r)
    case (Ok q')
    with first r(1) have "visit_spec rs {d} q (Some (Ok q'))" by simp
    then obtain us where q': "plan_inv rs q'" "gp_stack q' = stack" "d \<in> au_source_app ` set (gp_order q')"
      "gp_order q' = gp_order q @ us" "au_source_app ` set us \<subseteq> (depends rs)\<^sup>* `` {d}"
      unfolding visit_spec_simps Cons.prems(3) by blast
    have dom: "dom (map_of (gp_visits p)) \<subseteq> dom (map_of (gp_visits q'))"
      using Cons.prems(3,4) plan_inv_dom [OF Cons.prems(2)] plan_inv_dom [OF q'(1)] q'(2,4) by auto
    have rest: "visit_spec rs (set ds) q' (try_fold_run (\<lambda>q d. visit_app rs d q) q' ds)"
      using Cons.prems(1) by (intro Cons.IH q' dom) auto
    then obtain t where t: "try_fold_run (\<lambda>q d. visit_app rs d q) q' ds = Some t" "t \<noteq> Panic"
      by (rule visit_spec_SomeE)
    show ?thesis
    proof (cases t)
      case (Ok q'')
      with rest t(1) have "visit_spec rs (set ds) q' (Some (Ok q''))" by simp
      then obtain us' where q'': "plan_inv rs q''" "gp_stack q'' = gp_stack q'" "set ds \<subseteq> au_source_app ` set (gp_order q'')"
        "gp_order q'' = gp_order q' @ us'" "au_source_app ` set us' \<subseteq> (depends rs)\<^sup>* `` set ds"
        unfolding visit_spec_simps by blast
      have "au_source_app ` set (us @ us') \<subseteq> (depends rs)\<^sup>* `` set (d # ds)" using q'(5) q''(5) by auto
      moreover have "gp_order q'' = gp_order q @ (us @ us')" using q'(4) q''(4) by simp
      moreover have "set (d # ds) \<subseteq> au_source_app ` set (gp_order q'')" using q'(3) q''(3,4) by auto
      moreover have "try_fold_run (\<lambda>q d. visit_app rs d q) q (d # ds) = Some (Ok q'')"
        using r(1) \<open>r = Ok q'\<close> t(1) Ok by simp
      ultimately show ?thesis using q''(1,2) q'(2) Cons.prems(3) by auto
    next
      case (Err e)
      with rest t(1) r(1) \<open>r = Ok q'\<close> show ?thesis by simp
    qed (use t in simp)
  next
    case (Err e)
    with first r(1) show ?thesis by simp
  qed (use r in simp)
qed auto

lemma visit_app_spec:
  assumes ans: "answers rs" and "plan_inv rs p" and "gp_stack p = [] \<or> (last (gp_stack p), app) \<in> depends rs"
  shows "visit_spec rs {app} p (visit_app rs app p)"
  using assms(2,3)
proof (induction "card (known_apps rs - dom (map_of (gp_visits p)))" arbitrary: app p rule: less_induct)
  case less
  from register_source_cases [OF less.prems(1), of app] show ?case
  proof (elim disjE exE conjE)
    fix previous assume "register_source app p = Err (AppFromTwoSources (sa_app app) previous (sa_source app))"
    then show ?thesis by (subst visit_app.simps) simp
  next
    fix p1 assume p1: "register_source app p = Ok p1" "plan_inv rs p1"
      "map_of (gp_app_sources p1) (sa_app app) = Some (sa_source app)"
      and same: "gp_visits p1 = gp_visits p" "gp_stack p1 = gp_stack p" "gp_order p1 = gp_order p"
    show ?thesis
    proof (cases "map_of (gp_visits p1) app")
      case (Some v)
      show ?thesis
      proof (cases v)
        case Complete
        with Some have "visit_app rs app p = Some (Ok p1)" by (subst visit_app.simps) (simp add: p1(1))
        moreover have "app \<in> au_source_app ` set (gp_order p1)" using Some Complete plan_invD(1) [OF p1(2)] by simp
        ultimately show ?thesis using p1(2) same by simp
      next
        case (Active start)
        with Some have at: "start < length (gp_stack p1)" "gp_stack p1 ! start = app" using plan_invD(2) [OF p1(2)] by auto
        then have result: "visit_app rs app p = Some (Err (AppImportCycle (map sa_app (drop start (gp_stack p1) @ [app]))))"
          using Some Active by (subst visit_app.simps) (simp add: p1(1) cycle_error_def)
        have ne: "gp_stack p1 \<noteq> []" using at(1) by auto
        have "(app, last (gp_stack p1)) \<in> (depends rs)\<^sup>*"
          using stack_path [OF p1(2), of start "length (gp_stack p1) - 1"] at by (simp add: last_conv_nth [OF ne])
        moreover have "(last (gp_stack p1), app) \<in> depends rs" using less.prems(2) ne same(2) by simp
        ultimately have "(app, app) \<in> (depends rs)\<^sup>+" by (rule rtrancl_into_trancl1)
        then show ?thesis unfolding result by (auto simp: acyclic_def)
      qed
    next
      case None
      show ?thesis
      proof (cases "module_id_for_path rs (sa_source app)")
        case no_module: None
        then show ?thesis using None by (subst visit_app.simps) (simp add: p1(1))
      next
        case (Some root)
        from ans Some have "returns (app_dependencies rs root app)" by (simp add: answers_def)
        then show ?thesis
          unfolding returns_def
        proof (elim disjE exE)
          fix e assume "app_dependencies rs root app = Some (Err e)"
          then show ?thesis using None Some by (subst visit_app.simps) (simp add: p1(1))
        next
          fix deps assume deps: "app_dependencies rs root app = Some (Ok deps)"
          let ?p2 = "enter_app app p1"
          have inv2: "plan_inv rs ?p2" by (rule enter_inv [OF p1(2) None p1(3)]) (use less.prems(2) same(2) in simp)
          have stack2: "gp_stack ?p2 = gp_stack p @ [app]" by (simp add: enter_app_def same)
          have edge: "(app, d) \<in> depends rs" if "d \<in> set deps" for d using that Some deps by (auto simp: depends_def)
          have dom2: "dom (map_of (gp_visits ?p2)) = insert app (dom (map_of (gp_visits p)))"
            by (simp add: enter_app_def same)
          have fresh: "app \<in> known_apps rs - dom (map_of (gp_visits p))"
            using app_dependencies_known [OF Some deps] None same(1) by (simp add: domIff)
          have list: "visit_spec rs (set deps) ?p2 (try_fold_run (\<lambda>q d. visit_app rs d q) ?p2 deps)"
          proof (rule visit_list [where p = ?p2 and stack = "gp_stack p @ [app]"])
            fix d q assume d: "d \<in> set deps" and q: "plan_inv rs q" "gp_stack q = gp_stack p @ [app]"
              "dom (map_of (gp_visits ?p2)) \<subseteq> dom (map_of (gp_visits q))"
            have "known_apps rs - dom (map_of (gp_visits q)) \<subset> known_apps rs - dom (map_of (gp_visits p))"
              using q(3) fresh unfolding dom2 by blast
            then have "card (known_apps rs - dom (map_of (gp_visits q))) < card (known_apps rs - dom (map_of (gp_visits p)))"
              using finite_known_apps by (intro psubset_card_mono) auto
            then show "visit_spec rs {d} q (visit_app rs d q)"
              by (rule less.hyps) (use q edge [OF d] in simp_all)
          qed (use inv2 stack2 in simp_all)
          then obtain t where t: "try_fold_run (\<lambda>q d. visit_app rs d q) ?p2 deps = Some t" "t \<noteq> Panic"
            by (rule visit_spec_SomeE)
          from list have spec: "visit_spec rs (set deps) ?p2 (Some t)" unfolding t(1) .
          have run: "visit_app rs app p = bind_run (Some t) (\<lambda>p. Some (Ok (leave_app app root deps p)))"
            using None Some t(1) by (subst visit_app.simps) (simp add: p1(1) deps)
          show ?thesis
          proof (cases t)
            case (Ok p3)
            from spec [unfolded this] obtain us where p3: "plan_inv rs p3" "gp_stack p3 = gp_stack p @ [app]"
              "set deps \<subseteq> au_source_app ` set (gp_order p3)" "gp_order p3 = gp_order ?p2 @ us"
              "au_source_app ` set us \<subseteq> (depends rs)\<^sup>* `` set deps"
              unfolding visit_spec_simps stack2 outcome.inject by blast
            note left = leave_inv [OF p3(1,2) Some deps p3(3)]
            let ?new = "us @ [\<lparr>au_source_app = app, au_root = root, au_dependencies = deps\<rparr>]"
            have order: "gp_order (leave_app app root deps p3) = gp_order p @ ?new"
              using p3(4) by (simp add: leave_app_def enter_app_def same)
            have "(depends rs)\<^sup>* `` set deps \<subseteq> (depends rs)\<^sup>* `` {app}"
              using edge by (auto intro: converse_rtrancl_into_rtrancl)
            then have "au_source_app ` set ?new \<subseteq> (depends rs)\<^sup>* `` {app}" using p3(5) by auto
            with order left show ?thesis unfolding run Ok by auto
          next
            case (Err e)
            with spec show ?thesis unfolding run by simp
          qed (use t in simp)
        qed
      qed
    qed
  qed
qed

lemma visit_last:
  assumes "visit_app rs app p = Some (Ok p')" and "map_of (gp_visits p) app = None"
  shows "au_source_app (last (gp_order p')) = app"
proof -
  from assms(1) obtain p1 where p1: "register_source app p = Ok p1"
    by (subst (asm) visit_app.simps) (auto simp: bind_run_Ok_iff)
  then have same: "gp_visits p1 = gp_visits p" by (auto simp: register_source_def split: option.splits if_splits)
  from assms p1 same show ?thesis
    by (subst (asm) visit_app.simps) (auto simp: bind_run_Ok_iff leave_app_def split: option.splits)
qed

section \<open>When every app is answered\<close>

text \<open>
  A program as \<^const>\<open>from_program\<close> leaves it: its imports and exports are well formed, every
  declaration has its bindings, and the bindings name only what is declared.
\<close>

definition program_ok :: "resolved_modules \<Rightarrow> bool" where
  "program_ok rs \<longleftrightarrow> graph_ok (modules_of rs) (rs_imports rs) \<and> exports_ok rs \<and> bindings_finite (rs_bindings rs)
     \<and> (\<forall>d. declared (modules_of rs) d \<longrightarrow> (\<exists>b. map_of (rs_bindings rs) d = Some b
         \<and> (\<forall>e \<in> db_declarations b. declared (modules_of rs) e)
         \<and> (\<forall>m \<in> db_apps b. declared (modules_of rs) (am_app m) \<and> dc_kind (am_app m) = App)))"

lemma program_okD:
  assumes "program_ok rs"
  shows "graph_ok (modules_of rs) (rs_imports rs)" "exports_ok rs" "bindings_finite (rs_bindings rs)"
    "declared (modules_of rs) d \<Longrightarrow> \<exists>b. map_of (rs_bindings rs) d = Some b
         \<and> (\<forall>e \<in> db_declarations b. declared (modules_of rs) e)
         \<and> (\<forall>m \<in> db_apps b. declared (modules_of rs) (am_app m) \<and> dc_kind (am_app m) = App)"
  using assms by (auto simp: program_ok_def)

lemma modules_of_view [simp]: "modules_of (rs\<lparr>rs_view := v\<rparr>) = modules_of rs"
  by (simp add: modules_of_def)

lemma find_declaration_view [simp]: "find_declaration (rs\<lparr>rs_view := v\<rparr>) d = find_declaration rs d"
  by (simp add: find_declaration_def)

lemma path_end_view [simp]: "path_end (rs\<lparr>rs_view := v\<rparr>) m segments = path_end rs m segments"
  by (induction rs m segments rule: path_end.induct) (auto split: option.splits resolved_name.splits)

lemma view_ok [simp]:
  "exports_ok (rs\<lparr>rs_view := v\<rparr>) = exports_ok rs" "app_calls (rs\<lparr>rs_view := v\<rparr>) = app_calls rs"
  "program_ok (rs\<lparr>rs_view := v\<rparr>) = program_ok rs"
  by (simp_all add: exports_ok_def app_calls_def program_ok_def)

lemma closure_declared:
  assumes ok: "program_ok rs" and roots: "\<forall>d \<in> set roots. declared (modules_of rs) d" and "d \<in> declaration_closure rs roots"
  shows "declared (modules_of rs) d"
proof -
  obtain root where root: "root \<in> set roots" "(root, d) \<in> (references (rs_bindings rs))\<^sup>*"
    using assms(3) unfolding declaration_closure_exact [OF program_okD(3) [OF ok]] by blast
  from root(2) show ?thesis
  proof induction
    case base
    then show ?case using roots root(1) by blast
  next
    case (step e f)
    with program_okD(4) [OF ok step.IH] show ?case by (auto simp: references_def)
  qed
qed

lemma root_declarations_ok:
  assumes "exports_ok rs" "mv_root (rs_view rs) < length (modules_of rs)"
  shows "\<exists>ds. root_declarations rs = Ok ds \<and> (\<forall>d \<in> set ds. declared (modules_of rs) d)"
proof -
  let ?m = "mv_root (rs_view rs)"
  have m: "?m < length (rs_exports rs)" by (rule exports_okD(1) [OF assms])
  have "declared (modules_of rs) d" if "d \<in> set (declaration_ids (rs_exports rs ! ?m))" for d
  proof -
    from that obtain nm where "(nm, Declaration d) \<in> set (rs_exports rs ! ?m)"
      by (auto simp: declaration_ids_def split: resolved_name.splits)
    with exports_keys [OF assms(1,2)] have "map_of (rs_exports rs ! ?m) nm = Some (Declaration d)" by simp
    from exports_okD(2) [OF assms this] show ?thesis by simp
  qed
  with m show ?thesis by (simp add: root_declarations_def index_at_def)
qed

lemma returns_map: "(\<And>x. x \<in> set xs \<Longrightarrow> returns (f x)) \<Longrightarrow> returns (try_map_run f xs)"
  by (induction xs) (auto intro!: returns_bind)

lemma app_actor_ids_returns:
  assumes ok: "exports_ok rs" "acyclic (app_calls rs)" and app: "declared (modules_of rs) app" "dc_kind app = App"
  shows "returns (app_actor_ids rs app)"
    "app_actor_ids rs app = Some (Ok actors) \<Longrightarrow> \<forall>a \<in> set actors. declared (modules_of rs) a"
proof -
  obtain d where d: "find_declaration rs app = Ok (AnApp d)" using find_declaration_declared(2) [OF app] ..
  have home: "dc_module app < length (modules_of rs)" using app(1) by (simp add: declared_def)
  let ?ids = "try_map_run (\<lambda>reference. bind_run (resolve rs (dc_module app) reference)
        (\<lambda>target. Some (app_actor_target rs app reference target))) (ap_actors d)"
  have actors: "\<forall>a \<in> set as. declared (modules_of rs) a" if "?ids = Some (Ok as)" for as
    using that unfolding try_map_run_Ok_iff by induction (auto simp: bind_run_Ok_iff intro: resolve_Declaration_ok [OF ok(1) home])
  have "returns ?ids"
  proof (rule returns_map, rule returns_bind)
    fix reference target
    show "returns (resolve rs (dc_module app) reference)" by (rule resolve_returns_acyclic [OF ok home])
    show "returns (Some (app_actor_target rs app reference target))"
      using fail_at_Err [OF home] by (cases target) (auto simp: app_actor_target_def returns_def)
  qed
  moreover have "returns (Some (and_then (try_fold (distinct_name_step rs) {} as) (\<lambda>_. Ok as)))"
    if "\<forall>a \<in> set as. declared (modules_of rs) a" for as :: "decl_id list"
  proof -
    have "try_fold (distinct_name_step rs) {} as \<noteq> Panic"
    proof (rule try_fold_not_Panic)
      fix names a assume "a \<in> set as"
      with that obtain x where "find_declaration rs a = Ok x" using find_declaration_declared(1) by blast
      then show "distinct_name_step rs names a \<noteq> Panic" by (simp add: distinct_name_step_def)
    qed
    then show ?thesis by (cases "try_fold (distinct_name_step rs) {} as") auto
  qed
  ultimately show "returns (app_actor_ids rs app)"
    using actors by (auto simp: app_actor_ids_def app d intro!: returns_bind)
  show "\<forall>a \<in> set actors. declared (modules_of rs) a" if "app_actor_ids rs app = Some (Ok actors)"
    using that actors by (auto simp: app_actor_ids_def app d bind_run_Ok_iff outcome_simps)
qed

lemma app_declarations_returns:
  assumes v: "program_ok v" "acyclic (app_calls v)" "mv_root (rs_view v) < length (modules_of v)"
    and app: "declared (modules_of v) app" "dc_kind app = App"
  shows "returns (app_declarations v (Some app))"
    "app_declarations v (Some app) = Some (Ok ds) \<Longrightarrow> \<forall>d \<in> ds. declared (modules_of v) d"
proof -
  note actors = app_actor_ids_returns [OF program_okD(2) [OF v(1)] v(2) app]
  obtain roots where roots: "root_declarations v = Ok roots" "\<forall>d \<in> set roots. declared (modules_of v) d"
    using root_declarations_ok [OF program_okD(2) [OF v(1)] v(3)] by blast
  let ?roots = "filter (\<lambda>d. dc_kind d \<noteq> Actor \<and> dc_kind d \<noteq> App) roots"
  have run: "app_declarations v (Some app)
    = bind_run (app_actor_ids v app) (\<lambda>actors. Some (Ok (declaration_closure v (?roots @ actors))))"
    by (simp add: app_declarations_def roots(1))
  show "returns (app_declarations v (Some app))" unfolding run by (rule returns_bind [OF actors(1)]) simp
  show "\<forall>d \<in> ds. declared (modules_of v) d" if "app_declarations v (Some app) = Some (Ok ds)"
  proof -
    from that obtain as where as: "app_actor_ids v app = Some (Ok as)" "ds = declaration_closure v (?roots @ as)"
      unfolding run bind_run_Ok_iff by auto
    have "\<forall>d \<in> set (?roots @ as). declared (modules_of v) d" using roots(2) actors(2) [OF as(1)] by auto
    from closure_declared [OF v(1) this] show ?thesis unfolding as(2) by blast
  qed
qed

definition app_members_ok :: "resolved_modules \<Rightarrow> app_member set \<Rightarrow> bool" where
  "app_members_ok rs members \<longleftrightarrow> finite members
     \<and> (\<forall>m \<in> members. declared (modules_of rs) (am_app m) \<and> dc_kind (am_app m) = App)"

lemma bound_members:
  assumes v: "program_ok v" and ds: "\<forall>d \<in> ds. declared (modules_of v) d"
  shows "\<exists>found. try_map (\<lambda>d. expect (map_of (rs_bindings v) d)) (sorted_list_of_set ds) = (Ok found :: (resolve_error, _) outcome)
    \<and> app_members_ok v (\<Union> (set (map db_apps found)))"
proof -
  have fin: "finite ds" by (rule finite_subset [OF _ finite_declared [of "modules_of v"]]) (use ds in auto)
  let ?b = "\<lambda>d. the (map_of (rs_bindings v) d)"
  have each: "map_of (rs_bindings v) d = Some (?b d) \<and> app_members_ok v (db_apps (?b d))" if "d \<in> ds" for d
  proof -
    from program_okD(4) [OF v, of d] ds that obtain b where b: "map_of (rs_bindings v) d = Some b"
      "\<forall>m \<in> db_apps b. declared (modules_of v) (am_app m) \<and> dc_kind (am_app m) = App" by blast
    moreover have "finite (db_apps b)"
      using program_okD(3) [OF v] map_of_SomeD [OF b(1)] by (auto simp: bindings_finite_def)
    ultimately show ?thesis by (simp add: app_members_ok_def)
  qed
  have "try_map (\<lambda>d. expect (map_of (rs_bindings v) d)) (sorted_list_of_set ds)
    = (Ok (map ?b (sorted_list_of_set ds)) :: (resolve_error, _) outcome)"
  proof (rule try_map_total)
    fix d assume "d \<in> set (sorted_list_of_set ds)"
    with fin each [of d] show "expect (map_of (rs_bindings v) d) = (Ok (?b d) :: (resolve_error, _) outcome)" by simp
  qed
  moreover have "app_members_ok v (\<Union> (set (map db_apps (map ?b (sorted_list_of_set ds)))))"
    using fin each by (auto simp: app_members_ok_def)
  ultimately show ?thesis by blast
qed

lemma referenced_members_returns:
  assumes v: "program_ok v" "acyclic (app_calls v)" "mv_root (rs_view v) < length (modules_of v)"
    and app: "declared (modules_of v) app" "dc_kind app = App"
  shows "returns (referenced_app_members v app)"
    "referenced_app_members v app = Some (Ok members) \<Longrightarrow> app_members_ok v members"
proof -
  note ds = app_declarations_returns [OF assms]
  show "returns (referenced_app_members v app)"
    unfolding referenced_app_members_def
  proof (rule returns_bind [OF ds(1)])
    fix found assume "app_declarations v (Some app) = Some (Ok found)"
    from bound_members [OF v(1) ds(2) [OF this]]
    show "returns (Some (and_then (try_map (\<lambda>d. expect (map_of (rs_bindings v) d)) (sorted_list_of_set found))
      (\<lambda>found. Ok (\<Union> (set (map db_apps found)))) :: (resolve_error, app_member set) outcome))" by auto
  qed
  show "app_members_ok v members" if "referenced_app_members v app = Some (Ok members)"
  proof -
    from that obtain found where found: "app_declarations v (Some app) = Some (Ok found)"
      "and_then (try_map (\<lambda>d. expect (map_of (rs_bindings v) d)) (sorted_list_of_set found))
        (\<lambda>found. Ok (\<Union> (set (map db_apps found)))) = (Ok members :: (resolve_error, app_member set) outcome)"
      unfolding referenced_app_members_def bind_run_Ok_iff by auto
    from bound_members [OF v(1) ds(2) [OF found(1)]] found(2) show ?thesis by auto
  qed
qed

lemma member_sources_return:
  assumes "app_members_ok v members"
  shows "returns (Some (try_map (member_source v) (sorted_list_of_set (am_app ` members))))"
proof -
  have "try_map (member_source v) (sorted_list_of_set (am_app ` members)) \<noteq> Panic"
  proof (rule try_map_not_Panic)
    fix app assume "app \<in> set (sorted_list_of_set (am_app ` members))"
    with assms have app: "declared (modules_of v) app" "dc_kind app = App" by (auto simp: app_members_ok_def)
    obtain d where "find_declaration v app = Ok (AnApp d)" using find_declaration_declared(2) [OF app] ..
    moreover have "dc_module app < length (modules_of v)" using app(1) by (simp add: declared_def)
    ultimately show "member_source v app \<noteq> Panic" by (simp add: member_source_def app_source_def index_at_def)
  qed
  then show ?thesis by (cases "try_map (member_source v) (sorted_list_of_set (am_app ` members))") auto
qed

lemma root_app_named:
  assumes "mv_root (rs_view v) < length (modules_of v)"
  shows "(\<exists>app. root_app v (Some nm) = Ok (Some app) \<and> declared (modules_of v) app \<and> dc_kind app = App)
    \<or> (\<exists>e. root_app v (Some nm) = Err e)"
proof (cases "position_of (\<lambda>app. ap_name app = nm) (md_apps (modules_of v ! mv_root (rs_view v)))")
  case None
  then show ?thesis using assms by (simp add: root_app_def Let_def index_at_def)
next
  case (Some i)
  with position_of_Some [OF Some] assms show ?thesis
    by (simp add: root_app_def Let_def index_at_def declared_def decl_count_def)
qed

lemma app_dependencies_returns:
  assumes ok: "program_ok rs" "acyclic (app_calls rs)" and root: "root < length (modules_of rs)"
  shows "returns (app_dependencies rs root a)"
proof -
  from view_from_exact [OF program_okD(1) [OF ok(1)] root] obtain ms where
    view: "with_root rs root = Ok (rs\<lparr>rs_view := \<lparr>mv_root = root, mv_reachable = ms\<rparr>\<rparr>)"
    by (auto simp: with_root_def)
  define v where "v = rs\<lparr>rs_view := \<lparr>mv_root = root, mv_reachable = ms\<rparr>\<rparr>"
  have v: "program_ok v" "acyclic (app_calls v)" "mv_root (rs_view v) < length (modules_of v)"
    using ok root by (simp_all add: v_def)
  have run: "app_dependencies rs root a = bind_run (Some (root_app v (Some (sa_app a)))) (\<lambda>selected. case selected of
         None \<Rightarrow> Some (Err (AppNotDeclared (sa_source a) (sa_app a)))
       | Some selected_app \<Rightarrow>
           bind_run (referenced_app_members v selected_app) (\<lambda>members.
           bind_run (Some (try_map (member_source v) (sorted_list_of_set (am_app ` members))))
             (\<lambda>apps. Some (Ok (sorted_list_of_set (set apps))))))"
    by (simp only: app_dependencies_def view v_def bind_run_simps)
  from root_app_named [OF v(3), of "sa_app a"] show ?thesis
  proof (elim disjE exE conjE)
    fix app assume app: "root_app v (Some (sa_app a)) = Ok (Some app)" "declared (modules_of v) app" "dc_kind app = App"
    note members = referenced_members_returns [OF v app(2,3)]
    have "returns (bind_run (referenced_app_members v app) (\<lambda>members.
           bind_run (Some (try_map (member_source v) (sorted_list_of_set (am_app ` members))))
             (\<lambda>apps. Some (Ok (sorted_list_of_set (set apps))))))"
      by (rule returns_bind [OF members(1)], rule returns_bind [OF member_sources_return]) (simp_all add: members(2))
    then show ?thesis by (simp add: run app(1))
  qed (simp add: run)
qed

lemma program_answers: "program_ok rs \<Longrightarrow> acyclic (app_calls rs) \<Longrightarrow> answers rs"
  unfolding answers_def
proof (intro allI impI)
  fix a root
  assume ok: "program_ok rs" "acyclic (app_calls rs)" and "module_id_for_path rs (sa_source a) = Some root"
  then have "root < length (modules_of rs)" by (auto simp: module_id_for_path_def dest!: find_SomeD)
  with ok show "returns (app_dependencies rs root a)" by (rule app_dependencies_returns)
qed

text \<open>
  C26: Ordering the apps of a program always ends. If it succeeds, the order holds exactly the apps
  that the selected app depends on, itself last and none twice, every app after all the apps its
  own declarations refer to, with the dependencies found in the module of its path, and no app
  name stands for two sources; a cycle is reported only if an app does depend on itself.
\<close>

theorem app_graph_order_correct:
  assumes "program_ok rs" and "acyclic (app_calls rs)" and "root < length (modules_of rs)" and "root = mv_root (rs_view rs)"
  shows "(\<exists>order. app_graph_plan rs app = Some (Ok order) \<and> built_in_order rs order
      \<and> au_source_app ` set order = (depends rs)\<^sup>* `` {SourceApp (md_path (modules_of rs ! root)) app}
      \<and> order \<noteq> [] \<and> au_source_app (last order) = SourceApp (md_path (modules_of rs ! root)) app
      \<and> inj_on sa_app (au_source_app ` set order))
    \<or> (\<exists>e. app_graph_plan rs app = Some (Err e) \<and> ((\<exists>names. e = AppImportCycle names) \<longrightarrow> \<not> acyclic (depends rs)))"
proof -
  define start where "start = \<lparr>gp_app_sources = [], gp_visits = [], gp_stack = [], gp_order = []\<rparr>"
  let ?app = "SourceApp (md_path (modules_of rs ! root)) app"
  have run: "app_graph_plan rs app = bind_run (visit_app rs ?app start) (\<lambda>p. Some (Ok (gp_order p)))"
    using assms(3) by (simp add: app_graph_plan_def start_def index_at_def flip: assms(4))
  have "plan_inv rs start" by (simp add: plan_inv_def start_def built_in_order_def)
  from visit_app_spec [OF program_answers [OF assms(1,2)] this, of ?app] have spec: "visit_spec rs {?app} start (visit_app rs ?app start)"
    by (simp add: start_def)
  then obtain t where t: "visit_app rs ?app start = Some t" "t \<noteq> Panic" by (rule visit_spec_SomeE)
  show ?thesis
  proof (cases t)
    case (Err e)
    with spec t(1) show ?thesis by (simp add: run)
  next
    case (Ok p)
    with spec t(1) have p: "plan_inv rs p" "gp_stack p = []" "?app \<in> au_source_app ` set (gp_order p)"
      "au_source_app ` set (gp_order p) \<subseteq> (depends rs)\<^sup>* `` {?app}" by (auto simp: start_def)
    have order: "built_in_order rs (gp_order p)" by (rule plan_invD(3) [OF p(1)])
    have closed: "depends rs `` (au_source_app ` set (gp_order p)) \<subseteq> au_source_app ` set (gp_order p)"
    proof clarify
      fix b u assume "(au_source_app u, b) \<in> depends rs" and u: "u \<in> set (gp_order p)"
      then obtain root' deps where b: "module_id_for_path rs (sa_source (au_source_app u)) = Some root'"
        "app_dependencies rs root' (au_source_app u) = Some (Ok deps)" "b \<in> set deps" by (auto simp: depends_def)
      obtain k where k: "k < length (gp_order p)" "gp_order p ! k = u" using u by (auto simp: in_set_conv_nth)
      with order have "unit_ok rs (take k (gp_order p)) u" by (auto simp: built_in_order_def)
      with b have "b \<in> au_source_app ` set (take k (gp_order p))" by (auto simp: unit_ok_def)
      then show "b \<in> au_source_app ` set (gp_order p)" using set_take_subset by fast
    qed
    have all: "au_source_app ` set (gp_order p) = (depends rs)\<^sup>* `` {?app}"
      by (rule closed_rtrancl_Image [OF p(3) closed p(4)])
    have names: "inj_on sa_app (au_source_app ` set (gp_order p))"
    proof (rule inj_onI)
      fix a b assume ab: "a \<in> au_source_app ` set (gp_order p)" "b \<in> au_source_app ` set (gp_order p)" "sa_app a = sa_app b"
      have "map_of (gp_app_sources p) (sa_app c) = Some (sa_source c)" if "c \<in> au_source_app ` set (gp_order p)" for c
        using that plan_invD(1,4) [OF p(1), of c] by simp
      from this [OF ab(1)] this [OF ab(2)] ab(3) show "a = b" by (simp add: source_app.expand)
    qed
    have ne: "gp_order p \<noteq> []" using p(3) by auto
    have "au_source_app (last (gp_order p)) = ?app"
      using visit_last [OF t(1) [unfolded Ok]] by (simp add: start_def)
    with order all names ne t(1) Ok show ?thesis by (simp add: run)
  qed (use t in simp)
qed

section \<open>Two apps\<close>

definition root_source :: source_app where
  "root_source = SourceApp [Normal ''root.ag''] ''RootApp''"

definition dep_source :: source_app where
  "dep_source = SourceApp [Normal ''dep.ag''] ''DepApp''"

lemma demo_program_ok: "program_ok (demo_view root reachable)"
proof -
  have "bindings_finite demo_bindings" by (simp add: bindings_finite_def demo_bindings_def)
  moreover have "\<exists>b. map_of demo_bindings d = Some b \<and> (\<forall>e \<in> db_declarations b. declared demo_modules e)
      \<and> (\<forall>m \<in> db_apps b. declared demo_modules (am_app m) \<and> dc_kind (am_app m) = App)" if "declared demo_modules d" for d
    using that unfolding demo_declared by (auto simp: demo_bindings_def demo_declared)
  ultimately show ?thesis using demo_view_ok [of root reachable] demo_graph_ok by (simp add: program_ok_def)
qed

lemma demo_no_calls: "app_calls (demo_view root reachable) = {}"
proof -
  have False if call: "(app, app') \<in> app_calls (demo_view root reachable)" for app app'
  proof -
    from call obtain d reference nm where *: "declared demo_modules app" "find_declaration (demo_view root reachable) app = Ok (AnApp d)"
      "reference \<in> set (ap_actors d)" "path_end (demo_view root reachable) (dc_module app) (split_names reference) = Some (Inr (app', nm))"
      by (auto simp: app_calls_def)
    from *(1,2) demo_find(3,4) [of root reachable] have "app = DeclId 0 App 0 \<or> app = DeclId 1 App 0"
      unfolding demo_declared by auto
    then show False
    proof
      assume app: "app = DeclId 0 App 0"
      with * demo_find(1) [of root reachable] have "reference = ''Root''" by auto
      with *(4) app demo_paths(1) [of root reachable] show False by simp
    next
      assume app: "app = DeclId 1 App 0"
      with * demo_find(2) [of root reachable] have "reference = ''Dep''" by auto
      with *(4) app demo_paths(2) [of root reachable] show False by simp
    qed
  qed
  then show ?thesis by auto
qed

lemma demo_roots:
  "with_root (demo_view root reachable) 0 = Ok (demo_view 0 [0, 1])" "with_root (demo_view root reachable) 1 = Ok (demo_view 1 [1])"
  by (simp_all add: with_root_def view_from_def demo_imports_def del: One_nat_def) (simp_all add: demo_view_def)

lemma demo_dependencies:
  "app_dependencies (demo_view root reachable) 0 root_source = Some (Ok [dep_source])"
  "app_dependencies (demo_view root reachable) 1 dep_source = Some (Ok [])"
proof -
  have apps: "root_app (demo_view 0 [0, 1]) (Some ''RootApp'') = Ok (Some (DeclId 0 App 0))"
    "root_app (demo_view 1 [1]) (Some ''DepApp'') = Ok (Some (DeclId 1 App 0))"
    by (simp_all add: root_app_def Let_def index_at_def) (simp_all add: demo_modules_def demo_module_def)
  have list: "sorted_list_of_set {DeclId 0 Actor 0, DeclId 1 Actor 0} = [DeclId 0 Actor 0, DeclId 1 Actor 0]" by code_simp
  have members: "referenced_app_members (demo_view 0 [0, 1]) (DeclId 0 App 0)
      = Some (Ok {\<lparr>am_app = DeclId 1 App 0, am_actor = DeclId 1 Actor 0\<rparr>})"
    "referenced_app_members (demo_view 1 [1]) (DeclId 1 App 0) = Some (Ok {})"
    by (simp_all add: referenced_app_members_def demo_declarations list del: One_nat_def)
      (simp_all add: demo_bindings_def del: One_nat_def)
  have source: "member_source (demo_view 0 [0, 1]) (DeclId 1 App 0) = Ok dep_source"
    by (simp add: member_source_def app_source_def index_at_def demo_find del: One_nat_def)
      (simp add: demo_modules_def demo_module_def dep_source_def)
  show "app_dependencies (demo_view root reachable) 0 root_source = Some (Ok [dep_source])"
    by (simp add: app_dependencies_def demo_roots apps members source root_source_def del: One_nat_def)
  show "app_dependencies (demo_view root reachable) 1 dep_source = Some (Ok [])"
    by (simp add: app_dependencies_def demo_roots apps members dep_source_def del: One_nat_def)
qed

definition demo_order :: "app_build_unit list" where
  "demo_order = [\<lparr>au_source_app = dep_source, au_root = 1, au_dependencies = []\<rparr>,
     \<lparr>au_source_app = root_source, au_root = 0, au_dependencies = [dep_source]\<rparr>]"

lemma demo_plan_found: "app_graph_plan (demo_view 0 [0, 1]) ''RootApp'' = Some (Ok demo_order)"
proof -
  have m: "module_id_for_path (demo_view 0 [0, 1]) (sa_source root_source) = Some 0"
    "module_id_for_path (demo_view 0 [0, 1]) (sa_source dep_source) = Some 1"
    by (simp_all add: module_id_for_path_def) (simp_all add: demo_modules_def demo_module_def root_source_def dep_source_def)
  have names: "sa_app root_source = ''RootApp''" "sa_app dep_source = ''DepApp''" "root_source \<noteq> dep_source"
    by (simp_all add: root_source_def dep_source_def)
  have dep: "visit_app (demo_view 0 [0, 1]) dep_source p = Some (Ok (leave_app dep_source 1 [] (enter_app dep_source
      (p\<lparr>gp_app_sources := bm_insert ''DepApp'' (sa_source dep_source) (gp_app_sources p)\<rparr>))))"
    if "map_of (gp_app_sources p) ''DepApp'' = None" "map_of (gp_visits p) dep_source = None" for p
    using that by (subst visit_app.simps) (simp add: register_source_def names m demo_dependencies del: One_nat_def)
  let ?start = "\<lparr>gp_app_sources = [], gp_visits = [], gp_stack = [], gp_order = []\<rparr>"
  have "\<exists>p. visit_app (demo_view 0 [0, 1]) root_source ?start = Some (Ok p) \<and> gp_order p = demo_order"
    by (subst visit_app.simps)
      (simp add: register_source_def names names(3) [symmetric] m demo_dependencies dep enter_app_def leave_app_def demo_order_def del: One_nat_def)
  moreover have "index_at demo_modules 0 = (Ok (demo_modules ! 0) :: (graph_error, module_decl) outcome)"
    "SourceApp (md_path (demo_modules ! 0)) ''RootApp'' = root_source"
    by (simp_all add: demo_modules_def demo_module_def root_source_def index_at_def)
  ultimately show ?thesis by (auto simp: app_graph_plan_def index_at_def)
qed

lemma app_graph_order_correct_witness:
  "built_in_order (demo_view 0 [0, 1]) demo_order
    \<and> (depends (demo_view 0 [0, 1]))\<^sup>* `` {root_source} = {dep_source, root_source} \<and> au_source_app (last demo_order) = root_source"
proof -
  have "acyclic (app_calls (demo_view 0 [0, 1]))" by (simp add: demo_no_calls acyclic_def)
  moreover have "0 < length (modules_of (demo_view 0 [0, 1]))" by (simp add: demo_modules_def)
  moreover have "SourceApp (md_path (modules_of (demo_view 0 [0, 1]) ! 0)) ''RootApp'' = root_source"
    by (simp add: demo_modules_def demo_module_def root_source_def)
  moreover have "au_source_app ` set demo_order = {dep_source, root_source}" by (simp add: demo_order_def)
  ultimately show ?thesis
    using app_graph_order_correct [OF demo_program_ok, of 0 "[0, 1]" 0 "''RootApp''"] demo_plan_found by auto
qed

end
