(* ===== verification/Spec2Isabelle.thy ===== *)
theory Spec2Isabelle
  imports Route_Plan Route_Witness Observed_Contexts Genesis_Proof Lexer App_Graph
begin

text \<open>
  Argent is a language for covenant apps on Kaspa. Its compiler turns actors and apps into
  Silverscript contracts and a portable artifact; a runtime library builds transactions from
  artifacts; a genesis library proves what a covenant was launched with. This development
  models the parts that carry the guarantees: the planning of route commitments, the
  verification of artifacts, the runtime that derives contract state and witness material from
  them, the genesis proofs, and the front of the compiler's reader.

  \<^bold>\<open>Parts and theories.\<close> A theory models one part; its text block names the source files.

  \<^item> \<^verbatim>\<open>Argent_Prelude\<close>: outcomes of Rust functions (\<^verbatim>\<open>Ok\<close>, \<^verbatim>\<open>Err\<close>, and a panic as a
  third case), loops with an early return, \<^verbatim>\<open>BTreeMap\<close> as an ordered association list
  with the contract of an ordered map as a locale.

  \<^item> \<^verbatim>\<open>Route_Graph\<close>, \<^verbatim>\<open>Commitment_Forest\<close>, \<^verbatim>\<open>Commitment_Plan\<close>, \<^verbatim>\<open>Route_Plan\<close>:
  \<^verbatim>\<open>src/src/routing\<close>. The graph of emits and consumes with its weak components and needs
  (\<^verbatim>\<open>graph.rs\<close>); the forest of commitments, cuts through it and the openings and packings
  that lead from one cut to another, with the cuts planned for actors and cohorts
  (\<^verbatim>\<open>commitment.rs\<close>); selectors, route families and tables (\<^verbatim>\<open>plan.rs\<close>). The lemmas show
  that planning decides legality of its constraints, that every planned cut is valid and
  covers what its actor needs, and that every emit edge has a transition.

  \<^item> \<^verbatim>\<open>Artifact_Model\<close>, \<^verbatim>\<open>Template_Errors\<close>, \<^verbatim>\<open>Artifact_Cardinality\<close>,
  \<^verbatim>\<open>Template_Frames\<close>, \<^verbatim>\<open>Route_Proofs\<close>, \<^verbatim>\<open>Spawn_Check\<close>, \<^verbatim>\<open>Template_Plan\<close>,
  \<^verbatim>\<open>Actor_Handles\<close>, \<^verbatim>\<open>Plan_Check\<close>, \<^verbatim>\<open>Artifact_Check\<close>, \<^verbatim>\<open>Artifact_Examples\<close>:
  \<^verbatim>\<open>src/crates/argent-artifact\<close>. The data of an artifact and its verification, phase by
  phase in the order of \<^verbatim>\<open>check_consistency\<close>: cardinalities, template frames, Merkle
  membership proofs, spawn metadata, the template plan with its tables, families, receipts and
  handles, and the identity hash. The lemmas show that a check accepts exactly what its
  contract says, never panics, and what an accepted artifact guarantees.

  \<^item> \<^verbatim>\<open>Naming\<close>, \<^verbatim>\<open>Builder_Model\<close>, \<^verbatim>\<open>Artifact_Bundle\<close>, \<^verbatim>\<open>State_Materialize\<close>,
  \<^verbatim>\<open>Hidden_Arguments\<close>, \<^verbatim>\<open>Route_Witness\<close>, \<^verbatim>\<open>Observed_Contexts\<close>, \<^verbatim>\<open>Tx_Context\<close>:
  \<^verbatim>\<open>src/crates/argent-runtime\<close> (\<^verbatim>\<open>lib.rs\<close>, \<^verbatim>\<open>script.rs\<close>, \<^verbatim>\<open>context.rs\<close>) and
  \<^verbatim>\<open>src/src/compiler/naming.rs\<close>. Bundles of checked artifacts and the builder opened on one;
  the physical state of a contract derived from authored state; the generated arguments of an
  entry; validation of observed covenants; the transaction context a caller writes. A bundle is
  reached only through its operations, and the relation \<^verbatim>\<open>built\<close> collects them: its
  invariant is what makes the lookups and slices of the runtime safe.

  \<^item> \<^verbatim>\<open>Genesis_Proof\<close>: \<^verbatim>\<open>src/crates/argent-genesis\<close>. Consensus preimages, the Silverscript
  and Argent layers above them, bootstraps exported from a transaction context, and packages.
  The Argent layer refines the consensus layer.

  \<^item> \<^verbatim>\<open>Lexer\<close>: \<^verbatim>\<open>src/src/compiler/syntax/lexer.rs\<close>. Sources as bytes, tokens with spans,
  the value of number tokens.

  \<^item> \<^verbatim>\<open>Syntax_Model\<close>, \<^verbatim>\<open>Namespaces\<close>, \<^verbatim>\<open>Name_Resolution\<close>, \<^verbatim>\<open>Resolved_Views\<close>,
  \<^verbatim>\<open>App_Graph\<close>: the declarations of \<^verbatim>\<open>src/src/compiler/syntax/mod.rs\<close>, the resolution of names
  (\<^verbatim>\<open>resolve/namespaces.rs\<close>, \<^verbatim>\<open>resolve/mod.rs\<close>) and the order of apps (\<^verbatim>\<open>app_graph.rs\<close>). The
  lemmas show that the fixed point of the exports is the closure of the imports without alias,
  that a worklist returns what is reachable, that display names do not clash, and that the build
  order is topological. Two recursions of this part have no bound in the code, the rounds of the
  fixed point and the calls between references and app members; they are
  \<^verbatim>\<open>partial_function (option)\<close>, with \<^verbatim>\<open>None\<close> for a call that does not return, and the
  theorems say when they return. What a declaration references is an argument here, since it is
  found by walking Silverscript trees (\<^verbatim>\<open>resolve/bindings.rs\<close>).

  \<^bold>\<open>How code becomes definitions.\<close> A struct is a record, an enum a datatype, a function that
  returns a \<^verbatim>\<open>Result\<close> a function into \<^verbatim>\<open>outcome\<close>; an \<^verbatim>\<open>expect\<close>, a slice, an index or
  an \<^verbatim>\<open>assert!\<close> that fails is \<^verbatim>\<open>Panic\<close>. A \<^verbatim>\<open>debug_assert!\<close> is left out, as in a
  release build. A \<^verbatim>\<open>String\<close> is a list of bytes. A \<^verbatim>\<open>usize\<close> that counts or indexes is a
  natural number; sums of lengths that the code checks with \<^verbatim>\<open>checked_add\<close> carry the bound
  of the address space; fields of fixed width are words. Loops are recursive functions with a
  proved measure (the search of needs by the ends of the edges not yet expanded, the lexer by
  the bytes left), or folds over the list the code iterates; no definition needs fuel unless
  its text says so.

  \<^bold>\<open>Library code.\<close> What is not in the repository is a parameter, gathered in the records
  \<^verbatim>\<open>hash_lib\<close>, \<^verbatim>\<open>sil_lib\<close>, \<^verbatim>\<open>artifact_lib\<close> and \<^verbatim>\<open>runtime_lib\<close>: blake3 and blake2b,
  hexadecimal and JSON codecs, the Silverscript ABI crate (contract lookup, script parts, state
  codec), the Kaspa script hash and covenant id. The laws assumed of them are the predicates
  \<^verbatim>\<open>hash_lib_ok\<close>, \<^verbatim>\<open>sil_lib_ok\<close>, \<^verbatim>\<open>artifact_lib_ok\<close>, \<^verbatim>\<open>runtime_lib_ok\<close> and
  \<^verbatim>\<open>hex_codecs_agree\<close>; concrete instances satisfy them in the witnesses.

  \<^bold>\<open>Interfaces.\<close> The ordered map of the prelude (\<^verbatim>\<open>ordered_map\<close>, interpreted on the
  association lists) and the needs of a graph on which cuts rely (\<^verbatim>\<open>needs_contract\<close>,
  interpreted on the routing graph) are locales.

  \<^bold>\<open>Not modelled.\<close> The recursive-descent parser and everything after it that walks
  Silverscript syntax trees (compiler model, code generation): the trees, their visitors and
  their printer belong to \<^verbatim>\<open>silverscript-lang\<close>, which is not in the repository. The
  assembly of a whole transaction around the Kaspa script engine and mass calculator
  (\<^verbatim>\<open>resolve.rs\<close>, \<^verbatim>\<open>stdlib.rs\<close>), file access, the command line, display texts of errors
  and serde attributes.
\<close>

end
